(* ===== verification/Prelude.thy ===== *)
theory Prelude
  imports Main "HOL-Library.Word"
begin

text \<open>
  Shared vocabulary of the development: the machine integer types of the code, the arithmetic
  the code calls by name (saturating, checked), the bounds-checked slice operations of the
  standard library (\<open>slice.get(a..b)\<close>, \<open>slice.get(a..)\<close>, \<open>slice.get(i)\<close>), results as sums,
  and the generic facts on them that every component uses.

  \<^item> \<open>u8\<close>, \<open>u16\<close>, \<open>u32\<close>, \<open>u64\<close> are words of their width: stored fields keep their width.
  \<^item> \<open>usize\<close> is \<open>nat\<close> with the bound \<open>USIZE_MAX\<close> of a 64-bit target: \<open>x as usize\<close> and
    \<open>usize::from(x)\<close> are \<open>unat x\<close>, \<open>usize::try_from(u64)\<close> cannot fail, a saturating or checked
    operation is written out with the bound.
    An unchecked \<open>+\<close> or \<open>*\<close> on \<open>usize\<close> is the operation on \<open>nat\<close>.
    It agrees with the machine's as long as the true result is at most \<open>USIZE_MAX\<close>. A slice of the
    program holds at most \<open>isize::MAX\<close> bytes, so an offset into it is far below the bound.
  \<^item> A \<open>Result<T, E>\<close> is \<open>'e + 't\<close>, with \<open>Inl\<close> the error.
\<close>

unbundle bit_operations_syntax

named_theorems slice_simps \<open>evaluation of the slice operations\<close>
named_theorems bound_intros \<open>upper bounds of machine integers\<close>

type_synonym u8 = "8 word"
type_synonym u16 = "16 word"
type_synonym u32 = "32 word"
type_synonym u64 = "64 word"
type_synonym bytes = "u8 list"

section \<open>usize arithmetic\<close>

definition USIZE_MAX :: nat where
  "USIZE_MAX = 2 ^ 64 - 1"

definition ISIZE_MAX :: nat where
  "ISIZE_MAX = 2 ^ 63 - 1"

text \<open>\<open>saturating_add\<close>, \<open>saturating_mul\<close>, \<open>checked_add\<close>, \<open>checked_mul\<close> on \<open>usize\<close>;
  \<open>saturating_sub\<close> is subtraction on \<open>nat\<close>.\<close>

definition usat_add :: "nat \<Rightarrow> nat \<Rightarrow> nat" where
  "usat_add a b = min (a + b) USIZE_MAX"

definition usat_mul :: "nat \<Rightarrow> nat \<Rightarrow> nat" where
  "usat_mul a b = min (a * b) USIZE_MAX"

definition uchecked_add :: "nat \<Rightarrow> nat \<Rightarrow> nat option" where
  "uchecked_add a b = (if a + b \<le> USIZE_MAX then Some (a + b) else None)"

definition uchecked_mul :: "nat \<Rightarrow> nat \<Rightarrow> nat option" where
  "uchecked_mul a b = (if a * b \<le> USIZE_MAX then Some (a * b) else None)"

lemma usat_add_exact: "a + b \<le> USIZE_MAX \<Longrightarrow> usat_add a b = a + b"
  by (simp add: usat_add_def)

lemma usat_mul_exact: "a * b \<le> USIZE_MAX \<Longrightarrow> usat_mul a b = a * b"
  by (simp add: usat_mul_def)

lemma usat_add_le [bound_intros]: "usat_add a b \<le> USIZE_MAX"
  by (simp add: usat_add_def)

lemma usat_mul_le [bound_intros]: "usat_mul a b \<le> USIZE_MAX"
  by (simp add: usat_mul_def)

lemma usat_add_le_sum: "usat_add a b \<le> a + b"
  by (simp add: usat_add_def)

lemma usat_add_ge: "a \<le> USIZE_MAX \<Longrightarrow> a \<le> usat_add a b"
  by (simp add: usat_add_def)

text \<open>A saturated sum that is at most a bound below \<open>USIZE_MAX\<close> did not saturate.\<close>

lemma usat_add_le_iff: "n < USIZE_MAX \<Longrightarrow> usat_add a b \<le> n \<longleftrightarrow> a + b \<le> n"
  by (auto simp: usat_add_def)

lemma ISIZE_less_USIZE: "n \<le> ISIZE_MAX \<Longrightarrow> n < USIZE_MAX"
  by (simp add: ISIZE_MAX_def USIZE_MAX_def)

section \<open>Fixed-width saturating arithmetic\<close>

definition wsat_add :: "'a::len word \<Rightarrow> 'a word \<Rightarrow> 'a word" where
  "wsat_add a b = (if unat a + unat b < 2 ^ LENGTH('a) then a + b else - 1)"

definition wsat_mul :: "'a::len word \<Rightarrow> 'a word \<Rightarrow> 'a word" where
  "wsat_mul a b = (if unat a * unat b < 2 ^ LENGTH('a) then a * b else - 1)"

definition wsat_sub :: "'a::len word \<Rightarrow> 'a word \<Rightarrow> 'a word" where
  "wsat_sub a b = (if b \<le> a then a - b else 0)"

definition wchecked_mul :: "'a::len word \<Rightarrow> 'a word \<Rightarrow> 'a word option" where
  "wchecked_mul a b = (if unat a * unat b < 2 ^ LENGTH('a) then Some (a * b) else None)"

lemma unat_add_exact:
  fixes a b :: "'a::len word"
  shows "unat a + unat b < 2 ^ LENGTH('a) \<Longrightarrow> unat (a + b) = unat a + unat b"
  by (simp add: unat_word_ariths)

lemma unat_mul_exact:
  fixes a b :: "'a::len word"
  shows "unat a * unat b < 2 ^ LENGTH('a) \<Longrightarrow> unat (a * b) = unat a * unat b"
  by (simp add: unat_word_ariths)

lemma unat_neg_one: "unat (- 1 :: 'a::len word) = 2 ^ LENGTH('a) - 1"
  by (simp add: unsigned_minus_1_eq_mask mask_eq_exp_minus_1)

lemma unat_wsat_add: "unat (wsat_add a b) = min (unat a + unat b) (2 ^ LENGTH('a) - 1)"
  for a b :: "'a::len word"
  by (cases "unat a + unat b < 2 ^ LENGTH('a)")
    (simp_all add: wsat_add_def unat_add_exact unat_neg_one)

lemma unat_wsat_mul: "unat (wsat_mul a b) = min (unat a * unat b) (2 ^ LENGTH('a) - 1)"
  for a b :: "'a::len word"
  by (cases "unat a * unat b < 2 ^ LENGTH('a)")
    (simp_all add: wsat_mul_def unat_mul_exact unat_neg_one)

lemma unat_wsat_sub: "unat (wsat_sub a b) = unat a - unat b"
  by (simp add: wsat_sub_def unat_sub word_le_nat_alt)

lemma unat_less_pow: "unat (x :: 'a::len word) < 2 ^ LENGTH('a)"
  by simp

lemma unat_u64_less: "unat (x :: u64) < 2 ^ 64"
  using unat_less_pow [of x] by simp

lemma unat_u8 [bound_intros]: "unat (x :: u8) \<le> 255"
  using unat_less_pow [of x] by simp

lemma unat_u16 [bound_intros]: "unat (x :: u16) \<le> 65535"
  using unat_less_pow [of x] by simp

lemma unat_u32 [bound_intros]: "unat (x :: u32) \<le> 4294967295"
  using unat_less_pow [of x] by simp

lemma unat_u64 [bound_intros]: "unat (x :: u64) \<le> USIZE_MAX"
  using unat_less_pow [of x] by (simp add: USIZE_MAX_def)

lemma unat_ucast_widen:
  "LENGTH('a) \<le> LENGTH('b) \<Longrightarrow> unat (ucast (x :: 'a::len word) :: 'b::len word) = unat x"
  using unat_less_pow [of x]
  by (simp add: unsigned_ucast_eq take_bit_nat_eq_self less_le_trans [OF unat_less_pow])

section \<open>Signed readings and mixed radix\<close>

lemma sint_cases:
  fixes w :: "'a::len word"
  shows "sint w = (if uint w < 2 ^ (LENGTH('a) - 1) then uint w else uint w - 2 ^ LENGTH('a))"
proof -
  have len: "(2::int) ^ LENGTH('a) = 2 * 2 ^ (LENGTH('a) - 1)"
    by (metis One_nat_def Suc_pred len_gt_0 power_Suc)
  have lt: "uint w < 2 ^ LENGTH('a)" by simp
  have "uint w div 2 ^ (LENGTH('a) - 1) = (if uint w < 2 ^ (LENGTH('a) - 1) then 0 else 1)"
    using lt len by (auto intro!: int_div_pos_eq [where r = "uint w - 2 ^ (LENGTH('a) - 1)"])
  then have "bit (uint w) (LENGTH('a) - 1) \<longleftrightarrow> \<not> uint w < 2 ^ (LENGTH('a) - 1)"
    by (simp add: bit_iff_odd)
  then show ?thesis
    using lt by (simp add: sint_uint signed_take_bit_eq_take_bit_minus take_bit_int_eq_self)
qed

lemma int_div_less_iff:
  fixes x k n :: int
  assumes "0 < k"
  shows "x div k < n \<longleftrightarrow> x < n * k"
proof
  assume "x div k < n"
  then have "(x div k + 1) * k \<le> n * k"
    using assms by (intro mult_right_mono) auto
  then have "x div k * k + k \<le> n * k"
    by (simp add: distrib_right)
  then show "x < n * k"
    using assms div_mult_mod_eq [of x k] pos_mod_bound [of k x] by linarith
next
  assume "x < n * k"
  show "x div k < n"
  proof (rule ccontr)
    assume "\<not> x div k < n"
    then have "n * k \<le> x div k * k"
      using assms by (intro mult_right_mono) auto
    with \<open>x < n * k\<close> show False
      using assms div_mult_mod_eq [of x k] pos_mod_sign [of k x] by linarith
  qed
qed

lemma lex_mono:
  fixes a b :: int
  assumes "a * k + x < b * k + y" "0 \<le> x" "x < k" "0 \<le> y" "y < k"
  shows "a < b \<or> a = b \<and> x < y"
proof -
  have "a * k + x < (b + 1) * k" using assms by (simp add: algebra_simps)
  then have "a * k < (b + 1) * k" using assms by linarith
  then have "a \<le> b" using assms mult_less_cancel_right[of a k "b+1"] by linarith
  then show ?thesis using assms by (cases "a = b") auto
qed

lemma sat_sum [simp]:
  "min (min a m + b) m = min (a + b) (m :: nat)"
  "min (min a m + min b m) m = min (a + b) (m :: nat)"
  by (auto simp: min_def)

lemma mixed_radix_less:
  fixes a b k x y :: nat
  assumes "x < k" "y < k" "a * k + x < b * k + y"
  shows "a < b \<or> a = b \<and> x < y"
  using assms lex_mono [of "int a" "int k" "int x" "int b" "int y"] 
  by (simp flip: of_nat_mult of_nat_add)

lemma mixed_radix_eq:
  fixes a b k x y :: nat
  assumes "x < k" "y < k" "a * k + x = b * k + y"
  shows "a = b \<and> x = y"
proof -
  have "(a * k + x) div k = a" "(a * k + x) mod k = x" "(b * k + y) div k = b" "(b * k + y) mod k = y"
    using assms(1,2) by simp_all
  then show ?thesis using assms(3) by metis
qed

lemma digit_split:
  fixes a k x :: nat
  assumes "x < k"
  shows "(a * k + x) div k = a" and "(a * k + x) mod k = x"
  using assms by simp_all

lemma slot_window:
  fixes f g o1 o2 bs isz n :: nat
  assumes "isz * n \<le> bs" "o1 < n" "f < g"
  shows "f * bs + o1 * isz + isz \<le> g * bs + o2 * isz"
proof -
  have "(o1 + 1) * isz \<le> n * isz" using assms(2) by (intro mult_right_mono) auto
  then have "o1 * isz + isz \<le> bs" using assms(1) by (simp add: mult.commute)
  moreover have "(f + 1) * bs \<le> g * bs" using assms(3) by (intro mult_right_mono) auto
  ultimately show ?thesis by (simp add: distrib_right)
qed

section \<open>Bounds-checked slices\<close>

text \<open>
  \<open>data.get(a..b)\<close> is \<open>None\<close> when the range is inverted or runs past the end. \<open>data.get(a..)\<close> is
  \<open>None\<close> when \<open>a\<close> is past the end, and the empty slice when it is the end.
\<close>

definition get_range :: "'a list \<Rightarrow> nat \<Rightarrow> nat \<Rightarrow> 'a list option" where
  "get_range xs a b = (if a \<le> b \<and> b \<le> length xs then Some (take (b - a) (drop a xs)) else None)"

definition get_from :: "'a list \<Rightarrow> nat \<Rightarrow> 'a list option" where
  "get_from xs a = (if a \<le> length xs then Some (drop a xs) else None)"

definition get_at :: "'a list \<Rightarrow> nat \<Rightarrow> 'a option" where
  "get_at xs i = (if i < length xs then Some (xs ! i) else None)"

text \<open>\<open>Option::unwrap_or\<close> and \<open>Option::is_some_and\<close>.\<close>

definition unwrap_or :: "'a \<Rightarrow> 'a option \<Rightarrow> 'a" where
  "unwrap_or d x = (case x of None \<Rightarrow> d | Some v \<Rightarrow> v)"

definition is_some_and :: "('a \<Rightarrow> bool) \<Rightarrow> 'a option \<Rightarrow> bool" where
  "is_some_and p x = (case x of None \<Rightarrow> False | Some v \<Rightarrow> p v)"

lemma unwrap_or_simps [simp]: "unwrap_or d None = d" "unwrap_or d (Some v) = v"
  by (simp_all add: unwrap_or_def)

lemma is_some_and_simps [simp]: "is_some_and p None = False" "is_some_and p (Some v) = p v"
  by (simp_all add: is_some_and_def)

lemma get_range_Some_iff:
  "get_range xs a b = Some s \<longleftrightarrow> a \<le> b \<and> b \<le> length xs \<and> s = take (b - a) (drop a xs)"
  by (auto simp: get_range_def)

lemma get_range_eq_None_iff: "get_range xs a b = None \<longleftrightarrow> b < a \<or> length xs < b"
  by (auto simp: get_range_def)

lemma get_range_in [slice_simps]:
  "a \<le> b \<Longrightarrow> b \<le> length xs \<Longrightarrow> get_range xs a b = Some (take (b - a) (drop a xs))"
  by (simp add: get_range_def)

lemma get_range_length: "get_range xs a b = Some s \<Longrightarrow> length s = b - a"
  by (auto simp: get_range_def split: if_splits)

lemma get_range_whole [simp]: "get_range xs 0 (length xs) = Some xs"
  by (simp add: get_range_def)

text \<open>A slice is not changed by what follows it, and a slice of a concatenation is a part of it.\<close>

lemma get_range_append: "b \<le> length xs \<Longrightarrow> get_range (xs @ ys) a b = get_range xs a b"
  by (auto simp: get_range_def)

lemma get_range_drop:
  "get_range (drop n xs) a b = (if n \<le> length xs then get_range xs (n + a) (n + b)
     else get_range [] a b)"
  by (auto simp: get_range_def add.commute)

lemma get_range_shift: "get_range (p @ xs) (length p + a) (length p + b) = get_range xs a b"
  by (auto simp: get_range_def)

lemma get_range_mid:
  "n = length p \<Longrightarrow> m = n + length s \<Longrightarrow> get_range (p @ s @ q) n m = Some s"
  by (simp add: get_range_def)

lemma take_drop_mid: "n = length xs \<Longrightarrow> m = length ys \<Longrightarrow> take m (drop n (xs @ ys @ zs)) = ys"
  by simp

lemma get_range_take: "get_range (take n xs) a b = (if b \<le> n then get_range xs a b
     else if n < length xs then None else get_range xs a b)"
  by (auto simp: get_range_def take_drop min_def)

lemma get_from_append: "n \<le> length xs \<Longrightarrow> get_from (xs @ ys) n = Some (drop n xs @ ys)"
  by (simp add: get_from_def)

lemma get_at_append: "i < length xs \<Longrightarrow> get_at (xs @ ys) i = get_at xs i"
  by (simp add: get_at_def nth_append)

lemma get_at_shift: "get_at (p @ xs) (length p + i) = get_at xs i"
  by (simp add: get_at_def)

section \<open>Results\<close>

text \<open>\<open>is_ok\<close>, \<open>r?\<close> and \<open>r.map_err(f)\<close>.\<close>

definition is_ok :: "'e + 'a \<Rightarrow> bool" where
  "is_ok r = (case r of Inl _ \<Rightarrow> False | Inr _ \<Rightarrow> True)"

definition and_then :: "'e + 'a \<Rightarrow> ('a \<Rightarrow> 'e + 'b) \<Rightarrow> 'e + 'b" where
  "and_then r f = (case r of Inl e \<Rightarrow> Inl e | Inr x \<Rightarrow> f x)"

definition result_map_err :: "('e \<Rightarrow> 'f) \<Rightarrow> 'e + 'a \<Rightarrow> 'f + 'a" where
  "result_map_err f r = (case r of Inl e \<Rightarrow> Inl (f e) | Inr x \<Rightarrow> Inr x)"

lemma is_ok_simps [simp]: "is_ok (Inl e) = False" "is_ok (Inr x) = True"
  by (simp_all add: is_ok_def)

lemma is_ok_iff: "is_ok r \<longleftrightarrow> (\<exists>x. r = Inr x)"
  by (cases r) auto

lemma and_then_simps [simp]: "and_then (Inl e) f = Inl e" "and_then (Inr x) f = f x"
  by (simp_all add: and_then_def)

lemma and_then_Inr_iff: "and_then r f = Inr y \<longleftrightarrow> (\<exists>x. r = Inr x \<and> f x = Inr y)"
  by (cases r) auto

lemma and_then_Inl_iff: "and_then r f = Inl e \<longleftrightarrow> r = Inl e \<or> (\<exists>x. r = Inr x \<and> f x = Inl e)"
  by (cases r) auto

lemma result_map_err_simps [simp]:
  "result_map_err f (Inl e) = Inl (f e)" "result_map_err f (Inr x) = Inr x"
  by (simp_all add: result_map_err_def)

end
