(* ===== verification/Xfs_Bytes.thy ===== *)
theory Xfs_Bytes
  imports Prelude
begin

text \<open>
  The bounds-checked big-endian readers of \<open>core/src/bytes.rs\<close>: \<open>be_u16\<close>, \<open>be_u32\<close>, \<open>be_u64\<close>
  and \<open>u8_at\<close>. Every reader yields 0 outside the buffer.

  \<open>be_nat\<close> is the number a big-endian byte string denotes (\<open>from_be_bytes\<close> of the standard
  library), \<open>be_bytes\<close> the byte string of a number. The lemmas show that the readers are exact on
  the bytes in range, that they do not depend on anything outside the range they read, and that they
  undo \<open>be_bytes\<close> wherever it was stored. The end of each read range, \<open>off + n\<close>, is an unchecked
  addition in the code: \<open>be_read_strict\<close> is the same reader with overflow checks on, where that
  addition can panic, and the last lemmas say exactly when.
\<close>

section \<open>Big-endian numbers\<close>

definition be_nat :: "bytes \<Rightarrow> nat" where
  "be_nat bs = foldl (\<lambda>a b. a * 256 + unat b) 0 bs"

definition be_word :: "bytes \<Rightarrow> 'a::len word" where
  "be_word bs = word_of_nat (be_nat bs)"

definition le_nat :: "bytes \<Rightarrow> nat" where
  "le_nat bs = be_nat (rev bs)"

text \<open>\<open>u32::from_le_bytes\<close>, \<open>to_be_bytes\<close> and \<open>to_le_bytes\<close>.\<close>

definition le_word :: "bytes \<Rightarrow> 'a::len word" where
  "le_word bs = word_of_nat (le_nat bs)"

fun be_bytes :: "nat \<Rightarrow> nat \<Rightarrow> bytes" where
  "be_bytes 0 v = []"
| "be_bytes (Suc n) v = be_bytes n (v div 256) @ [word_of_nat (v mod 256)]"

lemma be_bytes_numeral:
  "be_bytes (numeral k) v = be_bytes (pred_numeral k) (v div 256) @ [word_of_nat (v mod 256)]"
  using be_bytes.simps(2) [of "pred_numeral k" v] by (simp only: numeral_eq_Suc [of k, symmetric])

definition le_bytes :: "nat \<Rightarrow> nat \<Rightarrow> bytes" where
  "le_bytes n v = rev (be_bytes n v)"

lemma be_nat_Nil [simp]: "be_nat [] = 0"
  by (simp add: be_nat_def)

lemma be_nat_snoc [simp]: "be_nat (bs @ [b]) = be_nat bs * 256 + unat b"
  by (simp add: be_nat_def)

lemma be_nat_append: "be_nat (xs @ ys) = be_nat xs * 256 ^ length ys + be_nat ys"
proof (induction ys rule: rev_induct)
  case (snoc y ys)
  then show ?case
    by (simp add: algebra_simps flip: append_assoc)
qed simp

lemma be_nat_Cons: "be_nat (b # bs) = unat b * 256 ^ length bs + be_nat bs"
  using be_nat_append [of "[b]" bs] by (simp add: be_nat_def)

lemma be_nat_less: "be_nat bs < 256 ^ length bs"
proof (induction bs rule: rev_induct)
  case (snoc b bs)
  have "unat b < 256" using unat_u8 [of b] by simp
  with snoc show ?case by simp
qed simp

lemma length_be_bytes [simp]: "length (be_bytes n v) = n"
  by (induction n v rule: be_bytes.induct) auto

lemma length_le_bytes [simp]: "length (le_bytes n v) = n"
  by (simp add: le_bytes_def)

lemma be_nat_be_bytes: "be_nat (be_bytes n v) = v mod 256 ^ n"
proof (induction n v rule: be_bytes.induct)
  case (2 n v)
  have "unat (word_of_nat (v mod 256) :: u8) = v mod 256"
    by (simp add: unat_of_nat)
  with 2 show ?case
    by (simp add: mod_mult2_eq mult.commute)
qed simp

lemma be_bytes_be_nat: "be_bytes (length bs) (be_nat bs) = bs"
proof (induction bs rule: rev_induct)
  case (snoc b bs)
  have "unat b < 256" using unat_u8 [of b] by simp
  with snoc show ?case by simp
qed simp

lemma le_nat_le_bytes: "le_nat (le_bytes n v) = v mod 256 ^ n"
  by (simp add: le_nat_def le_bytes_def be_nat_be_bytes)

lemma le_bytes_le_nat: "le_bytes (length bs) (le_nat bs) = bs"
  using be_bytes_be_nat [of "rev bs"] by (simp add: le_nat_def le_bytes_def)

lemma be_bytes_add: "be_bytes (k + m) v = be_bytes k (v div 256 ^ m) @ be_bytes m v"
  by (induction m arbitrary: v) (simp_all add: div_mult2_eq)

text \<open>A byte string no longer than the word is read without loss.\<close>

lemma unat_be_word:
  assumes "8 * length bs \<le> LENGTH('a::len)"
  shows "unat (be_word bs :: 'a word) = be_nat bs"
proof -
  have "256 ^ length bs = (2::nat) ^ (8 * length bs)"
    by (simp add: power_mult)
  also have "\<dots> \<le> 2 ^ LENGTH('a)"
    using assms by simp
  finally show ?thesis
    using be_nat_less [of bs] by (simp add: be_word_def unat_of_nat)
qed

lemma be_word_be_bytes:
  assumes "8 * n = LENGTH('a::len)"
  shows "be_word (be_bytes n (unat (w :: 'a word))) = w"
proof -
  have "(256::nat) ^ n = 2 ^ LENGTH('a)"
    by (simp add: power_mult flip: assms)
  then show ?thesis
    using unat_less_pow [of w] by (simp add: be_word_def be_nat_be_bytes)
qed

lemma le_word_le_bytes:
  assumes "8 * n = LENGTH('a::len)"
  shows "le_word (le_bytes n (unat (w :: 'a word))) = w"
  using be_word_be_bytes [OF assms, of w]
  by (simp add: le_word_def be_word_def le_nat_def le_bytes_def)

section \<open>The readers\<close>

definition be_u16 :: "bytes \<Rightarrow> nat \<Rightarrow> u16" where
  "be_u16 data off = be_word (case get_range data off (off + 2) of
     Some s \<Rightarrow> s | None \<Rightarrow> replicate 2 0)"

definition be_u32 :: "bytes \<Rightarrow> nat \<Rightarrow> u32" where
  "be_u32 data off = be_word (case get_range data off (off + 4) of
     Some s \<Rightarrow> s | None \<Rightarrow> replicate 4 0)"

definition be_u64 :: "bytes \<Rightarrow> nat \<Rightarrow> u64" where
  "be_u64 data off = be_word (case get_range data off (off + 8) of
     Some s \<Rightarrow> s | None \<Rightarrow> replicate 8 0)"

definition u8_at :: "bytes \<Rightarrow> nat \<Rightarrow> u8" where
  "u8_at data off = unwrap_or 0 (get_at data off)"

lemma be_nat_zeros [simp]: "be_nat (replicate n 0) = 0"
  by (induction n) (simp_all add: be_nat_Cons)

text \<open>The number a reader yields: that of the bytes in range, 0 otherwise.\<close>

definition be_at :: "nat \<Rightarrow> bytes \<Rightarrow> nat \<Rightarrow> nat" where
  "be_at n data off = (if off + n \<le> length data then be_nat (take n (drop off data)) else 0)"

lemma unat_be_u16: "unat (be_u16 data off) = be_at 2 data off"
  by (simp add: be_u16_def be_at_def get_range_def unat_be_word)

lemma unat_be_u32: "unat (be_u32 data off) = be_at 4 data off"
  by (simp add: be_u32_def be_at_def get_range_def unat_be_word)

lemma unat_be_u64: "unat (be_u64 data off) = be_at 8 data off"
  by (simp add: be_u64_def be_at_def get_range_def unat_be_word)

lemmas unat_be = unat_be_u16 unat_be_u32 unat_be_u64

lemma be_at_oob: "length data < off + n \<Longrightarrow> be_at n data off = 0"
  by (simp add: be_at_def)

lemma be_oob:
  "length data < off + 2 \<Longrightarrow> be_u16 data off = 0"
  "length data < off + 4 \<Longrightarrow> be_u32 data off = 0"
  "length data < off + 8 \<Longrightarrow> be_u64 data off = 0"
  by (simp_all add: be_u16_def be_u32_def be_u64_def get_range_def be_word_def)

lemma u8_at_nth: "off < length data \<Longrightarrow> u8_at data off = data ! off"
  by (simp add: u8_at_def get_at_def)

lemma u8_at_oob: "length data \<le> off \<Longrightarrow> u8_at data off = 0"
  by (simp add: u8_at_def get_at_def)

text \<open>The first four bytes as the parsers read a magic, and as a number.\<close>

lemma take_drop_u8: "k + n \<le> length d \<Longrightarrow> take n (drop k d) = map (\<lambda>j. u8_at d (k + j)) [0..<n]"
  by (intro nth_equalityI) (auto simp: u8_at_nth)

lemma magic_be_u32:
  assumes "4 \<le> length d"
  shows "be_word [u8_at d 0, u8_at d 1, u8_at d 2, u8_at d 3] = be_u32 d 0"
  using take_drop_u8 [of 0 4 d] assms by (simp add: be_u32_def get_range_def upt_rec numeral_eq_Suc)

text \<open>A reader depends on the bytes of its range only.\<close>

lemma be_append:
  "off + 2 \<le> length xs \<Longrightarrow> be_u16 (xs @ ys) off = be_u16 xs off"
  "off + 4 \<le> length xs \<Longrightarrow> be_u32 (xs @ ys) off = be_u32 xs off"
  "off + 8 \<le> length xs \<Longrightarrow> be_u64 (xs @ ys) off = be_u64 xs off"
  by (simp_all add: be_u16_def be_u32_def be_u64_def get_range_append)

lemma u8_at_append: "off < length xs \<Longrightarrow> u8_at (xs @ ys) off = u8_at xs off"
  by (simp add: u8_at_def get_at_append)

lemma be_shift:
  "be_u16 (p @ xs) (length p + k) = be_u16 xs k"
  "be_u32 (p @ xs) (length p + k) = be_u32 xs k"
  "be_u64 (p @ xs) (length p + k) = be_u64 xs k"
  using get_range_shift [of p xs k "k + 2"] get_range_shift [of p xs k "k + 4"]
    get_range_shift [of p xs k "k + 8"]
  by (simp_all add: be_u16_def be_u32_def be_u64_def add.assoc)

lemma u8_at_shift: "u8_at (p @ xs) (length p + k) = u8_at xs k"
  by (simp add: u8_at_def get_at_shift)

text \<open>Reading back a stored field.\<close>

lemma be_read_back:
  "be_u16 (be_bytes 2 (unat (a :: u16)) @ ys) 0 = a"
  "be_u32 (be_bytes 4 (unat (b :: u32)) @ ys) 0 = b"
  "be_u64 (be_bytes 8 (unat (c :: u64)) @ ys) 0 = c"
  by (simp_all add: be_u16_def be_u32_def be_u64_def get_range_def be_word_be_bytes)

lemma be_read_stored:
  assumes "off = length p"
  shows "be_u16 (p @ be_bytes 2 (unat (a :: u16)) @ q) off = a"
    and "be_u32 (p @ be_bytes 4 (unat (b :: u32)) @ q) off = b"
    and "be_u64 (p @ be_bytes 8 (unat (c :: u64)) @ q) off = c"
  using assms be_shift [of p _ 0] by (simp_all add: be_read_back)

section \<open>Bytes at a place\<close>

text \<open>The data holds the bytes \<open>s\<close> from offset \<open>off\<close> on.\<close>

definition bytes_at :: "bytes \<Rightarrow> nat \<Rightarrow> bytes \<Rightarrow> bool" where
  "bytes_at data off s \<longleftrightarrow> get_range data off (off + length s) = Some s"

lemma bytes_at_iff: "bytes_at data off s \<longleftrightarrow> off + length s \<le> length data \<and> take (length s) (drop off data) = s"
  by (auto simp: bytes_at_def get_range_def)

lemma bytes_at_split: "bytes_at data off s \<longleftrightarrow> (\<exists>p q. data = p @ s @ q \<and> length p = off)"
proof
  assume "bytes_at data off s"
  then have "data = take off data @ s @ drop (length s) (drop off data) \<and> length (take off data) = off"
    unfolding bytes_at_iff by (metis append_take_drop_id length_take min.absorb2 add_leD1)
  then show "\<exists>p q. data = p @ s @ q \<and> length p = off" by blast
qed (auto simp: bytes_at_iff)

lemma bytes_at_append:
  "bytes_at data off (s @ t) \<longleftrightarrow> bytes_at data off s \<and> bytes_at data (off + length s) t"
proof -
  have "take (length (s @ t)) (drop off data) = take (length s) (drop off data) @ take (length t) (drop (off + length s) data)"
    by (simp add: take_add add.commute)
  moreover have "length (take (length s) (drop off data)) = length s" if "off + length s \<le> length data"
    using that by simp
  ultimately show ?thesis
    by (auto simp: bytes_at_iff append_eq_append_conv)
qed

lemma bytes_at_range: "bytes_at data off s \<Longrightarrow> e = off + length s \<Longrightarrow> get_range data off e = Some s"
  by (simp add: bytes_at_def)

lemma bytes_at_u8: "bytes_at data off (b # s) \<Longrightarrow> u8_at data off = b"
  using u8_at_shift [of _ "b # _" 0] by (auto simp: bytes_at_split u8_at_nth)

lemma bytes_at_be:
  "bytes_at data off (be_bytes 2 (unat (a :: u16))) \<Longrightarrow> be_u16 data off = a"
  "bytes_at data off (be_bytes 4 (unat (b :: u32))) \<Longrightarrow> be_u32 data off = b"
  "bytes_at data off (be_bytes 8 (unat (c :: u64))) \<Longrightarrow> be_u64 data off = c"
  by (auto simp: bytes_at_split be_read_stored simp del: be_bytes.simps)

lemma bytes_at_be_u16: "off + 2 \<le> length data \<Longrightarrow> bytes_at data off (be_bytes 2 (unat (be_u16 data off)))"
  using be_bytes_be_nat [of "take 2 (drop off data)"]
  by (simp add: bytes_at_iff be_u16_def get_range_def unat_be_word)

lemma bytes_at_be_nat:
  "bytes_at data off (be_bytes 2 n) \<Longrightarrow> n < 2 ^ 16 \<Longrightarrow> unat (be_u16 data off) = n"
  "bytes_at data off (be_bytes 4 n) \<Longrightarrow> n < 2 ^ 32 \<Longrightarrow> unat (be_u32 data off) = n"
  using bytes_at_be(1) [of data off "word_of_nat n"] bytes_at_be(2) [of data off "word_of_nat n"]
  by (simp_all add: unat_of_nat del: be_bytes.simps)

text \<open>Through a slice, and through a suffix.\<close>

lemma bytes_at_slice: "get_range data a b = Some w \<Longrightarrow> bytes_at w k s \<Longrightarrow> bytes_at data (a + k) s"
  by (auto simp: bytes_at_iff get_range_Some_iff drop_take add.commute split: if_splits)

lemma bytes_at_shift: "bytes_at (p @ d) (length p + k) s \<longleftrightarrow> bytes_at d k s"
  by (auto simp: bytes_at_iff add.commute)

lemma bytes_at_extend: "bytes_at d k s \<Longrightarrow> bytes_at (d @ e) k s"
  by (auto simp: bytes_at_iff)

section \<open>The readers with overflow checks\<close>

text \<open>
  \<open>data.get(off..off + n)\<close> with overflow checks: \<open>None\<close> stands for the panic of \<open>off + n\<close>.
\<close>

definition be_read_strict :: "nat \<Rightarrow> bytes \<Rightarrow> nat \<Rightarrow> nat option" where
  "be_read_strict n data off = (case uchecked_add off n of
     None \<Rightarrow> None
   | Some e \<Rightarrow> Some (case get_range data off e of Some s \<Rightarrow> be_nat s | None \<Rightarrow> 0))"

lemma be_read_strict_eq:
  "be_read_strict n data off = (if off + n \<le> USIZE_MAX then Some (be_at n data off) else None)"
  by (simp add: be_read_strict_def be_at_def uchecked_add_def get_range_def)

end
