(* ===== verification/Xfs_Error.thy ===== *)
theory Xfs_Error
  imports Xfs_Bytes
begin

text \<open>
  The error values of \<open>core/src/error.rs\<close>, the formatting the error messages are built with, and
  the contract that every on-disk header parser of the reader keeps (locale \<open>header_parser\<close>):
  identity is checked before length, a short buffer is reported with the length needed and the
  length found, and everything else parses.
\<close>

section \<open>Errors\<close>

text \<open>
  A \<open>&'static str\<close> or a formatted \<open>String\<close> is a \<open>string\<close>. A path is its UTF-8 bytes.
\<close>

datatype xfs_error =
    UnsupportedAttrFork u8 string
  | Truncated string nat nat
  | BadMagic u32 bytes
  | UnsupportedDir string
  | PathNotFound bytes bytes

type_synonym 'a xfs_result = "xfs_error + 'a"

section \<open>Formatting\<close>

text \<open>\<open>{}\<close> of an unsigned integer, \<open>{:02x}\<close> and \<open>{:#010x}\<close>, and \<open>{:02x?}\<close> of a byte slice.\<close>

definition digit_char :: "nat \<Rightarrow> char" where
  "digit_char d = (if d < 10 then char_of (48 + d) else char_of (87 + d))"

fun dec_digits :: "nat \<Rightarrow> string" where
  "dec_digits n = (if n < 10 then [digit_char n] else dec_digits (n div 10) @ [digit_char (n mod 10)])"

declare dec_digits.simps [simp del]

fun hex_digits :: "nat \<Rightarrow> nat \<Rightarrow> string" where
  "hex_digits 0 v = []"
| "hex_digits (Suc n) v = hex_digits n (v div 16) @ [digit_char (v mod 16)]"

definition hex_u32 :: "u32 \<Rightarrow> string" where
  "hex_u32 v = ''0x'' @ hex_digits 8 (unat v)"

fun sep_concat :: "string \<Rightarrow> string list \<Rightarrow> string" where
  "sep_concat sep [] = []"
| "sep_concat sep [x] = x"
| "sep_concat sep (x # xs) = x @ sep @ sep_concat sep xs"

definition hex_bytes :: "bytes \<Rightarrow> string" where
  "hex_bytes bs = ''['' @ sep_concat '', '' (map (\<lambda>b. hex_digits 2 (unat b)) bs) @ '']''"

text \<open>
  \<open>Display\<close> of an error (\<open>thiserror\<close>'s \<open>#[error(...)]\<close> attributes). The quoting of a path
  (\<open>{:?}\<close> of a \<open>String\<close>) is the argument \<open>dbg\<close>.
\<close>

fun error_display :: "(bytes \<Rightarrow> string) \<Rightarrow> xfs_error \<Rightarrow> string" where
  "error_display dbg (UnsupportedAttrFork aformat detail) =
     ''unsupported attribute fork: '' @ detail @ '' (di_aformat = '' @ dec_digits (unat aformat) @ '')''"
| "error_display dbg (Truncated structure need have) =
     ''buffer too small for '' @ structure @ '': need '' @ dec_digits need @ '' bytes, have '' @ dec_digits have"
| "error_display dbg (BadMagic found bytes) =
     ''bad superblock magic: found '' @ hex_u32 found @ '' (bytes '' @ hex_bytes bytes
       @ ''), expected 0x58465342 (\"XFSB\")''"
| "error_display dbg (UnsupportedDir detail) = ''unsupported directory: '' @ detail"
| "error_display dbg (PathNotFound path component) =
     ''path not found: component '' @ dbg component @ '' of '' @ dbg path @ '' did not resolve''"

lemma length_hex_digits [simp]: "length (hex_digits n v) = n"
  by (induction n v rule: hex_digits.induct) auto

section \<open>The contract of a header parser\<close>

text \<open>
  \<open>magic_ok\<close> is the identity check, \<open>need\<close> the length the structure needs (for an inode it depends on
  the version byte), \<open>what\<close> its name in the error.
\<close>

locale header_parser =
  fixes parse :: "bytes \<Rightarrow> 'h xfs_result"
    and magic_ok :: "bytes \<Rightarrow> bool"
    and need :: "bytes \<Rightarrow> nat"
    and what :: string
  assumes bad_magic: "\<not> magic_ok data \<Longrightarrow> \<exists>found bs. parse data = Inl (BadMagic found bs) \<and> length bs = 4"
    and truncated: "magic_ok data \<Longrightarrow> length data < need data \<Longrightarrow>
      parse data = Inl (Truncated what (need data) (length data))"
    and parsed: "magic_ok data \<Longrightarrow> need data \<le> length data \<Longrightarrow> \<exists>h. parse data = Inr h"
begin

lemma ok_iff: "is_ok (parse data) \<longleftrightarrow> magic_ok data \<and> need data \<le> length data"
  using bad_magic [of data] truncated [of data] parsed [of data] by (fastforce simp: is_ok_iff)

lemma Inr_D: "parse data = Inr h \<Longrightarrow> magic_ok data \<and> need data \<le> length data"
  using ok_iff [of data] by simp

text \<open>The parser is total on byte strings and has two errors only.\<close>

lemma outcome:
  "(\<exists>h. parse data = Inr h \<and> magic_ok data \<and> need data \<le> length data)
   \<or> parse data = Inl (Truncated what (need data) (length data)) \<and> magic_ok data
       \<and> length data < need data
   \<or> (\<exists>found bs. parse data = Inl (BadMagic found bs) \<and> \<not> magic_ok data)"
proof (cases "magic_ok data")
  case True
  then show ?thesis
    using truncated parsed by (cases "length data < need data") (auto simp: not_less)
next
  case False
  then show ?thesis using bad_magic by blast
qed

lemma Truncated_D:
  "parse data = Inl (Truncated s n h) \<Longrightarrow>
     s = what \<and> n = need data \<and> h = length data \<and> length data < need data \<and> magic_ok data"
  using outcome [of data] by auto

lemma BadMagic_iff: "(\<exists>found bs. parse data = Inl (BadMagic found bs)) \<longleftrightarrow> \<not> magic_ok data"
  using outcome [of data] by auto

end

end
