(* ===== verification/Xfs_Crc.thy ===== *)
theory Xfs_Crc
  imports Xfs_Error
begin

text \<open>
  The v5 checksum verification of \<open>core/src/crc.rs\<close>. The CRC32c itself comes from the \<open>crc\<close> crate
  (\<open>crc::Crc::<u32>::new(&CRC_32_ISCSI).checksum\<close>), which is not part of the repository: it is the
  argument \<open>crcf\<close> of every definition that uses it.

  The lemmas show what \<open>verify_crc\<close> decides whatever \<open>crcf\<close> is (a block stamped with its checksum
  verifies, the stored field does not influence the sum, a buffer without room for the field fails),
  and that a checksum that detects the change of one byte makes \<open>verify_crc\<close> report every such
  change. Locale \<open>checked_header\<close> is the contract of a parser that fills a \<open>crc_valid\<close> field.
\<close>

section \<open>Offsets of the checksum field\<close>

definition SB_CRC_OFF :: nat where "SB_CRC_OFF = 224"
definition AGF_CRC_OFF :: nat where "AGF_CRC_OFF = 216"
definition AGI_CRC_OFF :: nat where "AGI_CRC_OFF = 312"
definition AGFL_CRC_OFF :: nat where "AGFL_CRC_OFF = 32"
definition DINODE_CRC_OFF :: nat where "DINODE_CRC_OFF = 100"
definition DIR3_DATA_CRC_OFF :: nat where "DIR3_DATA_CRC_OFF = 4"
definition DA3_BLKINFO_CRC_OFF :: nat where "DA3_BLKINFO_CRC_OFF = 12"
definition BMBT_CRC_OFF :: nat where "BMBT_CRC_OFF = 64"

lemmas crc_offs = SB_CRC_OFF_def AGF_CRC_OFF_def AGI_CRC_OFF_def AGFL_CRC_OFF_def
  DINODE_CRC_OFF_def DIR3_DATA_CRC_OFF_def DA3_BLKINFO_CRC_OFF_def BMBT_CRC_OFF_def

section \<open>Overwriting a range\<close>

text \<open>\<open>overwrite xs a s\<close> is \<open>xs[a..a + s.len()].copy_from_slice(s)\<close>, for a range inside \<open>xs\<close>.\<close>

definition overwrite :: "'a list \<Rightarrow> nat \<Rightarrow> 'a list \<Rightarrow> 'a list" where
  "overwrite xs a s = take a xs @ s @ drop (a + length s) xs"

lemma length_overwrite [simp]: "a + length s \<le> length xs \<Longrightarrow> length (overwrite xs a s) = length xs"
  by (simp add: overwrite_def)

lemma overwrite_nth:
  assumes "a + length s \<le> length xs" and "i < length xs"
  shows "overwrite xs a s ! i = (if a \<le> i \<and> i < a + length s then s ! (i - a) else xs ! i)"
  using assms by (auto simp: overwrite_def nth_append min_def)

lemma overwrite_overwrite:
  "length s = length t \<Longrightarrow> a + length s \<le> length xs \<Longrightarrow> overwrite (overwrite xs a s) a t = overwrite xs a t"
  by (simp add: overwrite_def)

lemma get_range_overwrite_same:
  "a + length s \<le> length xs \<Longrightarrow> get_range (overwrite xs a s) a (a + length s) = Some s"
  by (simp add: overwrite_def get_range_def)

lemma get_range_overwrite_other:
  assumes "a + length s \<le> length xs" and "j \<le> a \<or> a + length s \<le> i"
  shows "get_range (overwrite xs a s) i j = get_range xs i j"
proof (cases "i \<le> j \<and> j \<le> length xs")
  case True
  then have "take (j - i) (drop i (overwrite xs a s)) = take (j - i) (drop i xs)"
    using assms by (intro nth_equalityI) (auto simp: overwrite_nth)
  with True assms show ?thesis by (simp add: get_range_def)
qed (use assms in \<open>auto simp: get_range_def\<close>)

lemma get_at_overwrite_other:
  "a + length s \<le> length xs \<Longrightarrow> i < a \<or> a + length s \<le> i \<Longrightarrow>
     get_at (overwrite xs a s) i = get_at xs i"
  by (auto simp: get_at_def overwrite_nth)

lemma be_overwrite_other:
  assumes "a + length s \<le> length xs"
  shows "k + 2 \<le> a \<or> a + length s \<le> k \<Longrightarrow> be_u16 (overwrite xs a s) k = be_u16 xs k"
    and "k + 4 \<le> a \<or> a + length s \<le> k \<Longrightarrow> be_u32 (overwrite xs a s) k = be_u32 xs k"
    and "k + 8 \<le> a \<or> a + length s \<le> k \<Longrightarrow> be_u64 (overwrite xs a s) k = be_u64 xs k"
  using assms by (simp_all add: be_u16_def be_u32_def be_u64_def get_range_overwrite_other)

lemma u8_at_overwrite_other:
  "a + length s \<le> length xs \<Longrightarrow> k < a \<or> a + length s \<le> k \<Longrightarrow> u8_at (overwrite xs a s) k = u8_at xs k"
  by (simp add: u8_at_def get_at_overwrite_other)

section \<open>Verification\<close>

definition verify_crc :: "(bytes \<Rightarrow> u32) \<Rightarrow> bytes \<Rightarrow> nat \<Rightarrow> bool" where
  "verify_crc crcf buffer crc_offset = (case uchecked_add crc_offset 4 of
     None \<Rightarrow> False
   | Some end' \<Rightarrow> (case get_range buffer crc_offset end' of
       None \<Rightarrow> False
     | Some stored_bytes \<Rightarrow>
         let stored = le_word stored_bytes;
             scratch = overwrite buffer crc_offset (replicate 4 0);
             computed = crcf scratch
         in computed = stored))"

definition crc_status :: "(bytes \<Rightarrow> u32) \<Rightarrow> bool \<Rightarrow> bytes \<Rightarrow> nat \<Rightarrow> bool option" where
  "crc_status crcf is_v5 buffer crc_offset =
     (if is_v5 then Some (verify_crc crcf buffer crc_offset) else None)"

text \<open>The writer's side: zero the field, sum, store the sum little-endian.\<close>

definition stamp_crc :: "(bytes \<Rightarrow> u32) \<Rightarrow> bytes \<Rightarrow> nat \<Rightarrow> bytes" where
  "stamp_crc crcf buffer off =
     overwrite buffer off (le_bytes 4 (unat (crcf (overwrite buffer off (replicate 4 0)))))"

lemma verify_crc_iff:
  "verify_crc crcf buffer off \<longleftrightarrow>
     off + 4 \<le> USIZE_MAX \<and> off + 4 \<le> length buffer \<and>
     crcf (overwrite buffer off (replicate 4 0)) = le_word (take 4 (drop off buffer))"
  by (simp add: verify_crc_def uchecked_add_def get_range_def Let_def)

lemma length_stamp_crc [simp]: "off + 4 \<le> length b \<Longrightarrow> length (stamp_crc crcf b off) = length b"
  by (simp add: stamp_crc_def)

lemma verify_stamp_crc:
  assumes "off + 4 \<le> length buffer" and "length buffer \<le> USIZE_MAX"
  shows "verify_crc crcf (stamp_crc crcf buffer off) off"
proof -
  let ?z = "overwrite buffer off (replicate 4 0)"
  let ?s = "le_bytes 4 (unat (crcf ?z))"
  have "overwrite (stamp_crc crcf buffer off) off (replicate 4 0) = ?z"
    using assms(1) by (simp add: stamp_crc_def overwrite_overwrite)
  moreover have "take 4 (drop off (stamp_crc crcf buffer off)) = ?s"
    using assms(1) get_range_overwrite_same [of off ?s buffer]
    by (simp add: stamp_crc_def get_range_def)
  ultimately show ?thesis
    using assms by (simp add: verify_crc_iff le_word_le_bytes)
qed

text \<open>
  A checksum that distinguishes any two byte strings that differ in exactly one byte, as every CRC
  does: the documented behaviour of the \<open>crc\<close> crate the detection lemmas rely on.
\<close>

definition detects_byte_change :: "(bytes \<Rightarrow> u32) \<Rightarrow> bool" where
  "detects_byte_change crcf \<longleftrightarrow>
     (\<forall>xs i b. i < length xs \<longrightarrow> xs ! i \<noteq> b \<longrightarrow> crcf (xs[i := b]) \<noteq> crcf xs)"

lemma overwrite_list_update:
  "i < off \<or> off + length s \<le> i \<Longrightarrow> off + length s \<le> length xs \<Longrightarrow>
     overwrite (xs[i := b]) off s = (overwrite xs off s)[i := b]"
  by (cases "i < length xs") (auto intro!: nth_equalityI simp: overwrite_nth nth_list_update)

lemma take_drop_list_update_other:
  "i < off \<or> off + n \<le> i \<Longrightarrow> take n (drop off (xs[i := b])) = take n (drop off xs)"
  by (auto simp: drop_update_swap take_update_swap list_update_beyond)

lemma verify_crc_detects:
  assumes "detects_byte_change crcf" and "verify_crc crcf buffer off"
    and "i < length buffer" and "i < off \<or> off + 4 \<le> i" and "buffer ! i \<noteq> b"
  shows "\<not> verify_crc crcf (buffer[i := b]) off"
proof -
  let ?z = "overwrite buffer off (replicate 4 0)"
  have len: "off + 4 \<le> length buffer" and sum: "crcf ?z = le_word (take 4 (drop off buffer))"
    using assms(2) by (simp_all add: verify_crc_iff)
  have "?z ! i = buffer ! i"
    using assms(3,4) len by (auto simp: overwrite_nth)
  then have "crcf (?z[i := b]) \<noteq> crcf ?z"
    using assms(1,3,5) len unfolding detects_byte_change_def by (metis length_overwrite length_replicate)
  moreover have "overwrite (buffer[i := b]) off (replicate 4 0) = ?z[i := b]"
    using assms(4) len by (simp add: overwrite_list_update)
  moreover have "take 4 (drop off (buffer[i := b])) = take 4 (drop off buffer)"
    using assms(4) by (rule take_drop_list_update_other)
  ultimately show ?thesis
    using sum by (simp add: verify_crc_iff)
qed

section \<open>The contract of a parser with a checksum field\<close>

text \<open>
  \<open>crc_of\<close> reads the status the parser stored, \<open>v5\<close> says whether the structure carries a checksum,
  \<open>off\<close> is the offset of the checksum field. The frame laws say that the checksum field holds neither
  the magic nor the version: rewriting it changes no decision of the parser.
\<close>

locale checked_header = header_parser parse magic_ok need what
  for parse :: "bytes \<Rightarrow> 'h xfs_result" and magic_ok :: "bytes \<Rightarrow> bool"
    and need :: "bytes \<Rightarrow> nat" and what :: string +
  fixes crcf :: "bytes \<Rightarrow> u32"
    and crc_of :: "'h \<Rightarrow> bool option"
    and v5 :: "bytes \<Rightarrow> bool"
    and off :: nat
  assumes crc_of_parse: "parse data = Inr h \<Longrightarrow> crc_of h = crc_status crcf (v5 data) data off"
    and frame_magic: "off + length s \<le> length data \<Longrightarrow> magic_ok (overwrite data off s) = magic_ok data"
    and frame_need: "off + length s \<le> length data \<Longrightarrow> need (overwrite data off s) = need data"
    and frame_v5: "off + length s \<le> length data \<Longrightarrow> v5 (overwrite data off s) = v5 data"
begin

text \<open>Verification is not fatal: what is stored in the field never decides whether the parse succeeds.\<close>

lemma nonfatal:
  "off + length s \<le> length data \<Longrightarrow> is_ok (parse (overwrite data off s)) = is_ok (parse data)"
  by (simp add: ok_iff frame_magic frame_need)

lemma v4_no_claim: "parse data = Inr h \<Longrightarrow> \<not> v5 data \<Longrightarrow> crc_of h = None"
  by (simp add: crc_of_parse crc_status_def)

lemma v5_claim: "parse data = Inr h \<Longrightarrow> v5 data \<Longrightarrow> crc_of h = Some (verify_crc crcf data off)"
  by (simp add: crc_of_parse crc_status_def)

text \<open>The parse of a whole structure that carries a checksum: its identity decides, the verdict is recorded.\<close>

lemma verdict:
  assumes "v5 data" and "need data \<le> length data"
  shows "if magic_ok data then \<exists>h. parse data = Inr h \<and> crc_of h = Some (verify_crc crcf data off)
    else \<exists>e. parse data = Inl e"
  using parsed [of data] bad_magic [of data] v5_claim [of data] assms by auto

lemma short_fails: "parse data = Inr h \<Longrightarrow> v5 data \<Longrightarrow> length data < off + 4 \<Longrightarrow> crc_of h = Some False"
  by (simp add: v5_claim verify_crc_iff)

lemma stamped_valid:
  assumes "is_ok (parse data)" and "v5 data" and "off + 4 \<le> length data" and "length data \<le> USIZE_MAX"
  shows "\<exists>h. parse (stamp_crc crcf data off) = Inr h \<and> crc_of h = Some True"
proof -
  have "is_ok (parse (stamp_crc crcf data off))" and v: "v5 (stamp_crc crcf data off)"
    using assms by (simp_all add: stamp_crc_def nonfatal frame_v5)
  then obtain h where h: "parse (stamp_crc crcf data off) = Inr h"
    by (auto simp: is_ok_iff)
  with v assms(3,4) have "crc_of h = Some True"
    by (simp add: v5_claim verify_stamp_crc)
  with h show ?thesis by blast
qed

lemma tamper_detected:
  assumes "detects_byte_change crcf"
    and "parse data = Inr h" and "v5 data" and "crc_of h = Some True"
    and "i < length data" and "i < off \<or> off + 4 \<le> i" and "data ! i \<noteq> b"
    and "parse (data[i := b]) = Inr h'" and "v5 (data[i := b])"
  shows "crc_of h' = Some False"
  using assms verify_crc_detects [of crcf data off i b] by (simp add: v5_claim)

end

end
