(* ===== verification/Xfs_Inode.thy ===== *)
theory Xfs_Inode
  imports Xfs_Crc
begin

text \<open>
  The inode core of \<open>core/src/inode.rs\<close>: format selector, file type, timestamps with their two
  encodings, the parsed inode and \<open>Inode::parse\<close>.

  The lemmas show that a parse has exactly the outcomes of locale \<open>header_parser\<close>, which bytes the
  extent counters come from under NREXT64, that both timestamp encodings are decoded exactly (they
  undo the encoding and keep the chronological order) and what range the results have.
\<close>

section \<open>Constants\<close>

definition XFS_DINODE_MAGIC :: u16 where "XFS_DINODE_MAGIC = 0x494e"
definition XFS_DIFLAG2_BIGTIME :: u64 where "XFS_DIFLAG2_BIGTIME = push_bit 3 1"
definition XFS_BIGTIME_EPOCH_OFFSET :: int where "XFS_BIGTIME_EPOCH_OFFSET = 2 ^ 31"
definition NSEC_PER_SEC :: u64 where "NSEC_PER_SEC = 1000000000"
definition V2_LITINO_OFFSET :: nat where "V2_LITINO_OFFSET = 100"
definition V3_LITINO_OFFSET :: nat where "V3_LITINO_OFFSET = 176"
definition V2_MIN_LEN :: nat where "V2_MIN_LEN = V2_LITINO_OFFSET"
definition V3_MIN_LEN :: nat where "V3_MIN_LEN = V3_LITINO_OFFSET"

lemmas litino_defs = V2_LITINO_OFFSET_def V3_LITINO_OFFSET_def V2_MIN_LEN_def V3_MIN_LEN_def

text \<open>The type bits of a mode (octal in the source).\<close>

definition S_IFMT :: u16 where "S_IFMT = 0xF000"
definition S_IFIFO :: u16 where "S_IFIFO = 0x1000"
definition S_IFCHR :: u16 where "S_IFCHR = 0x2000"
definition S_IFDIR :: u16 where "S_IFDIR = 0x4000"
definition S_IFBLK :: u16 where "S_IFBLK = 0x6000"
definition S_IFREG :: u16 where "S_IFREG = 0x8000"
definition S_IFLNK :: u16 where "S_IFLNK = 0xA000"
definition S_IFSOCK :: u16 where "S_IFSOCK = 0xC000"

lemmas s_if_defs = S_IFMT_def S_IFIFO_def S_IFCHR_def S_IFDIR_def S_IFBLK_def S_IFREG_def
  S_IFLNK_def S_IFSOCK_def

section \<open>Format selector and file type\<close>

datatype inode_format = Dev | Local | Extents | Btree | OtherFormat u8

definition format_from_raw :: "u8 \<Rightarrow> inode_format" where
  "format_from_raw v =
     (if v = 0 then Dev else if v = 1 then Local else if v = 2 then Extents
      else if v = 3 then Btree else OtherFormat v)"

datatype file_type =
    Fifo | CharDevice | Directory | BlockDevice | Regular | Symlink | Socket | OtherType u16

definition file_type_from_mode :: "u16 \<Rightarrow> file_type" where
  "file_type_from_mode mode = (let t = mode AND S_IFMT in
     if t = S_IFIFO then Fifo else if t = S_IFCHR then CharDevice
     else if t = S_IFDIR then Directory else if t = S_IFBLK then BlockDevice
     else if t = S_IFREG then Regular else if t = S_IFLNK then Symlink
     else if t = S_IFSOCK then Socket else OtherType t)"

section \<open>Timestamps\<close>

text \<open>\<open>secs\<close> is an \<open>i64\<close> of the code: every value computed below lies far inside its range.\<close>

record xfs_timestamp =
  secs :: int
  nsecs :: u32

definition from_legacy :: "u64 \<Rightarrow> xfs_timestamp" where
  "from_legacy raw =
     \<lparr>secs = sint (ucast (drop_bit 32 raw) :: 32 word), nsecs = ucast (raw AND 0xffffffff)\<rparr>"

definition from_bigtime :: "u64 \<Rightarrow> xfs_timestamp" where
  "from_bigtime raw =
     (let ondisk_secs = raw div NSEC_PER_SEC; ns = ucast (raw mod NSEC_PER_SEC)
      in \<lparr>secs = sint ondisk_secs - XFS_BIGTIME_EPOCH_OFFSET, nsecs = ns\<rparr>)"

definition timestamp_decode :: "u64 \<Rightarrow> bool \<Rightarrow> xfs_timestamp" where
  "timestamp_decode raw bigtime = (if bigtime then from_bigtime raw else from_legacy raw)"

section \<open>The inode\<close>

record inode =
  di_magic :: u16
  di_mode :: u16
  di_version :: u8
  di_format :: inode_format
  di_aformat :: u8
  di_size :: u64
  di_nblocks :: u64
  di_nextents :: u64
  di_aextents :: u32
  di_forkoff :: u8
  di_atime :: xfs_timestamp
  di_mtime :: xfs_timestamp
  di_ctime :: xfs_timestamp
  di_crtime :: "xfs_timestamp option"
  di_flags2 :: "u64 option"
  di_cowextsize :: "u32 option"
  di_ino :: "u64 option"
  di_uuid :: "bytes option"
  di_crc :: "u32 option"
  di_crc_valid :: "bool option"
  di_data_fork :: bytes

definition inode_parse :: "(bytes \<Rightarrow> u32) \<Rightarrow> bytes \<Rightarrow> bool \<Rightarrow> inode xfs_result" where
  "inode_parse crcf data nrext64 =
    (let magic = be_u16 data 0 in
     if magic \<noteq> XFS_DINODE_MAGIC then
       Inl (BadMagic (ucast magic) [0, 0, u8_at data 0, u8_at data 1])
     else
       let version = u8_at data 4;
           is_v3 = (3 \<le> version);
           need = (if is_v3 then V3_MIN_LEN else V2_MIN_LEN)
       in if length data < need then Inl (Truncated ''inode core'' need (length data))
       else
         let flags2 = (if is_v3 then Some (be_u64 data 120) else None);
             bigtime = is_some_and (\<lambda>f. f AND XFS_DIFLAG2_BIGTIME \<noteq> 0) flags2;
             atime = timestamp_decode (be_u64 data 32) bigtime;
             mtime = timestamp_decode (be_u64 data 40) bigtime;
             ctime = timestamp_decode (be_u64 data 48) bigtime;
             (crtime, cowextsize, ino, uuid, crc) =
               (if is_v3 then
                  (Some (timestamp_decode (be_u64 data 144) bigtime),
                   Some (be_u32 data 128),
                   Some (be_u64 data 152),
                   Some (unwrap_or (replicate 16 0) (get_range data 160 176)),
                   Some (le_word [u8_at data 100, u8_at data 101, u8_at data 102, u8_at data 103]))
                else (None, None, None, None, None));
             fork_off = (if is_v3 then V3_LITINO_OFFSET else V2_LITINO_OFFSET);
             data_fork = unwrap_or [] (get_from data fork_off);
             crc_valid = crc_status crcf is_v3 data DINODE_CRC_OFF;
             (nextents, aextents) =
               (if nrext64 then (be_u64 data 24, be_u32 data 76)
                else (ucast (be_u32 data 76), ucast (be_u16 data 80)))
         in Inr \<lparr>di_magic = magic, di_mode = be_u16 data 2, di_version = version,
              di_format = format_from_raw (u8_at data 5), di_aformat = u8_at data 83,
              di_size = be_u64 data 56, di_nblocks = be_u64 data 64,
              di_nextents = nextents, di_aextents = aextents, di_forkoff = u8_at data 82,
              di_atime = atime, di_mtime = mtime, di_ctime = ctime, di_crtime = crtime,
              di_flags2 = flags2, di_cowextsize = cowextsize, di_ino = ino, di_uuid = uuid,
              di_crc = crc, di_crc_valid = crc_valid, di_data_fork = data_fork\<rparr>)"

definition inode_file_type :: "inode \<Rightarrow> file_type" where
  "inode_file_type inode = file_type_from_mode (di_mode inode)"

definition inode_is_dir :: "inode \<Rightarrow> bool" where
  "inode_is_dir inode \<longleftrightarrow> inode_file_type inode = Directory"

definition inode_is_reg :: "inode \<Rightarrow> bool" where
  "inode_is_reg inode \<longleftrightarrow> inode_file_type inode = Regular"

definition inode_is_bigtime :: "inode \<Rightarrow> bool" where
  "inode_is_bigtime inode \<longleftrightarrow> is_some_and (\<lambda>f. f AND XFS_DIFLAG2_BIGTIME \<noteq> 0) (di_flags2 inode)"

definition inode_data_fork_offset :: "inode \<Rightarrow> nat" where
  "inode_data_fork_offset inode =
     (if 3 \<le> di_version inode then V3_LITINO_OFFSET else V2_LITINO_OFFSET)"

section \<open>Timestamps: exactness and order\<close>

text \<open>
  The point in time a timestamp denotes, in nanoseconds from the epoch. The code does not compare
  timestamps; the order below, by seconds and then by nanoseconds, is that of the points in time where the
  nanoseconds are below a second.
\<close>

definition instant :: "xfs_timestamp \<Rightarrow> int" where
  "instant t = secs t * 1000000000 + uint (nsecs t)"

instantiation xfs_timestamp_ext :: (linorder) linorder
begin

definition less_eq_xfs_timestamp_ext :: "'a xfs_timestamp_scheme \<Rightarrow> 'a xfs_timestamp_scheme \<Rightarrow> bool" where
  "less_eq_xfs_timestamp_ext s t \<longleftrightarrow> secs s < secs t \<or> secs s = secs t \<and>
     (nsecs s < nsecs t \<or> nsecs s = nsecs t \<and> xfs_timestamp.more s \<le> xfs_timestamp.more t)"

definition less_xfs_timestamp_ext :: "'a xfs_timestamp_scheme \<Rightarrow> 'a xfs_timestamp_scheme \<Rightarrow> bool" where
  "less_xfs_timestamp_ext s t \<longleftrightarrow> secs s < secs t \<or> secs s = secs t \<and>
     (nsecs s < nsecs t \<or> nsecs s = nsecs t \<and> xfs_timestamp.more s < xfs_timestamp.more t)"

instance
  by standard (auto simp: less_eq_xfs_timestamp_ext_def less_xfs_timestamp_ext_def)

end

lemma bigtime_exact:
  "uint raw = (secs (from_bigtime raw) + 2 ^ 31) * 1000000000 + uint (nsecs (from_bigtime raw))"
  "uint (nsecs (from_bigtime raw)) < 1000000000"
  "- (2 ^ 31) \<le> secs (from_bigtime raw)" "secs (from_bigtime raw) \<le> 16299260425"
proof -
  have "uint raw < 2 ^ 64" using uint_lt2p [of raw] by simp
  then have c: "uint raw div 1000000000 \<le> 18446744073" by simp
  have c0: "0 \<le> uint raw div 1000000000" by (simp add: pos_imp_zdiv_nonneg_iff)
  have d: "sint (raw div NSEC_PER_SEC) = uint raw div 1000000000"
    using c by (simp add: sint_cases NSEC_PER_SEC_def uint_div)
  have e: "uint (ucast (raw mod NSEC_PER_SEC) :: u32) = uint raw mod 1000000000"
    by (simp add: unsigned_ucast_eq take_bit_eq_mod NSEC_PER_SEC_def uint_mod)
  show "uint raw = (secs (from_bigtime raw) + 2 ^ 31) * 1000000000 + uint (nsecs (from_bigtime raw))"
    "uint (nsecs (from_bigtime raw)) < 1000000000"
    "- (2 ^ 31) \<le> secs (from_bigtime raw)" "secs (from_bigtime raw) \<le> 16299260425"
    using c c0 d e by (simp_all add: from_bigtime_def XFS_BIGTIME_EPOCH_OFFSET_def)
qed

lemma legacy_parts:
  "uint (ucast (drop_bit 32 raw) :: u32) = uint (raw :: u64) div 2 ^ 32"
  "uint (ucast (raw AND 0xffffffff) :: u32) = uint raw mod 2 ^ 32"
proof -
  have "uint raw < 2 ^ 64" using uint_lt2p [of raw] by simp
  then have "uint raw div 2 ^ 32 < 2 ^ 32" by simp
  moreover have "0 \<le> uint raw div 2 ^ 32" by (simp add: pos_imp_zdiv_nonneg_iff)
  ultimately show "uint (ucast (drop_bit 32 raw) :: u32) = uint raw div 2 ^ 32"
    by (simp add: unsigned_ucast_eq take_bit_eq_mod drop_bit_eq_div uint_div)
  have "raw AND 0xffffffff = take_bit 32 raw" by (simp add: take_bit_eq_mask mask_eq_exp_minus_1)
  then show "uint (ucast (raw AND 0xffffffff) :: u32) = uint raw mod 2 ^ 32"
    by (simp add: unsigned_ucast_eq uint_mod take_bit_eq_mod)
qed

lemma legacy_exact:
  "sint raw = secs (from_legacy raw) * 2 ^ 32 + uint (nsecs (from_legacy raw))"
  "- (2 ^ 31) \<le> secs (from_legacy raw)" "secs (from_legacy raw) < 2 ^ 31"
proof -
  have "uint raw < 2 ^ 64" using uint_lt2p [of raw] by simp
  then have c: "uint raw div 2 ^ 32 < 2 ^ 32" by simp
  have c0: "0 \<le> uint raw div 2 ^ 32" by (simp add: pos_imp_zdiv_nonneg_iff)
  have top: "uint raw div 2 ^ 32 < 2 ^ 31 \<longleftrightarrow> uint raw < 2 ^ 63"by (simp add: int_div_less_iff)
  show "sint raw = secs (from_legacy raw) * 2 ^ 32 + uint (nsecs (from_legacy raw))"
    "- (2 ^ 31) \<le> secs (from_legacy raw)" "secs (from_legacy raw) < 2 ^ 31"
    using c c0 top
    by (cases "uint raw < 2 ^ 63";
        simp add: from_legacy_def sint_cases [of raw] legacy_parts
          sint_cases [of "ucast (drop_bit 32 raw) :: u32"])+
qed

lemma bigtime_mono: "raw < raw' \<longleftrightarrow> from_bigtime raw < from_bigtime raw'"
proof -
  have imp: "from_bigtime a < from_bigtime b" if "a < b" for a b
    using that bigtime_exact [of a] bigtime_exact [of b]
      lex_mono [of "secs (from_bigtime a) + 2 ^ 31" 1000000000 "uint (nsecs (from_bigtime a))"
        "secs (from_bigtime b) + 2 ^ 31" "uint (nsecs (from_bigtime b))"]
    by (simp add: less_xfs_timestamp_ext_def word_less_def)
  show ?thesis
    using imp [of raw raw'] imp [of raw' raw] by (cases raw raw' rule: linorder_cases) auto
qed

lemma legacy_mono: "sint raw < sint raw' \<longleftrightarrow> from_legacy raw < from_legacy raw'"
proof -
  have imp: "from_legacy a < from_legacy b" if "sint a < sint b" for a b
    using that legacy_exact [of a] legacy_exact [of b]
      uint_lt2p [of "nsecs (from_legacy a)"] uint_lt2p [of "nsecs (from_legacy b)"]
      lex_mono [of "secs (from_legacy a)" "2 ^ 32" "uint (nsecs (from_legacy a))"
        "secs (from_legacy b)" "uint (nsecs (from_legacy b))"]
    by (simp add: less_xfs_timestamp_ext_def word_less_def)
  show ?thesis
    using imp [of raw raw'] imp [of raw' raw] signed_word_eqI [of raw raw']
    by (cases "sint raw" "sint raw'" rule: linorder_cases) auto
qed

lemma instant_order:
  fixes s t :: xfs_timestamp
  assumes "uint (nsecs s) < 1000000000" and "uint (nsecs t) < 1000000000"
  shows "s < t \<longleftrightarrow> instant s < instant t"
proof -
  have imp: "a < b" if "instant a < instant b" "uint (nsecs a) < 1000000000" "uint (nsecs b) < 1000000000"
    for a b :: xfs_timestamp
    using that lex_mono [of "secs a" 1000000000 "uint (nsecs a)" "secs b" "uint (nsecs b)"]
    by (simp add: instant_def less_xfs_timestamp_ext_def word_less_def)
  have eq: "s = t" if e: "instant s = instant t"
  proof -
    have d: "instant u div 1000000000 = secs u" "instant u mod 1000000000 = uint (nsecs u)"
      if "uint (nsecs u) < 1000000000" for u
      using that by (simp_all add: instant_def div_pos_pos_trivial mod_pos_pos_trivial)
    show ?thesis
      using d [OF assms(1)] d [OF assms(2)] e by (intro xfs_timestamp.equality) (simp_all add: word_uint_eq_iff)
  qed
  show ?thesis
    using imp [of s t] imp [of t s] eq assms by (cases "instant s" "instant t" rule: linorder_cases) auto
qed

text \<open>
  C34: Both timestamp encodings are decoded exactly. A bigtime value counts nanoseconds from 2^31 seconds
  before the epoch and is decoded to that instant, with the nanoseconds below a second. A legacy value is a
  signed second and a 32-bit nanosecond field, and decoding gives the two fields back; it is also the
  order of the instants exactly as long as the nanosecond fields are below a second: beyond, a smaller
  value can be decoded to a later instant.
\<close>

theorem timestamps_exact_and_ordered:
  "instant (timestamp_decode raw True) = uint raw - 2 ^ 31 * 1000000000 \<and>
   uint (nsecs (timestamp_decode raw True)) < 1000000000 \<and>
   sint raw = secs (timestamp_decode raw False) * 2 ^ 32 + uint (nsecs (timestamp_decode raw False)) \<and>
   - (2 ^ 31) \<le> secs (timestamp_decode raw False) \<and> secs (timestamp_decode raw False) < 2 ^ 31 \<and>
   (uint (nsecs (timestamp_decode raw False)) < 1000000000 \<longrightarrow> uint (nsecs (timestamp_decode raw' False)) < 1000000000 \<longrightarrow>
     (sint raw < sint raw' \<longleftrightarrow> instant (timestamp_decode raw False) < instant (timestamp_decode raw' False))) \<and>
   (\<exists>a b. sint a < sint b \<and> instant (timestamp_decode b False) < instant (timestamp_decode a False))"
proof (intro conjI impI)
  show "\<exists>a b. sint a < sint b \<and> instant (timestamp_decode b False) < instant (timestamp_decode a False)"
    by (rule exI [of _ 2000000000], rule exI [of _ "2 ^ 32"])
      (simp add: timestamp_decode_def from_legacy_def instant_def sint_cases legacy_parts)
qed (use bigtime_exact(1,2) [of raw] legacy_exact [of raw] legacy_mono [of raw raw'] instant_order
    in \<open>simp_all add: timestamp_decode_def instant_def\<close>)

text \<open>A second before the epoch, and a quarter of a second after it.\<close>

theorem timestamps_exact_and_ordered_witness:
  "sint (0xffffffff00000000 :: u64) < sint (250000000 :: u64) \<and>
    instant (timestamp_decode 0xffffffff00000000 False) < instant (timestamp_decode 250000000 False)"
proof -
  have n: "uint (nsecs (timestamp_decode 0xffffffff00000000 False)) = 0" "uint (nsecs (timestamp_decode 250000000 False)) = 250000000"
    by (simp_all add: timestamp_decode_def from_legacy_def legacy_parts)
  have "sint (0xffffffff00000000 :: u64) < sint (250000000 :: u64)" by (simp add: sint_cases)
  then show ?thesis
    using timestamps_exact_and_ordered [of "0xffffffff00000000" 250000000] n by simp
qed

section \<open>What a parsed inode holds\<close>

definition inode_magic_ok :: "bytes \<Rightarrow> bool" where
  "inode_magic_ok data \<longleftrightarrow> be_u16 data 0 = XFS_DINODE_MAGIC"

definition inode_is_v3 :: "bytes \<Rightarrow> bool" where
  "inode_is_v3 data \<longleftrightarrow> 3 \<le> u8_at data 4"

definition inode_need :: "bytes \<Rightarrow> nat" where
  "inode_need data = (if inode_is_v3 data then V3_MIN_LEN else V2_MIN_LEN)"

lemmas inode_contract_defs = inode_magic_ok_def inode_is_v3_def inode_need_def

lemma inode_parse_Inr_D:
  assumes "inode_parse crcf data nrext64 = Inr i"
  shows "di_mode i = be_u16 data 2" "di_version i = u8_at data 4"
    "di_format i = format_from_raw (u8_at data 5)" "di_aformat i = u8_at data 83"
    "di_size i = be_u64 data 56" "di_forkoff i = u8_at data 82"
    "di_nextents i = (if nrext64 then be_u64 data 24 else ucast (be_u32 data 76))"
    "di_aextents i = (if nrext64 then be_u32 data 76 else ucast (be_u16 data 80))"
    "di_flags2 i = (if inode_is_v3 data then Some (be_u64 data 120) else None)"
    "di_ino i = (if inode_is_v3 data then Some (be_u64 data 152) else None)"
    "di_crc_valid i = crc_status crcf (inode_is_v3 data) data DINODE_CRC_OFF"
    "di_data_fork i = drop (inode_need data) data"
    "di_ctime i = timestamp_decode (be_u64 data 48) (inode_is_bigtime i)"
  using assms
  by (auto simp: inode_parse_def Let_def inode_contract_defs litino_defs get_from_def
      inode_is_bigtime_def split: if_splits)

lemma inode_parse_cases:
  "inode_magic_ok data \<Longrightarrow> inode_need data \<le> length data \<Longrightarrow> \<exists>i. inode_parse crcf data nrext64 = Inr i"
  "inode_magic_ok data \<Longrightarrow> length data < inode_need data \<Longrightarrow>
     inode_parse crcf data nrext64 = Inl (Truncated ''inode core'' (inode_need data) (length data))"
  "\<not> inode_magic_ok data \<Longrightarrow> inode_parse crcf data nrext64 =
     Inl (BadMagic (ucast (be_u16 data 0)) [0, 0, u8_at data 0, u8_at data 1])"
  by (auto simp: inode_parse_def Let_def inode_contract_defs)

interpretation inode: checked_header "\<lambda>d. inode_parse crcf d nrext64" inode_magic_ok inode_need
  "''inode core''" crcf di_crc_valid inode_is_v3 DINODE_CRC_OFF
  for crcf nrext64
proof unfold_locales
  fix data :: bytes
  show "\<not> inode_magic_ok data \<Longrightarrow>
      \<exists>found bs. inode_parse crcf data nrext64 = Inl (BadMagic found bs) \<and> length bs = 4"
    by (simp add: inode_parse_cases)
qed (auto simp: inode_parse_cases inode_parse_Inr_D inode_contract_defs crc_offs
    be_overwrite_other u8_at_overwrite_other)

end
