(* ===== verification/Xfs_Superblock.thy ===== *)
theory Xfs_Superblock
  imports Xfs_Inode
begin

text \<open>
  The superblock of \<open>core/src/superblock.rs\<close>: \<open>Superblock::parse\<close>, the feature predicates, the split of
  an inode number into its location and \<open>Superblock::read_inode\<close>.

  The lemmas show the outcomes of the parse (locale \<open>checked_header\<close>), that the split of an inode
  number loses nothing whatever the geometry, what the saturating arithmetic computes, and that
  under a consistent geometry two inodes never share a byte of the image.
\<close>

section \<open>Constants and data\<close>

definition XFS_SB_MAGIC :: u32 where "XFS_SB_MAGIC = 0x58465342"
definition SB_MIN_LEN :: nat where "SB_MIN_LEN = 220"
definition XFS_SB_VERSION2_FTYPE :: u32 where "XFS_SB_VERSION2_FTYPE = 0x200"
definition XFS_SB_FEAT_INCOMPAT_FTYPE :: u32 where "XFS_SB_FEAT_INCOMPAT_FTYPE = 0x1"
definition XFS_SB_FEAT_INCOMPAT_NREXT64 :: u32 where "XFS_SB_FEAT_INCOMPAT_NREXT64 = 0x20"

record superblock =
  sb_magic :: u32
  sb_blocksize :: u32
  sb_rootino :: u64
  sb_agblocks :: u32
  sb_agcount :: u32
  sb_versionnum :: u16
  sb_inodesize :: u16
  sb_inopblock :: u16
  sb_blocklog :: u8
  sb_inodelog :: u8
  sb_inopblog :: u8
  sb_agblklog :: u8
  sb_features2 :: u32
  sb_features_incompat :: u32
  sb_crc_valid :: "bool option"

record inode_location =
  loc_agno :: u64
  loc_agino :: u64
  loc_agblock :: u64
  loc_offset :: u64
  loc_fsblock :: u64
  loc_byte_offset :: u64

section \<open>Operations\<close>

definition superblock_parse :: "(bytes \<Rightarrow> u32) \<Rightarrow> bytes \<Rightarrow> superblock xfs_result" where
  "superblock_parse crcf data =
    (let bs = [u8_at data 0, u8_at data 1, u8_at data 2, u8_at data 3];
         magic = be_word bs
     in if magic \<noteq> XFS_SB_MAGIC then Inl (BadMagic magic bs)
        else if length data < SB_MIN_LEN then Inl (Truncated ''superblock'' SB_MIN_LEN (length data))
        else
          let versionnum = be_u16 data 100;
              is_v5 = (versionnum AND 0x000f = 5);
              crc_valid = crc_status crcf is_v5 data SB_CRC_OFF
          in Inr \<lparr>sb_magic = magic, sb_blocksize = be_u32 data 4, sb_rootino = be_u64 data 56,
               sb_agblocks = be_u32 data 84, sb_agcount = be_u32 data 88,
               sb_versionnum = versionnum, sb_inodesize = be_u16 data 104,
               sb_inopblock = be_u16 data 106, sb_blocklog = u8_at data 120,
               sb_inodelog = u8_at data 122, sb_inopblog = u8_at data 123,
               sb_agblklog = u8_at data 124, sb_features2 = be_u32 data 200,
               sb_features_incompat = be_u32 data 216, sb_crc_valid = crc_valid\<rparr>)"

definition sb_version :: "superblock \<Rightarrow> u8" where
  "sb_version sb = ucast (sb_versionnum sb AND 0x000f)"

definition sb_is_v5 :: "superblock \<Rightarrow> bool" where
  "sb_is_v5 sb \<longleftrightarrow> sb_version sb = 5"

definition has_ftype :: "superblock \<Rightarrow> bool" where
  "has_ftype sb \<longleftrightarrow>
     (if sb_is_v5 sb then sb_features_incompat sb AND XFS_SB_FEAT_INCOMPAT_FTYPE \<noteq> 0
      else sb_features2 sb AND XFS_SB_VERSION2_FTYPE \<noteq> 0)"

definition has_nrext64 :: "superblock \<Rightarrow> bool" where
  "has_nrext64 sb \<longleftrightarrow> sb_is_v5 sb \<and> sb_features_incompat sb AND XFS_SB_FEAT_INCOMPAT_NREXT64 \<noteq> 0"

text \<open>A \<open>u32\<close> shift width is a \<open>nat\<close>: the widths below are sums of two bytes.\<close>

definition shr :: "u64 \<Rightarrow> nat \<Rightarrow> u64" where
  "shr value bits = (if bits < 64 then drop_bit bits value else 0)"

definition low_mask :: "nat \<Rightarrow> u64" where
  "low_mask bits = (if 64 \<le> bits then - 1 else push_bit bits 1 - 1)"

definition inode_to_location :: "superblock \<Rightarrow> u64 \<Rightarrow> inode_location" where
  "inode_to_location sb ino =
    (let inopblog = unat (sb_inopblog sb);
         agino_bits = unat (sb_agblklog sb) + inopblog;
         agno = shr ino agino_bits;
         agino = ino AND low_mask agino_bits;
         agblock = shr agino inopblog;
         offset = agino AND low_mask inopblog;
         fsblock = wsat_add (wsat_mul agno (ucast (sb_agblocks sb))) agblock;
         byte_offset = wsat_add (wsat_mul fsblock (ucast (sb_blocksize sb)))
                         (wsat_mul offset (ucast (sb_inodesize sb)))
     in \<lparr>loc_agno = agno, loc_agino = agino, loc_agblock = agblock, loc_offset = offset,
         loc_fsblock = fsblock, loc_byte_offset = byte_offset\<rparr>)"

definition read_inode :: "(bytes \<Rightarrow> u32) \<Rightarrow> superblock \<Rightarrow> bytes \<Rightarrow> u64 \<Rightarrow> inode xfs_result" where
  "read_inode crcf sb img ino =
    (let loc = inode_to_location sb ino;
         start = unat (loc_byte_offset loc);
         size = unat (sb_inodesize sb);
         end' = usat_add start size
     in case get_range img start end' of
          None \<Rightarrow> Inl (Truncated ''inode (image slice)'' end' (length img))
        | Some window \<Rightarrow> inode_parse crcf window (has_nrext64 sb))"

section \<open>The parse\<close>

definition sb_magic_ok :: "bytes \<Rightarrow> bool" where
  "sb_magic_ok data \<longleftrightarrow>
     be_word [u8_at data 0, u8_at data 1, u8_at data 2, u8_at data 3] = XFS_SB_MAGIC"

definition sb_bytes_v5 :: "bytes \<Rightarrow> bool" where
  "sb_bytes_v5 data \<longleftrightarrow> be_u16 data 100 AND 0x000f = 5"

text \<open>The format version is the low nibble.\<close>

lemma low_nibble_5: "(word_of_nat n :: u16) AND 0x000f = 5 \<longleftrightarrow> n mod 16 = 5"
proof -
  have "unat ((word_of_nat n :: u16) AND 0x000f) = unat (word_of_nat n :: u16) AND mask 4"
    by (simp add: unsigned_and_eq mask_eq_exp_minus_1)
  also have "\<dots> = n mod 2 ^ 16 mod 16"
    by (simp only: unat_of_nat flip: take_bit_eq_mask) (simp add: take_bit_eq_mod)
  also have "\<dots> = n mod 16" by (simp add: mod_mod_cancel)
  finally have "unat ((word_of_nat n :: u16) AND 0x000f) = n mod 16" .
  then show ?thesis by (simp add: word_unat_eq_iff)
qed

lemma superblock_parse_Inr_D:
  assumes "superblock_parse crcf data = Inr sb"
  shows "sb_magic sb = XFS_SB_MAGIC" "sb_blocksize sb = be_u32 data 4" "sb_rootino sb = be_u64 data 56"
    "sb_agblocks sb = be_u32 data 84" "sb_agcount sb = be_u32 data 88"
    "sb_versionnum sb = be_u16 data 100" "sb_inodesize sb = be_u16 data 104"
    "sb_inopblog sb = u8_at data 123" "sb_agblklog sb = u8_at data 124"
    "sb_features2 sb = be_u32 data 200" "sb_features_incompat sb = be_u32 data 216"
    "sb_crc_valid sb = crc_status crcf (sb_bytes_v5 data) data SB_CRC_OFF"
  using assms by (auto simp: superblock_parse_def Let_def sb_bytes_v5_def split: if_splits)

lemma superblock_parse_cases:
  "sb_magic_ok data \<Longrightarrow> SB_MIN_LEN \<le> length data \<Longrightarrow> \<exists>sb. superblock_parse crcf data = Inr sb"
  "sb_magic_ok data \<Longrightarrow> length data < SB_MIN_LEN \<Longrightarrow>
     superblock_parse crcf data = Inl (Truncated ''superblock'' SB_MIN_LEN (length data))"
  "\<not> sb_magic_ok data \<Longrightarrow> \<exists>found. superblock_parse crcf data =
     Inl (BadMagic found [u8_at data 0, u8_at data 1, u8_at data 2, u8_at data 3])"
  by (auto simp: superblock_parse_def Let_def sb_magic_ok_def)

interpretation sb: checked_header "superblock_parse crcf" sb_magic_ok "\<lambda>_. SB_MIN_LEN"
  "''superblock''" crcf sb_crc_valid sb_bytes_v5 SB_CRC_OFF
  for crcf
proof unfold_locales
  fix data :: bytes
  show "\<not> sb_magic_ok data \<Longrightarrow>
      \<exists>found bs. superblock_parse crcf data = Inl (BadMagic found bs) \<and> length bs = 4"
    using superblock_parse_cases(3) [of data crcf] by fastforce
qed (auto simp: superblock_parse_cases superblock_parse_Inr_D sb_magic_ok_def sb_bytes_v5_def crc_offs
    be_overwrite_other u8_at_overwrite_other)

text \<open>The version tested by the parse is the version of the parsed superblock.\<close>

lemma ucast_low_nibble_eq_5: "ucast (v AND 0x000f :: u16) = (5 :: u8) \<longleftrightarrow> v AND 0x000f = 5"
proof -
  have "v AND 0x000f \<le> 0x000f" by (rule word_and_le1)
  then have "uint (v AND 0x000f) \<le> 15" by (simp add: word_le_def)
  then have "uint (ucast (v AND 0x000f) :: u8) = uint (v AND 0x000f)"
    by (simp add: unsigned_ucast_eq take_bit_int_eq_self)
  then show ?thesis
    by (simp add: word_uint_eq_iff)
qed

section \<open>Locating inodes\<close>

lemma unat_shr: "unat (shr v b) = unat v div 2 ^ b"
proof (cases "b < 64")
  case True
  have "unat (drop_bit b v) = unat v div 2 ^ b"
    by (rule trans [OF unat_drop_bit_eq drop_bit_eq_div])
  then show ?thesis using True by (simp add: shr_def)
next
  case False
  have "unat v < 2 ^ 64" using unat_less_pow [of v] by simp
  also have "(2::nat) ^ 64 \<le> 2 ^ b" using False by (intro power_increasing) auto
  finally show ?thesis using False by (simp add: shr_def)
qed

lemma unat_and_low_mask: "unat (v AND low_mask b) = unat v mod 2 ^ b"
proof (cases "b < 64")
  case True
  then have "low_mask b = mask b"
    by (simp add: low_mask_def mask_eq_exp_minus_1 push_bit_eq_mult)
  then have "v AND low_mask b = take_bit b v"
    by (simp only: take_bit_eq_mask)
  moreover have "unat (take_bit b v) = unat v mod 2 ^ b"
    by (rule trans [OF unsigned_take_bit_eq take_bit_eq_mod])
  ultimately show ?thesis by simp
next
  case False
  have "unat v < 2 ^ 64" using unat_less_pow [of v] by simp
  also have "(2::nat) ^ 64 \<le> 2 ^ b" using False by (intro power_increasing) auto
  finally show ?thesis using False by (simp add: low_mask_def)
qed

text \<open>The number of bits of an inode number that select the inode inside its allocation group.\<close>

definition loc_bits :: "superblock \<Rightarrow> nat" where
  "loc_bits sb = unat (sb_agblklog sb) + unat (sb_inopblog sb)"

text \<open>The split is lossless division and remainder, for every inode number and every geometry.\<close>

lemma location_split:
  shows "unat (loc_agno (inode_to_location sb ino)) = unat ino div 2 ^ loc_bits sb"
    and "unat (loc_agino (inode_to_location sb ino)) = unat ino mod 2 ^ loc_bits sb"
    and "unat (loc_agblock (inode_to_location sb ino)) =
      unat ino mod 2 ^ loc_bits sb div 2 ^ unat (sb_inopblog sb)"
    and "unat (loc_offset (inode_to_location sb ino)) =
      unat ino mod 2 ^ loc_bits sb mod 2 ^ unat (sb_inopblog sb)"
  by (simp_all only: inode_to_location_def Let_def inode_location.simps unat_shr unat_and_low_mask loc_bits_def)

lemma location_inj:
  assumes "unat (loc_agno (inode_to_location sb i)) = unat (loc_agno (inode_to_location sb j))"
    and "unat (loc_agblock (inode_to_location sb i)) = unat (loc_agblock (inode_to_location sb j))"
    and "unat (loc_offset (inode_to_location sb i)) = unat (loc_offset (inode_to_location sb j))"
  shows "i = j"
proof -
  let ?B = "2 ^ loc_bits sb :: nat" and ?P = "2 ^ unat (sb_inopblog sb) :: nat"
  have "unat i div ?B = unat j div ?B" "unat i mod ?B div ?P = unat j mod ?B div ?P"
    "unat i mod ?B mod ?P = unat j mod ?B mod ?P"
    using assms by (simp_all add: location_split)
  then have "unat i = unat j" by (metis div_mult_mod_eq)
  then show ?thesis by (simp add: word_unat_eq_iff)
qed

text \<open>The address: exact up to saturation at \<open>u64::MAX\<close>.\<close>

lemma location_address:
  shows "unat (loc_fsblock (inode_to_location sb ino)) =
      min (unat (loc_agno (inode_to_location sb ino)) * unat (sb_agblocks sb)
           + unat (loc_agblock (inode_to_location sb ino))) USIZE_MAX"
    and "unat (loc_byte_offset (inode_to_location sb ino)) =
      min (unat (loc_fsblock (inode_to_location sb ino)) * unat (sb_blocksize sb)
           + unat (loc_offset (inode_to_location sb ino)) * unat (sb_inodesize sb)) USIZE_MAX"
  by (simp_all add: inode_to_location_def Let_def unat_wsat_add unat_wsat_mul unat_ucast_widen USIZE_MAX_def)

lemma location_exact:
  assumes "0 < unat (sb_blocksize sb)" 
    and lt: "unat (loc_byte_offset (inode_to_location sb ino)) < USIZE_MAX"
  shows "unat (loc_fsblock (inode_to_location sb ino)) =
      unat (loc_agno (inode_to_location sb ino)) * unat (sb_agblocks sb)
           + unat (loc_agblock (inode_to_location sb ino))"
    and "unat (loc_byte_offset (inode_to_location sb ino)) =
      unat (loc_fsblock (inode_to_location sb ino)) * unat (sb_blocksize sb)
           + unat (loc_offset (inode_to_location sb ino)) * unat (sb_inodesize sb)"
proof -
  let ?f = "unat (loc_fsblock (inode_to_location sb ino))"
  show *: "unat (loc_byte_offset (inode_to_location sb ino)) = ?f * unat (sb_blocksize sb)
           + unat (loc_offset (inode_to_location sb ino)) * unat (sb_inodesize sb)"
    using lt by (simp add: location_address(2) [of sb ino] min_def split: if_splits)
  have "?f \<le> ?f * unat (sb_blocksize sb)" using assms(1) by simp
  then have "?f < USIZE_MAX" using lt * by linarith
  then show "?f = unat (loc_agno (inode_to_location sb ino)) * unat (sb_agblocks sb)
           + unat (loc_agblock (inode_to_location sb ino))"
    by (simp add: location_address(1) [of sb ino] min_def split: if_splits)
qed

text \<open>
  A consistent geometry: the inodes of a block fit in it. An inode number is in its group when its
  block lies below \<open>sb_agblocks\<close>.
\<close>

definition sb_geometry_ok :: "superblock \<Rightarrow> bool" where
  "sb_geometry_ok sb \<longleftrightarrow> 0 < unat (sb_inodesize sb) \<and>
     unat (sb_inodesize sb) * 2 ^ unat (sb_inopblog sb) \<le> unat (sb_blocksize sb)"

definition ino_in_ag :: "superblock \<Rightarrow> u64 \<Rightarrow> bool" where
  "ino_in_ag sb ino \<longleftrightarrow> unat (loc_agblock (inode_to_location sb ino)) < unat (sb_agblocks sb)"

text \<open>
  C29: In a consistent geometry the byte windows of two different inodes never overlap.
\<close>

theorem inode_windows_disjoint:
  assumes geo: "sb_geometry_ok sb" and ags: "ino_in_ag sb i" "ino_in_ag sb j"
    and lts: "unat (loc_byte_offset (inode_to_location sb i)) < USIZE_MAX"
      "unat (loc_byte_offset (inode_to_location sb j)) < USIZE_MAX"
    and "i \<noteq> j"
  shows "unat (loc_byte_offset (inode_to_location sb i)) + unat (sb_inodesize sb)
        \<le> unat (loc_byte_offset (inode_to_location sb j)) \<or>
      unat (loc_byte_offset (inode_to_location sb j)) + unat (sb_inodesize sb)
        \<le> unat (loc_byte_offset (inode_to_location sb i))"
proof -
  let ?L = "inode_to_location sb" and ?bs = "unat (sb_blocksize sb)" and ?isz = "unat (sb_inodesize sb)"
  have isz: "0 < ?isz" "?isz * 2 ^ unat (sb_inopblog sb) \<le> ?bs" 
    using geo by (auto simp: sb_geometry_ok_def)
  then have bs: "0 < ?bs" by (metis le_0_eq mult_is_0 not_gr0 power_not_zero zero_neq_numeral)
  have slot: "unat (loc_offset (?L x)) < 2 ^ unat (sb_inopblog sb)" for x
    by (simp add: location_split)
  show ?thesis
  proof (cases "loc_fsblock (?L i) = loc_fsblock (?L j)")
    case True
    then have "unat (loc_agno (?L i)) = unat (loc_agno (?L j)) \<and> 
       unat (loc_agblock (?L i)) = unat (loc_agblock (?L j))"
      using location_exact(1) [OF bs lts(1)] location_exact(1) [OF bs lts(2)] ags
      by (intro mixed_radix_eq) (auto simp: ino_in_ag_def)
    then have "loc_offset (?L i) \<noteq> loc_offset (?L j)"
      using location_inj [of sb i j] \<open>i \<noteq> j\<close> by auto
    then have "unat (loc_offset (?L i)) + 1 \<le> unat (loc_offset (?L j)) \<or> 
      unat (loc_offset (?L j)) + 1 \<le> unat (loc_offset (?L i))"
      by (metis Suc_eq_plus1 not_less_eq_eq order_antisym_conv nat_le_linear unsigned_word_eqI)
    then have "(unat (loc_offset (?L i)) + 1) * ?isz \<le> unat (loc_offset (?L j)) * ?isz \<or>
      (unat (loc_offset (?L j)) + 1) * ?isz \<le> unat (loc_offset (?L i)) * ?isz"
      using mult_right_mono [of _ _ ?isz] by blast
    then show ?thesis
      using location_exact(2) [OF bs lts(1)] location_exact(2) [OF bs lts(2)] True
      by (auto simp: distrib_right)
  next
    case False
    then have "unat (loc_fsblock (?L i)) < unat (loc_fsblock (?L j)) \<or>
      unat (loc_fsblock (?L j)) < unat (loc_fsblock (?L i))"
      by (metis linorder_neqE_nat unsigned_word_eqI)
    then show ?thesis
      using location_exact(2) [OF bs lts(1)] location_exact(2) [OF bs lts(2)]
        slot_window [OF isz(2) slot [of i]] slot_window [OF isz(2) slot [of j]]
      by auto
  qed
qed

definition two_slots :: superblock where
  "two_slots = \<lparr>sb_magic = XFS_SB_MAGIC, sb_blocksize = 512, sb_rootino = 4, sb_agblocks = 64, sb_agcount = 1,
     sb_versionnum = 4, sb_inodesize = 256, sb_inopblock = 2, sb_blocklog = 9, sb_inodelog = 8,
     sb_inopblog = 1, sb_agblklog = 6, sb_features2 = 0, sb_features_incompat = 0, sb_crc_valid = None\<rparr>"

theorem inode_windows_disjoint_witness:
  "unat (loc_byte_offset (inode_to_location two_slots 8)) + unat (sb_inodesize two_slots)
        \<le> unat (loc_byte_offset (inode_to_location two_slots 9)) \<or>
      unat (loc_byte_offset (inode_to_location two_slots 9)) + unat (sb_inodesize two_slots)
        \<le> unat (loc_byte_offset (inode_to_location two_slots 8))"
  by (rule inode_windows_disjoint)
    (simp_all add: sb_geometry_ok_def ino_in_ag_def two_slots_def inode_to_location_def Let_def shr_def low_mask_def
      wsat_mul_def wsat_add_def USIZE_MAX_def)

section \<open>The checksum verdict of a superblock\<close>

text \<open>
  A version 5 superblock stamped with its checksum is accepted as valid, and no value of the stored
  checksum changes whether the superblock is accepted at all.
\<close>

lemma superblock_checksum_verdict:
  assumes "sb_magic_ok data" and "sb_bytes_v5 data" and "228 \<le> length data" and "length data \<le> USIZE_MAX"
    and "length s = 4"
  shows "(\<exists>h. superblock_parse crcf (stamp_crc crcf data SB_CRC_OFF) = Inr h \<and> sb_crc_valid h = Some True) \<and>
    is_ok (superblock_parse crcf (overwrite data SB_CRC_OFF s))"
proof -
  have ok: "is_ok (superblock_parse crcf data)"
    using assms(1,3) by (simp add: sb.ok_iff SB_MIN_LEN_def)
  have off: "SB_CRC_OFF + 4 \<le> length data" using assms(3) by (simp add: SB_CRC_OFF_def)
  show ?thesis
    using sb.stamped_valid [OF ok assms(2) off assms(4)] sb.nonfatal [of s data crcf] ok off assms(5) by simp
qed

end
