(* ===== verification/Xfs_Agheaders.thy ===== *)
theory Xfs_Agheaders
  imports Xfs_Superblock
begin

text \<open>
  The allocation-group headers of \<open>core/src/agheaders.rs\<close>: AGF, AGI and AGFL, with the plain and the
  verifying parsers.

  The lemmas show the outcomes of every parser (locale \<open>checked_header\<close>), and that a free-list ring
  always has the number of slots the sector holds, filled with the null sentinel where the buffer
  ends early.
\<close>

definition XFS_AGF_MAGIC :: u32 where "XFS_AGF_MAGIC = 0x58414746"
definition XFS_AGI_MAGIC :: u32 where "XFS_AGI_MAGIC = 0x58414749"
definition XFS_AGFL_MAGIC :: u32 where "XFS_AGFL_MAGIC = 0x5841464c"
definition XFS_AGI_UNLINKED_BUCKETS :: nat where "XFS_AGI_UNLINKED_BUCKETS = 64"
definition XFS_NULL_AGBLOCK :: u32 where "XFS_NULL_AGBLOCK = 0xffffffff"
definition AGF_MIN_LEN :: nat where "AGF_MIN_LEN = 96"
definition AGI_UNLINKED_OFF :: nat where "AGI_UNLINKED_OFF = 40"
definition AGI_MIN_LEN :: nat where "AGI_MIN_LEN = AGI_UNLINKED_OFF + XFS_AGI_UNLINKED_BUCKETS * 4"
definition AGFL_V5_HEADER_LEN :: nat where "AGFL_V5_HEADER_LEN = 36"

lemmas ag_len_defs = AGF_MIN_LEN_def AGI_MIN_LEN_def AGI_UNLINKED_OFF_def
  XFS_AGI_UNLINKED_BUCKETS_def AGFL_V5_HEADER_LEN_def

record agf =
  agf_magicnum :: u32
  agf_versionnum :: u32
  agf_seqno :: u32
  agf_length :: u32
  agf_bno_root :: u32
  agf_cnt_root :: u32
  agf_rmap_root :: u32
  agf_bno_level :: u32
  agf_cnt_level :: u32
  agf_rmap_level :: u32
  agf_flfirst :: u32
  agf_fllast :: u32
  agf_flcount :: u32
  agf_freeblks :: u32
  agf_longest :: u32
  agf_btreeblks :: u32
  agf_rmap_blocks :: u32
  agf_refcount_blocks :: u32
  agf_refcount_root :: u32
  agf_refcount_level :: u32
  agf_crc_valid :: "bool option"

record agi =
  agi_magicnum :: u32
  agi_versionnum :: u32
  agi_seqno :: u32
  agi_length :: u32
  agi_count :: u32
  agi_root :: u32
  agi_level :: u32
  agi_freecount :: u32
  agi_newino :: u32
  agi_dirino :: u32
  agi_unlinked :: "u32 list"
  agi_free_root :: u32
  agi_free_level :: u32
  agi_ino_blocks :: u32
  agi_fino_blocks :: u32
  agi_crc_valid :: "bool option"

record agfl =
  agfl_magicnum :: "u32 option"
  agfl_seqno :: "u32 option"
  agfl_bno :: "u32 list"
  agfl_crc_valid :: "bool option"

section \<open>Parsers\<close>

definition check_magic :: "bytes \<Rightarrow> u32 \<Rightarrow> u32 xfs_result" where
  "check_magic data expected =
    (let bs = [u8_at data 0, u8_at data 1, u8_at data 2, u8_at data 3];
         found = be_word bs
     in if found = expected then Inr found else Inl (BadMagic found bs))"

text \<open>\<open>verify\<close> is \<open>None\<close> to skip the checksum, \<open>Some is_v5\<close> to check it.\<close>

definition agf_parse_inner :: "(bytes \<Rightarrow> u32) \<Rightarrow> bytes \<Rightarrow> bool option \<Rightarrow> agf xfs_result" where
  "agf_parse_inner crcf data verify =
    and_then (check_magic data XFS_AGF_MAGIC) (\<lambda>magicnum.
      if length data < AGF_MIN_LEN then Inl (Truncated ''AGF'' AGF_MIN_LEN (length data))
      else
        let crc_valid = Option.bind verify (\<lambda>is_v5. crc_status crcf is_v5 data AGF_CRC_OFF)
        in Inr \<lparr>agf_magicnum = magicnum, agf_versionnum = be_u32 data 4, agf_seqno = be_u32 data 8,
             agf_length = be_u32 data 12, agf_bno_root = be_u32 data 16, agf_cnt_root = be_u32 data 20,
             agf_rmap_root = be_u32 data 24, agf_bno_level = be_u32 data 28,
             agf_cnt_level = be_u32 data 32, agf_rmap_level = be_u32 data 36,
             agf_flfirst = be_u32 data 40, agf_fllast = be_u32 data 44, agf_flcount = be_u32 data 48,
             agf_freeblks = be_u32 data 52, agf_longest = be_u32 data 56,
             agf_btreeblks = be_u32 data 60, agf_rmap_blocks = be_u32 data 80,
             agf_refcount_blocks = be_u32 data 84, agf_refcount_root = be_u32 data 88,
             agf_refcount_level = be_u32 data 92, agf_crc_valid = crc_valid\<rparr>)"

definition agf_parse :: "(bytes \<Rightarrow> u32) \<Rightarrow> bytes \<Rightarrow> agf xfs_result" where
  "agf_parse crcf data = agf_parse_inner crcf data None"

definition agf_parse_verified :: "(bytes \<Rightarrow> u32) \<Rightarrow> bytes \<Rightarrow> bool \<Rightarrow> agf xfs_result" where
  "agf_parse_verified crcf data is_v5 = agf_parse_inner crcf data (Some is_v5)"

definition agi_parse_inner :: "(bytes \<Rightarrow> u32) \<Rightarrow> bytes \<Rightarrow> bool option \<Rightarrow> agi xfs_result" where
  "agi_parse_inner crcf data verify =
    and_then (check_magic data XFS_AGI_MAGIC) (\<lambda>magicnum.
      if length data < AGI_MIN_LEN then Inl (Truncated ''AGI'' AGI_MIN_LEN (length data))
      else
        let unlinked = map (\<lambda>i. be_u32 data (AGI_UNLINKED_OFF + i * 4)) [0..<XFS_AGI_UNLINKED_BUCKETS];
            crc_valid = Option.bind verify (\<lambda>is_v5. crc_status crcf is_v5 data AGI_CRC_OFF)
        in Inr \<lparr>agi_magicnum = magicnum, agi_versionnum = be_u32 data 4, agi_seqno = be_u32 data 8,
             agi_length = be_u32 data 12, agi_count = be_u32 data 16, agi_root = be_u32 data 20,
             agi_level = be_u32 data 24, agi_freecount = be_u32 data 28, agi_newino = be_u32 data 32,
             agi_dirino = be_u32 data 36, agi_unlinked = unlinked, agi_free_root = be_u32 data 328,
             agi_free_level = be_u32 data 332, agi_ino_blocks = be_u32 data 336,
             agi_fino_blocks = be_u32 data 340, agi_crc_valid = crc_valid\<rparr>)"

definition agi_parse :: "(bytes \<Rightarrow> u32) \<Rightarrow> bytes \<Rightarrow> agi xfs_result" where
  "agi_parse crcf data = agi_parse_inner crcf data None"

definition agi_parse_verified :: "(bytes \<Rightarrow> u32) \<Rightarrow> bytes \<Rightarrow> bool \<Rightarrow> agi xfs_result" where
  "agi_parse_verified crcf data is_v5 = agi_parse_inner crcf data (Some is_v5)"

definition read_bno_ring :: "bytes \<Rightarrow> nat \<Rightarrow> nat \<Rightarrow> u32 list" where
  "read_bno_ring data off slots =
    map (\<lambda>i. let at = off + i * 4 in
          if at + 4 \<le> length data then be_u32 data at else XFS_NULL_AGBLOCK) [0..<slots]"

definition agfl_parse_v5 :: "(bytes \<Rightarrow> u32) \<Rightarrow> bytes \<Rightarrow> u32 \<Rightarrow> agfl xfs_result" where
  "agfl_parse_v5 crcf data sectorsize =
    and_then (check_magic data XFS_AGFL_MAGIC) (\<lambda>magicnum.
      if length data < AGFL_V5_HEADER_LEN
      then Inl (Truncated ''AGFL'' AGFL_V5_HEADER_LEN (length data))
      else
        let slots = (unat sectorsize - AGFL_V5_HEADER_LEN) div 4;
            bno = read_bno_ring data AGFL_V5_HEADER_LEN slots;
            crc_valid = crc_status crcf True data AGFL_CRC_OFF
        in Inr \<lparr>agfl_magicnum = Some magicnum, agfl_seqno = Some (be_u32 data 4),
             agfl_bno = bno, agfl_crc_valid = crc_valid\<rparr>)"

definition agfl_parse_v4 :: "bytes \<Rightarrow> u32 \<Rightarrow> agfl" where
  "agfl_parse_v4 data sectorsize =
    (let slots = unat sectorsize div 4
     in \<lparr>agfl_magicnum = None, agfl_seqno = None, agfl_bno = read_bno_ring data 0 slots,
         agfl_crc_valid = None\<rparr>)"

section \<open>Outcomes\<close>

definition ag_magic_ok :: "u32 \<Rightarrow> bytes \<Rightarrow> bool" where
  "ag_magic_ok expected data \<longleftrightarrow> be_word [u8_at data 0, u8_at data 1, u8_at data 2, u8_at data 3] = expected"

lemma check_magic_cases:
  "check_magic data expected = (if ag_magic_ok expected data then Inr expected
     else Inl (BadMagic (be_word [u8_at data 0, u8_at data 1, u8_at data 2, u8_at data 3])
        [u8_at data 0, u8_at data 1, u8_at data 2, u8_at data 3]))"
  by (auto simp: check_magic_def ag_magic_ok_def Let_def)

lemma ag_magic_ok_overwrite:
  "4 \<le> off \<Longrightarrow> off + length s \<le> length data \<Longrightarrow>
     ag_magic_ok m (overwrite data off s) = ag_magic_ok m data"
  by (simp add: ag_magic_ok_def u8_at_overwrite_other)

interpretation agf: checked_header "\<lambda>d. agf_parse_verified crcf d is_v5" "ag_magic_ok XFS_AGF_MAGIC"
  "\<lambda>_. AGF_MIN_LEN" "''AGF''" crcf agf_crc_valid "\<lambda>_. is_v5" AGF_CRC_OFF
  for crcf is_v5
  by unfold_locales (auto simp: agf_parse_verified_def agf_parse_inner_def check_magic_cases Let_def
      ag_magic_ok_overwrite crc_offs split: if_splits)

interpretation agi: checked_header "\<lambda>d. agi_parse_verified crcf d is_v5" "ag_magic_ok XFS_AGI_MAGIC"
  "\<lambda>_. AGI_MIN_LEN" "''AGI''" crcf agi_crc_valid "\<lambda>_. is_v5" AGI_CRC_OFF
  for crcf is_v5
  by unfold_locales (auto simp: agi_parse_verified_def agi_parse_inner_def check_magic_cases Let_def
      ag_magic_ok_overwrite crc_offs split: if_splits)

interpretation agfl: checked_header "\<lambda>d. agfl_parse_v5 crcf d sectorsize" "ag_magic_ok XFS_AGFL_MAGIC"
  "\<lambda>_. AGFL_V5_HEADER_LEN" "''AGFL''" crcf agfl_crc_valid "\<lambda>_. True" AGFL_CRC_OFF
  for crcf sectorsize
  by unfold_locales (auto simp: agfl_parse_v5_def check_magic_cases Let_def
      ag_magic_ok_overwrite crc_offs split: if_splits)

text \<open>The plain parsers are the verifying ones without a verdict on the checksum.\<close>

lemma agf_parse_plain:
  "agf_parse crcf data = (case agf_parse_verified crcf data is_v5 of
     Inl e \<Rightarrow> Inl e | Inr h \<Rightarrow> Inr (h\<lparr>agf_crc_valid := None\<rparr>))"
  by (simp add: agf_parse_def agf_parse_verified_def agf_parse_inner_def check_magic_cases Let_def)

lemma agi_parse_plain:
  "agi_parse crcf data = (case agi_parse_verified crcf data is_v5 of
     Inl e \<Rightarrow> Inl e | Inr h \<Rightarrow> Inr (h\<lparr>agi_crc_valid := None\<rparr>))"
  by (simp add: agi_parse_def agi_parse_verified_def agi_parse_inner_def check_magic_cases Let_def)

lemma agi_parse_unlinked:
  assumes "agi_parse_verified crcf data is_v5 = Inr h"
  shows "length (agi_unlinked h) = 64"
    and "b < 64 \<Longrightarrow> agi_unlinked h ! b = be_u32 data (40 + b * 4)"
  using assms
  by (auto simp: agi_parse_verified_def agi_parse_inner_def check_magic_cases Let_def ag_len_defs
      split: if_splits)

section \<open>The free-list ring\<close>

lemma length_read_bno_ring [simp]: "length (read_bno_ring data off slots) = slots"
  by (simp add: read_bno_ring_def)

lemma read_bno_ring_nth:
  "i < slots \<Longrightarrow> read_bno_ring data off slots ! i =
     (if off + i * 4 + 4 \<le> length data then be_u32 data (off + i * 4) else XFS_NULL_AGBLOCK)"
  by (simp add: read_bno_ring_def Let_def)

text \<open>The ring as a writer lays it out.\<close>

fun ring_bytes :: "u32 list \<Rightarrow> bytes" where
  "ring_bytes [] = []"
| "ring_bytes (v # vs) = be_bytes 4 (unat v) @ ring_bytes vs"

lemma length_ring_bytes [simp]: "length (ring_bytes vs) = 4 * length vs"
  by (induction vs) auto

lemma read_bno_ring_Suc:
  "read_bno_ring data off (Suc n) =
     (if off + 4 \<le> length data then be_u32 data off else XFS_NULL_AGBLOCK) # read_bno_ring data (off + 4) n"
  by (simp add: read_bno_ring_def Let_def map_upt_Suc algebra_simps del: upt_Suc)

lemma read_bno_ring_past_end:
  "length data < off + 4 \<Longrightarrow> read_bno_ring data off n = replicate n XFS_NULL_AGBLOCK"
  by (induction n arbitrary: off) (simp_all add: read_bno_ring_Suc, simp add: read_bno_ring_def)

lemma read_ring_bytes:
  "read_bno_ring (p @ ring_bytes vs) (length p) (length vs + k) = vs @ replicate k XFS_NULL_AGBLOCK"
proof (induction vs arbitrary: p)
  case Nil
  then show ?case by (simp add: read_bno_ring_past_end)
next
  case (Cons v vs)
  from Cons [of "p @ be_bytes 4 (unat v)"] show ?case
    by (simp add: read_bno_ring_Suc be_read_stored)
qed

text \<open>
  Reading a v5 free list whose buffer ends after the ring's written slots yields those slots in
  order and the null sentinel for every further slot of the sector.
\<close>

lemma agfl_v5_ring_roundtrip:
  assumes "length hdr = AGFL_V5_HEADER_LEN" and "ag_magic_ok XFS_AGFL_MAGIC hdr"
    and "unat sectorsize = AGFL_V5_HEADER_LEN + 4 * (length vs + k)"
  shows "\<exists>h. agfl_parse_v5 crcf (hdr @ ring_bytes vs) sectorsize = Inr h
           \<and> agfl_bno h = vs @ replicate k XFS_NULL_AGBLOCK"
proof -
  have "ag_magic_ok XFS_AGFL_MAGIC (hdr @ ring_bytes vs)"
    using assms(1,2) by (simp add: ag_magic_ok_def u8_at_append ag_len_defs)
  then show ?thesis
    using assms read_ring_bytes [of hdr vs k]
    by (simp add: agfl_parse_v5_def check_magic_cases Let_def)
qed

end
