(* ===== verification/Xfs_Walk.thy ===== *)
theory Xfs_Walk
  imports Xfs_Error
begin

text \<open>
  The contract of a counted walk over packed records: three loops of the reader decode records that
  are laid end to end with no terminator (extent arrays, short-form directories, short-form
  attributes), each for a count the disk states, each stopping at the first record that does not fit.

  \<open>step\<close> decodes the record at an offset and says where the next one starts, \<open>walk\<close> is the loop,
  \<open>enc\<close> relates a record to the byte strings that store it. The lemmas bound what a hostile count can
  make the loop produce, show that cutting the buffer short loses a suffix of the records and nothing
  else, and that records stored one after the other are read back.
\<close>

locale packed_walk =
  fixes step :: "bytes \<Rightarrow> nat \<Rightarrow> ('r \<times> nat) option"
    and walk :: "bytes \<Rightarrow> nat \<Rightarrow> nat \<Rightarrow> 'r list"
    and enc :: "'r \<Rightarrow> bytes \<Rightarrow> bool"
    and minlen :: nat
  assumes walk_0: "walk d off 0 = []"
    and walk_Suc: "walk d off (Suc k) = (case step d off of
        None \<Rightarrow> [] | Some (r, next') \<Rightarrow> r # walk d next' k)"
    and step_bound: "step d off = Some (r, next') \<Longrightarrow> off + minlen \<le> next' \<and> next' \<le> length d"
    and minlen_pos: "0 < minlen"
    and step_enc: "enc r bs \<Longrightarrow> step (p @ bs @ q) (length p) = Some (r, length p + length bs)"
    and step_append: "step d off = Some x \<Longrightarrow> step (d @ e) off = Some x"
begin

lemma step_at_end: "length d < off + minlen \<Longrightarrow> step d off = None"
  using step_bound by (cases "step d off") fastforce+

lemma walk_at_end: "length d < off + minlen \<Longrightarrow> walk d off k = []"
  by (cases k) (simp_all add: walk_0 walk_Suc step_at_end)

text \<open>A count the buffer cannot back costs nothing: the result is bounded by the bytes present.\<close>

lemma length_walk: "length (walk d off k) \<le> k"
  by (induction k arbitrary: off) (auto simp: walk_0 walk_Suc split: option.splits)

lemma length_walk_bytes: "length (walk d off k) * minlen \<le> length d - off"
proof (induction k arbitrary: off)
  case (Suc k)
  show ?case
  proof (cases "step d off")
    case (Some rn)
    obtain r n where rn: "rn = (r, n)" by fastforce
    with Some step_bound have "off + minlen \<le> n" "n \<le> length d" by auto
    with Suc [of n] Some rn show ?thesis by (simp add: walk_Suc)
  qed (simp add: walk_Suc)
qed (simp add: walk_0)

lemma walk_take: "k \<le> m \<Longrightarrow> walk d off k = take k (walk d off m)"
proof (induction k arbitrary: off m)
  case (Suc k)
  then obtain m' where "m = Suc m'" by (cases m) auto
  with Suc show ?case by (auto simp: walk_Suc split: option.splits)
qed (simp add: walk_0)

lemma walk_append: "\<exists>rs. walk (d @ e) off k = walk d off k @ rs"
proof (induction k arbitrary: off)
  case (Suc k)
  then show ?case
    using step_append [of d off _ e] by (cases "step d off") (auto simp: walk_Suc)
qed (simp add: walk_0)

lemma walk_encoded:
  assumes "list_all2 enc rs bss"
  shows "walk (p @ concat bss @ q) (length p) (length rs + k) = rs @ walk (p @ concat bss @ q)
    (length p + length (concat bss)) k"
  using assms
proof (induction rs bss arbitrary: p rule: list_all2_induct)
  case (Cons r rs bs bss)
  from Cons.hyps(1) step_enc [of r bs p "concat bss @ q"]
  show ?case using Cons.IH [of "p @ bs"] by (simp add: walk_Suc add.assoc)
qed simp

lemma walk_stored:
  "list_all2 enc rs bss \<Longrightarrow> walk (p @ concat bss @ q) (length p) (length rs) = rs"
  using walk_encoded [of rs bss p q 0] by (simp add: walk_0)

lemma walk_stored_end:
  assumes "list_all2 enc rs bss"
  shows "walk (p @ concat bss) (length p) (length rs + k) = rs"
  using walk_encoded [OF assms, of p "[]" k] minlen_pos by (simp add: walk_at_end)

end

section \<open>Block access\<close>

text \<open>
  The contract of a function that cuts filesystem block \<open>b\<close> out of an image: a whole block or nothing.
  The B+tree walk and the attribute reader each have their own such function.
\<close>

locale block_reader =
  fixes get :: "bytes \<Rightarrow> nat \<Rightarrow> u64 \<Rightarrow> bytes option"
  assumes get_spec: "length img \<le> USIZE_MAX \<Longrightarrow> get img bs b =
    (if unat b * bs + bs \<le> length img then Some (take bs (drop (unat b * bs) img)) else None)"
begin

lemma get_length: "length img \<le> USIZE_MAX \<Longrightarrow> get img bs b = Some blk \<Longrightarrow> length blk = bs"
  by (auto simp: get_spec split: if_splits)

lemma get_nth:
  "length img \<le> USIZE_MAX \<Longrightarrow> get img bs b = Some blk \<Longrightarrow> i < bs \<Longrightarrow> blk ! i = img ! (unat b * bs + i)"
  by (auto simp: get_spec split: if_splits)

lemma get_whole: "unat b * bs + bs \<le> length img \<Longrightarrow> length img \<le> USIZE_MAX \<Longrightarrow> \<exists>blk. get img bs b = Some blk"
  by (simp add: get_spec)

text \<open>A block is not changed by anything stored elsewhere, and a longer image only adds blocks.\<close>

lemma get_append:
  "length (img @ more) \<le> USIZE_MAX \<Longrightarrow> get img bs b = Some blk \<Longrightarrow> get (img @ more) bs b = Some blk"
  by (auto simp: get_spec split: if_splits)

end

end
