(* ===== verification/Xfs_Extent.thy ===== *)
theory Xfs_Extent
  imports Xfs_Superblock Xfs_Walk
begin

text \<open>
  Extent records and file assembly of \<open>core/src/extent.rs\<close>: the packed \<open>xfs_bmbt_rec\<close>, the loop that
  decodes an array of them, and the reconstruction of a file from its extents.

  The lemmas show that the bit-split of a record loses nothing (both round trips with the packed
  form), that the array loop is a counted walk in the sense of locale \<open>packed_walk\<close>, and that the
  assembled file holds, byte for byte, what the last extent covering that position says.
\<close>

section \<open>Packed extent records\<close>

definition STARTOFF_BITS :: nat where "STARTOFF_BITS = 54"
definition STARTBLOCK_HI_BITS :: nat where "STARTBLOCK_HI_BITS = 9"
definition STARTBLOCK_LO_BITS :: nat where "STARTBLOCK_LO_BITS = 43"
definition BLOCKCOUNT_BITS :: nat where "BLOCKCOUNT_BITS = 21"

lemmas bmbt_bits = STARTOFF_BITS_def STARTBLOCK_HI_BITS_def STARTBLOCK_LO_BITS_def BLOCKCOUNT_BITS_def

definition ext_low_mask :: "nat \<Rightarrow> u64" where
  "ext_low_mask n = (if 64 \<le> n then - 1 else push_bit n 1 - 1)"

record bmbt_rec =
  startoff :: u64
  startblock :: u64
  blockcount :: u64
  unwritten :: bool

definition unpack :: "bytes \<Rightarrow> bmbt_rec" where
  "unpack raw =
    (let l0 = be_word (take 8 raw);
         l1 = be_word (take 8 (drop 8 raw));
         unwr = (drop_bit 63 l0 AND 1 = (1 :: u64));
         soff = drop_bit STARTBLOCK_HI_BITS l0 AND ext_low_mask STARTOFF_BITS;
         startblock_hi = l0 AND ext_low_mask STARTBLOCK_HI_BITS;
         startblock_lo = drop_bit BLOCKCOUNT_BITS l1 AND ext_low_mask STARTBLOCK_LO_BITS;
         sblock = push_bit STARTBLOCK_LO_BITS startblock_hi OR startblock_lo;
         bcount = l1 AND ext_low_mask BLOCKCOUNT_BITS
     in \<lparr>startoff = soff, startblock = sblock, blockcount = bcount, unwritten = unwr\<rparr>)"

text \<open>\<open>for i in 0..n\<close> over 16-byte records that start at \<open>base\<close>, leaving at the first that does not fit.\<close>

fun recs_loop :: "nat \<Rightarrow> bytes \<Rightarrow> nat \<Rightarrow> nat \<Rightarrow> bmbt_rec list" where
  "recs_loop base data i 0 = []"
| "recs_loop base data i (Suc k) =
    (let start = base + i * 16 in
     case get_range data start (start + 16) of
       None \<Rightarrow> []
     | Some chunk \<Rightarrow> unpack chunk # recs_loop base data (Suc i) k)"

definition read_extents :: "bytes \<Rightarrow> u64 \<Rightarrow> bmbt_rec list" where
  "read_extents fork nextents = recs_loop 0 fork 0 (unat nextents)"

section \<open>File assembly\<close>

definition size_error :: "nat \<Rightarrow> nat \<Rightarrow> xfs_error" where
  "size_error need have' = Truncated ''extent-list file (size exceeds image)'' need have'"

text \<open>The body of the loop over the extents; \<open>out\<close> is the output buffer.\<close>

definition assemble_step :: "bytes \<Rightarrow> nat \<Rightarrow> nat \<Rightarrow> bytes \<Rightarrow> bmbt_rec \<Rightarrow> bytes" where
  "assemble_step img blocksize size' out r =
    (let dst_start = usat_mul (unat (startoff r)) blocksize;
         ext_bytes = usat_mul (unat (blockcount r)) blocksize;
         src_start = usat_mul (unat (startblock r)) blocksize;
         dst_end = min (usat_add dst_start ext_bytes) size'
     in if dst_end \<le> dst_start then out
        else
          let want = dst_end - dst_start;
              src_end = usat_add src_start want
          in case get_range img src_start src_end of
               None \<Rightarrow> out
             | Some src \<Rightarrow> (case get_range out dst_start dst_end of
                 None \<Rightarrow> out
               | Some dst \<Rightarrow> overwrite out dst_start src))"

text \<open>\<open>usize::try_from\<close> of the size cannot fail on a 64-bit target.\<close>

definition assemble_extents :: "bytes \<Rightarrow> superblock \<Rightarrow> bmbt_rec list \<Rightarrow> u64 \<Rightarrow> bytes xfs_result" where
  "assemble_extents img sb recs sz =
    (let size' = unat sz in
     if length img < size' then Inl (size_error size' (length img))
     else
       let blocksize = unat (sb_blocksize sb)
       in Inr (foldl (assemble_step img blocksize size') (replicate size' 0) recs))"

definition read_file_from_fork :: "bytes \<Rightarrow> superblock \<Rightarrow> bytes \<Rightarrow> u64 \<Rightarrow> u64 \<Rightarrow> bytes xfs_result" where
  "read_file_from_fork img sb fork nextents sz =
    (let recs = read_extents fork nextents in assemble_extents img sb recs sz)"

section \<open>The bit split\<close>

text \<open>The packed form, field by field on numbers.\<close>

definition rec_l0 :: "bmbt_rec \<Rightarrow> nat" where
  "rec_l0 r = (if unwritten r then 2 ^ 63 else 0) + unat (startoff r) * 2 ^ 9
     + unat (startblock r) div 2 ^ 43"

definition rec_l1 :: "bmbt_rec \<Rightarrow> nat" where
  "rec_l1 r = unat (startblock r) mod 2 ^ 43 * 2 ^ 21 + unat (blockcount r)"

definition pack :: "bmbt_rec \<Rightarrow> bytes" where
  "pack r = be_bytes 8 (rec_l0 r) @ be_bytes 8 (rec_l1 r)"

definition rec_ok :: "bmbt_rec \<Rightarrow> bool" where
  "rec_ok r \<longleftrightarrow> unat (startoff r) < 2 ^ 54 \<and> unat (startblock r) < 2 ^ 52 \<and> unat (blockcount r) < 2 ^ 21"

lemma length_pack [simp]: "length (pack r) = 16"
  by (simp add: pack_def)

lemma ext_low_mask_eq: "ext_low_mask n = low_mask n"
  by (simp add: ext_low_mask_def low_mask_def)

lemma unat_and_ext_mask: "unat (v AND ext_low_mask b) = unat v mod 2 ^ b"
  by (simp add: ext_low_mask_eq unat_and_low_mask)

lemma unat_drop_u64: "unat (drop_bit b (v :: u64)) = unat v div 2 ^ b"
  by (rule trans [OF unat_drop_bit_eq drop_bit_eq_div])

lemma unat_push_or:
  fixes hi lo :: u64
  assumes "unat lo < 2 ^ n" and "unat hi * 2 ^ n < 2 ^ 64"
  shows "unat (push_bit n hi OR lo) = unat hi * 2 ^ n + unat lo"
proof -
  have "unat (push_bit n hi OR lo) = take_bit 64 (push_bit n (unat hi)) OR unat lo"
    by (simp add: unsigned_or_eq unsigned_push_bit_eq)
  also have "take_bit 64 (push_bit n (unat hi)) = push_bit n (unat hi)"
    using assms(2) by (simp add: take_bit_nat_eq_self push_bit_eq_mult)
  also have "push_bit n (unat hi) OR unat lo = push_bit n (unat hi) + unat lo"
  proof (rule disjunctive_add_eq_or [symmetric])
    have "take_bit n (unat lo) = unat lo" using assms(1) by (simp add: take_bit_nat_eq_self)
    then have "\<not> bit (unat lo) k" if "n \<le> k" for k
      using that by (metis bit_take_bit_iff not_le)
    then show "push_bit n (unat hi) AND unat lo = 0"
      by (auto simp: bit_eq_iff bit_simps)
  qed
  finally show ?thesis by (simp add: push_bit_eq_mult)
qed

lemma and_one_eq: "(v AND 1 = (1 :: u64)) \<longleftrightarrow> odd (unat v)"
proof -
  have "ext_low_mask 1 = 1" by (simp add: ext_low_mask_def)
  then have "unat (v AND 1) = unat v mod 2" using unat_and_ext_mask [of v 1] by simp
  moreover have "v AND 1 = 1 \<longleftrightarrow> unat (v AND 1) = 1" by (simp add: word_unat_eq_iff)
  ultimately show ?thesis by (simp add: odd_iff_mod_2_eq_one)
qed

lemma unpack_fields:
  fixes raw :: bytes
  defines "l0 \<equiv> be_nat (take 8 raw)" and "l1 \<equiv> be_nat (take 8 (drop 8 raw))"
  assumes "length raw = 16"
  shows "unat (startoff (unpack raw)) = l0 div 2 ^ 9 mod 2 ^ 54"
    and "unat (startblock (unpack raw)) = l0 mod 2 ^ 9 * 2 ^ 43 + l1 div 2 ^ 21"
    and "unat (blockcount (unpack raw)) = l1 mod 2 ^ 21"
    and "unwritten (unpack raw) \<longleftrightarrow> odd (l0 div 2 ^ 63)"
proof -
  have l: "l0 = unat (be_word (take 8 raw) :: u64)" "l1 = unat (be_word (take 8 (drop 8 raw)) :: u64)"
    using assms by (simp_all add: unat_be_word)
  have lt: "l0 < 2 ^ 64" "l1 < 2 ^ 64" unfolding l by (rule unat_u64_less)+
  have lo: "l1 div 2 ^ 21 < 2 ^ 43"
    using lt(2) by (simp add: less_mult_imp_div_less)
  show "unat (startoff (unpack raw)) = l0 div 2 ^ 9 mod 2 ^ 54"
    by (simp only: unpack_def Let_def bmbt_rec.simps unat_and_ext_mask unat_drop_u64 bmbt_bits l)
  show "unat (blockcount (unpack raw)) = l1 mod 2 ^ 21"
    by (simp only: unpack_def Let_def bmbt_rec.simps unat_and_ext_mask bmbt_bits l)
  show "unwritten (unpack raw) \<longleftrightarrow> odd (l0 div 2 ^ 63)"
    by (simp only: unpack_def Let_def bmbt_rec.simps and_one_eq unat_drop_u64 l)
  have "l0 mod 2 ^ 9 < 2 ^ 9" by simp
  then have "l0 mod 2 ^ 9 * 2 ^ 43 < 2 ^ 64" by simp
  then show "unat (startblock (unpack raw)) = l0 mod 2 ^ 9 * 2 ^ 43 + l1 div 2 ^ 21"
    unfolding unpack_def Let_def bmbt_rec.simps bmbt_bits l
    by (subst unat_push_or)
      (simp_all only: unat_and_ext_mask unat_drop_u64 lo [unfolded l] mod_less mod_less_divisor zero_less_power
        zero_less_numeral)
qed

lemma rec_ok_unpack:
  assumes "length raw = 16"
  shows "rec_ok (unpack raw)"
proof -
  have "be_nat (take 8 (drop 8 raw)) < 2 ^ 64"
    using be_nat_less [of "take 8 (drop 8 raw)"] assms by simp
  then have "be_nat (take 8 (drop 8 raw)) div 2 ^ 21 < 2 ^ 43"
    by (simp add: less_mult_imp_div_less)
  moreover have "be_nat (take 8 raw) mod 2 ^ 9 < 2 ^ 9" by simp
  ultimately have "be_nat (take 8 raw) mod 2 ^ 9 * 2 ^ 43 + be_nat (take 8 (drop 8 raw)) div 2 ^ 21 < 2 ^ 52"
    by simp
  then show ?thesis
    using assms by (simp only: rec_ok_def unpack_fields) simp
qed

lemma three_digits:
  fixes n :: nat
  assumes "c = a + b"
  shows "n = n div 2 ^ c * 2 ^ c + n div 2 ^ a mod 2 ^ b * 2 ^ a + n mod 2 ^ a"
proof -
  have "n div 2 ^ a = n div 2 ^ c * 2 ^ b + n div 2 ^ a mod 2 ^ b"
    using div_mult_mod_eq [of "n div 2 ^ a" "2 ^ b"] by (simp add: assms power_add div_mult2_eq)
  then have "n div 2 ^ a * 2 ^ a = (n div 2 ^ c * 2 ^ b + n div 2 ^ a mod 2 ^ b) * 2 ^ a"
    by (rule arg_cong)
  also have "\<dots> = n div 2 ^ c * 2 ^ c + n div 2 ^ a mod 2 ^ b * 2 ^ a"
    by (simp only: assms power_add add_mult_distrib add_mult_distrib2 ac_simps)
  finally show ?thesis using div_mult_mod_eq [of n "2 ^ a"] by linarith
qed

lemma pack_unpack:
  assumes "length raw = 16"
  shows "pack (unpack raw) = raw"
proof -
  let ?l0 = "be_nat (take 8 raw)" and ?l1 = "be_nat (take 8 (drop 8 raw))"
  have len: "length (take 8 raw) = 8" "length (take 8 (drop 8 raw)) = 8" using assms by simp_all
  have "?l1 < 2 ^ 64" using be_nat_less [of "take 8 (drop 8 raw)"] len by simp
  then have lo: "?l1 div 2 ^ 21 < 2 ^ 43" by (simp add: less_mult_imp_div_less)
  have "?l0 < 2 ^ 64" using be_nat_less [of "take 8 raw"] len by simp
  then have top: "?l0 div 2 ^ 63 < 2" by (simp add: less_mult_imp_div_less)
  have "?l0 = ?l0 div 2 ^ 63 * 2 ^ 63 + ?l0 div 2 ^ 9 mod 2 ^ 54 * 2 ^ 9 + ?l0 mod 2 ^ 9"
    by (rule three_digits) simp
  moreover have "?l0 div 2 ^ 63 = (if odd (?l0 div 2 ^ 63) then 1 else 0)"
    using top by (cases "?l0 div 2 ^ 63" rule: nat.exhaust) (auto simp: less_Suc_eq numeral_2_eq_2)
  ultimately have "rec_l0 (unpack raw) = ?l0"
    using lo unfolding rec_l0_def unpack_fields [OF assms]
    by (auto split: if_splits)
  moreover have "rec_l1 (unpack raw) = ?l1"
    using lo unfolding rec_l1_def unpack_fields [OF assms] by simp
  ultimately have "pack (unpack raw) = take 8 raw @ take 8 (drop 8 raw)"
    using be_bytes_be_nat [of "take 8 raw"] be_bytes_be_nat [of "take 8 (drop 8 raw)"] len
    by (simp add: pack_def)
  then show ?thesis using assms by (metis append_take_drop_id drop_drop length_drop numeral_plus_numeral
      add_diff_cancel_right' num.size take_all_iff le_refl numeral_Bit0)
qed

lemma unpack_pack:
  assumes "rec_ok r"
  shows "unpack (pack r) = r"
proof -
  let ?so = "unat (startoff r)" and ?sb = "unat (startblock r)" and ?bc = "unat (blockcount r)"
  have lt: "?so < 2 ^ 54" "?sb < 2 ^ 52" "?bc < 2 ^ 21"
    using assms by (simp_all add: rec_ok_def)
  have hi: "?sb div 2 ^ 43 < 2 ^ 9" using lt(2) by (simp add: less_mult_imp_div_less)
  have low: "?sb mod 2 ^ 43 < 2 ^ 43" by simp
  have "rec_l0 r < 2 ^ 64" using lt(1) hi by (simp add: rec_l0_def)
  moreover have "rec_l1 r < 2 ^ 64" using lt(3) low by (simp add: rec_l1_def)
  ultimately have l: "be_nat (take 8 (pack r)) = rec_l0 r" "be_nat (take 8 (drop 8 (pack r))) = rec_l1 r"
    by (simp_all add: pack_def be_nat_be_bytes)
  have l0: "rec_l0 r = ((if unwritten r then 2 ^ 54 else 0) + ?so) * 2 ^ 9 + ?sb div 2 ^ 43"
    by (simp add: rec_l0_def)
  have d: "rec_l0 r div 2 ^ 9 = (if unwritten r then 2 ^ 54 else 0) + ?so" "rec_l0 r mod 2 ^ 9 = ?sb div 2 ^ 43"
    unfolding l0 by (rule digit_split [OF hi])+
  have d': "(if unwritten r then 2 ^ 54 else 0) + ?so = (if unwritten r then 1 else 0) * 2 ^ 54 + ?so"
    by simp
  have "rec_l0 r div 2 ^ 63 = rec_l0 r div 2 ^ 9 div 2 ^ 54" by (simp add: div_mult2_eq [symmetric])
  then have top: "odd (rec_l0 r div 2 ^ 63) = unwritten r"
    unfolding d d' digit_split(1) [OF lt(1)] by simp
  have so: "rec_l0 r div 2 ^ 9 mod 2 ^ 54 = ?so"
    unfolding d d' by (rule digit_split(2) [OF lt(1)])
  have l1: "rec_l1 r div 2 ^ 21 = ?sb mod 2 ^ 43" "rec_l1 r mod 2 ^ 21 = ?bc"
    using lt(3) by (simp_all add: rec_l1_def)
  note f = unpack_fields [of "pack r", simplified l length_pack, OF refl]
  have "startoff (unpack (pack r)) = startoff r"
    using f(1) so by (simp only: word_unat_eq_iff)
  moreover have "startblock (unpack (pack r)) = startblock r"
    using f(2) d(2) l1(1) div_mult_mod_eq [of ?sb "2 ^ 43"] by (simp only: word_unat_eq_iff)
  moreover have "blockcount (unpack (pack r)) = blockcount r"
    using f(3) l1(2) by (simp only: word_unat_eq_iff)
  moreover have "unwritten (unpack (pack r)) = unwritten r"
    using f(4) top by simp
  ultimately show ?thesis by simp
qed

section \<open>The record array\<close>

lemma recs_loop_Suc: "recs_loop base data (Suc i) k = recs_loop (base + 16) data i k"
proof (induction k arbitrary: i)
  case (Suc k)
  have "base + Suc i * 16 = base + 16 + i * 16" by simp
  then show ?case using Suc by (simp only: recs_loop.simps Let_def)
qed simp

definition bmbt_step :: "bytes \<Rightarrow> nat \<Rightarrow> (bmbt_rec \<times> nat) option" where
  "bmbt_step data off = map_option (\<lambda>chunk. (unpack chunk, off + 16)) (get_range data off (off + 16))"

definition bmbt_stored :: "bmbt_rec \<Rightarrow> bytes \<Rightarrow> bool" where
  "bmbt_stored r bs \<longleftrightarrow> length bs = 16 \<and> r = unpack bs"

interpretation recs: packed_walk bmbt_step "\<lambda>data off k. recs_loop off data 0 k" bmbt_stored 16
proof unfold_locales
  fix p bs q r
  assume "bmbt_stored r bs"
  then show "bmbt_step (p @ bs @ q) (length p) = Some (r, length p + length bs)"
    by (simp add: bmbt_step_def bmbt_stored_def get_range_mid)
qed (auto simp: bmbt_step_def bmbt_stored_def Let_def recs_loop_Suc get_range_def split: if_splits)

lemma bmbt_stored_pack: "rec_ok r \<Longrightarrow> bmbt_stored r (pack r)"
  by (simp add: bmbt_stored_def unpack_pack)

lemma packs_stored: "list_all rec_ok rs \<Longrightarrow> list_all2 bmbt_stored rs (map pack rs)"
  by (induction rs) (auto simp: bmbt_stored_pack)

lemma recs_loop_ok: "r \<in> set (recs_loop base data i k) \<Longrightarrow> rec_ok r"
  by (induction k arbitrary: i)
    (auto simp: Let_def rec_ok_unpack dest: get_range_length [OF sym] split: option.splits)

section \<open>What an assembled file holds\<close>

text \<open>
  With exact arithmetic: the extent covers position \<open>p\<close> of a file of \<open>sz\<close> bytes when \<open>p\<close> lies in its
  logical range and the image (of \<open>n\<close> bytes) holds the whole physical range, clipped to the file size.
\<close>

definition ext_covers :: "nat \<Rightarrow> nat \<Rightarrow> nat \<Rightarrow> bmbt_rec \<Rightarrow> nat \<Rightarrow> bool" where
  "ext_covers n bs sz r p \<longleftrightarrow>
     (let a = unat (startoff r) * bs; e = unat (blockcount r) * bs; s = unat (startblock r) * bs
      in a \<le> p \<and> p < a + e \<and> s + (min (a + e) sz - a) \<le> n)"

definition ext_byte :: "bytes \<Rightarrow> nat \<Rightarrow> bmbt_rec \<Rightarrow> nat \<Rightarrow> u8" where
  "ext_byte img bs r p = img ! (unat (startblock r) * bs + (p - unat (startoff r) * bs))"

text \<open>Where extents overlap the later one in the list wins; a hole is zero.\<close>

definition file_byte :: "bytes \<Rightarrow> nat \<Rightarrow> nat \<Rightarrow> bmbt_rec list \<Rightarrow> nat \<Rightarrow> u8" where
  "file_byte img bs sz recs p =
     (let rs = filter (\<lambda>r. ext_covers (length img) bs sz r p) recs
      in if rs = [] then 0 else ext_byte img bs (last rs) p)"

lemma file_byte_Nil [simp]: "file_byte img bs sz [] p = 0"
  by (simp add: file_byte_def)

lemma file_byte_snoc:
  "file_byte img bs sz (recs @ [r]) p =
     (if ext_covers (length img) bs sz r p then ext_byte img bs r p else file_byte img bs sz recs p)"
  by (simp add: file_byte_def Let_def)

lemma get_range_saturated:
  assumes "length xs < USIZE_MAX"
  shows "get_range xs (min s USIZE_MAX) (usat_add (min s USIZE_MAX) w) =
    (if s + w \<le> length xs then Some (take w (drop s xs)) else None)"
  using assms by (auto simp: get_range_def usat_add_def min_def)

lemma assemble_step_nth:
  assumes img: "sz \<le> length img" "length img < USIZE_MAX" and out: "length out = sz"
  shows "length (assemble_step img bs sz out r) = sz"
    and "p < sz \<Longrightarrow> assemble_step img bs sz out r ! p =
      (if ext_covers (length img) bs sz r p then ext_byte img bs r p else out ! p)"
proof -
  let ?a = "unat (startoff r) * bs" and ?e = "unat (blockcount r) * bs" and ?s = "unat (startblock r) * bs"
  let ?top = "min (?a + ?e) sz"
  have step: "assemble_step img bs sz out r =
    (if ?top \<le> ?a \<or> length img < ?s + (?top - ?a) then out
     else overwrite out ?a (take (?top - ?a) (drop ?s img)))"
  proof (cases "sz \<le> ?a")
    case True
    then have "sz \<le> usat_mul (unat (startoff r)) bs" using img by (simp add: usat_mul_def)
    then show ?thesis using True by (simp add: assemble_step_def Let_def min_le_iff_disj)
  next
    case False
    then have a: "usat_mul (unat (startoff r)) bs = ?a" using img by (simp add: usat_mul_def)
    have e: "min (usat_add ?a (usat_mul (unat (blockcount r)) bs)) sz = ?top"
      using img by (simp add: usat_add_def usat_mul_def min_def)
    have s: "usat_mul (unat (startblock r)) bs = min ?s USIZE_MAX" by (simp add: usat_mul_def)
    show ?thesis
      unfolding assemble_step_def Let_def a e s get_range_saturated [OF img(2)]
      using out by (simp add: get_range_def)
  qed
  show "length (assemble_step img bs sz out r) = sz"
    unfolding step using out by (auto simp: overwrite_def)
  assume "p < sz"
  then show "assemble_step img bs sz out r ! p =
      (if ext_covers (length img) bs sz r p then ext_byte img bs r p else out ! p)"
    unfolding step using out by (auto simp: overwrite_nth ext_covers_def ext_byte_def Let_def)
qed

lemma assemble_fold:
  assumes "sz \<le> length img" "length img < USIZE_MAX"
  defines "out \<equiv> (\<lambda>bs recs. foldl (assemble_step img bs sz) (replicate sz 0) recs)"
  shows "length (out bs recs) = sz \<and> (\<forall>p < sz. out bs recs ! p = file_byte img bs sz recs p)"
proof (induction recs rule: rev_induct)
  case (snoc r recs)
  then show ?case
    using assemble_step_nth [OF assms(1,2), where out = "out bs recs" and bs = bs and r = r] by (simp add: out_def file_byte_snoc)
qed (simp add: out_def)

lemma assemble_ok:
  assumes "unat sz \<le> length img" and "length img < USIZE_MAX"
  shows "assemble_extents img sb recs sz =
    Inr (map (file_byte img (unat (sb_blocksize sb)) (unat sz) recs) [0..<unat sz])"
  using assms assemble_fold [OF assms, of "unat (sb_blocksize sb)" recs]
  by (auto simp: assemble_extents_def Let_def intro!: nth_equalityI)

lemma assemble_too_big:
  "length img < unat sz \<Longrightarrow> assemble_extents img sb recs sz = Inl (size_error (unat sz) (length img))"
  by (simp add: assemble_extents_def)

text \<open>An unmapped position is zero, wherever no extent covers it.\<close>

lemma file_byte_hole: "(\<forall>r \<in> set recs. \<not> ext_covers (length img) bs sz r p) \<Longrightarrow> file_byte img bs sz recs p = 0"
  by (simp add: file_byte_def filter_False)

text \<open>With disjoint logical ranges the order of the extents does not matter.\<close>

definition recs_disjoint :: "bmbt_rec list \<Rightarrow> bool" where
  "recs_disjoint recs \<longleftrightarrow> (\<forall>r \<in> set recs. \<forall>s \<in> set recs. r \<noteq> s \<longrightarrow>
     unat (startoff r) + unat (blockcount r) \<le> unat (startoff s) \<or>
     unat (startoff s) + unat (blockcount s) \<le> unat (startoff r))"

lemma ext_covers_unique:
  assumes "recs_disjoint recs" "r \<in> set recs" "s \<in> set recs"
    and cov: "ext_covers n bs sz r p" "ext_covers n bs sz s p"
  shows "r = s"
proof (rule ccontr)
  assume "r \<noteq> s"
  then have "unat (startoff r) + unat (blockcount r) \<le> unat (startoff s) \<or>
     unat (startoff s) + unat (blockcount s) \<le> unat (startoff r)"
    using assms(1-3) by (auto simp: recs_disjoint_def)
  then have "(unat (startoff r) + unat (blockcount r)) * bs \<le> unat (startoff s) * bs \<or>
     (unat (startoff s) + unat (blockcount s)) * bs \<le> unat (startoff r) * bs"
    using mult_right_mono [of _ _ bs] by blast
  then show False using cov by (auto simp: ext_covers_def Let_def add_mult_distrib)
qed

lemma file_byte_covered:
  assumes "recs_disjoint recs" "r \<in> set recs" "ext_covers (length img) bs sz r p"
  shows "file_byte img bs sz recs p = ext_byte img bs r p"
proof -
  let ?f = "filter (\<lambda>r. ext_covers (length img) bs sz r p) recs"
  have mem: "r \<in> set ?f" using assms by simp
  then have ne: "?f \<noteq> []" by (auto simp only: list.set)
  then have "last ?f \<in> set ?f" by (rule last_in_set)
  then have "last ?f = r" using ext_covers_unique [OF assms(1)] assms(2,3) by auto
  with ne show ?thesis by (simp add: file_byte_def Let_def)
qed

section \<open>Properties\<close>

text \<open>
  C27: Unpacking an extent record loses nothing: the four fields lie in their on-disk widths and
  packing them again gives the same sixteen bytes.
\<close>

theorem bmbt_unpack_lossless:
  assumes "length raw = 16"
  shows "rec_ok (unpack raw) \<and> pack (unpack raw) = raw"
  using assms by (simp add: rec_ok_unpack pack_unpack)

theorem bmbt_unpack_lossless_witness:
  "rec_ok (unpack (0x80 # replicate 14 0 @ [5])) \<and> pack (unpack (0x80 # replicate 14 0 @ [5])) = 0x80 # replicate 14 0 @ [5]"
  by (rule bmbt_unpack_lossless) simp

text \<open>
  Extents packed one after the other are read back exactly, and a record count larger than the
  fork holds yields these records and nothing more.
\<close>

lemma read_extents_roundtrip:
  assumes "list_all rec_ok rs" and "length rs \<le> unat nextents"
  shows "read_extents (concat (map pack rs)) nextents = rs"
  using recs.walk_stored_end [OF packs_stored [OF assms(1)], of "[]" "unat nextents - length rs"] assms(2)
  by (simp add: read_extents_def)

text \<open>
  A hostile extent count is harmless: at most one record per sixteen bytes of fork is produced,
  every record is well formed, and bytes beyond a cut only add records at the end.
\<close>

lemma read_extents_bounded:
  "length (read_extents fork nextents) \<le> unat nextents \<and>
   length (read_extents fork nextents) * 16 \<le> length fork \<and>
   list_all rec_ok (read_extents fork nextents) \<and>
   (\<exists>rs. read_extents (fork @ rest) nextents = read_extents fork nextents @ rs)"
  using recs.length_walk [where d = fork and off = 0 and k = "unat nextents"] recs.length_walk_bytes [where d = fork and off = 0 and k = "unat nextents"]
    recs.walk_append [where d = fork and e = rest and off = 0 and k = "unat nextents"]
  by (auto simp: read_extents_def list_all_iff recs_loop_ok)

text \<open>
  C5: Assembling a file fails exactly when its size exceeds the image, and otherwise yields exactly
  \<open>size\<close> bytes, each that of the last extent that covers its position, zero in a hole.
\<close>

theorem assemble_extents_spec:
  assumes "length img < USIZE_MAX"
  shows "assemble_extents img sb recs sz =
    (if length img < unat sz then Inl (size_error (unat sz) (length img))
     else Inr (map (file_byte img (unat (sb_blocksize sb)) (unat sz) recs) [0..<unat sz]))"
  using assemble_ok [OF _ assms, of sz sb recs] assemble_too_big [of img sz sb recs] by simp

theorem assemble_extents_spec_witness:
  "assemble_extents [1, 2] (undefined\<lparr>sb_blocksize := 1\<rparr>)
      [\<lparr>startoff = 0, startblock = 1, blockcount = 1, unwritten = False\<rparr>] 2
    = Inr [2, 0]"
  using assemble_extents_spec [of "[1, 2]" "undefined\<lparr>sb_blocksize := 1\<rparr>"
      "[\<lparr>startoff = 0, startblock = 1, blockcount = 1, unwritten = False\<rparr>]" 2]
  by (simp add: USIZE_MAX_def upt_rec file_byte_def ext_covers_def ext_byte_def Let_def)

end
