(* ===== verification/Xfs_Btree.thy ===== *)
theory Xfs_Btree
  imports Xfs_Extent "HOL-Library.Sublist"
begin

text \<open>
  The bmap B+tree walk of \<open>core/src/btree.rs\<close>, and \<open>Superblock::read_file\<close> of \<open>core/src/extent.rs\<close>,
  which dispatches between the inline extent array and the tree.

  The walk recurses on block pointers read from the image, so it terminates only because of its
  pointer budget. The model counts stack frames: the first argument of \<open>walk_block\<close> is the number of
  frames left, and \<open>None\<close> means that they ran out. The lemmas show that more frames than the budget
  always suffice, that a tree whose levels decrease needs one frame per level, that a block pointing
  at itself needs as many frames as the budget allows, that the walk of a stored tree returns the
  records of its leaves in order, and how much it can return at most.
\<close>

section \<open>Constants\<close>

definition XFS_BMAP_MAGIC :: u32 where "XFS_BMAP_MAGIC = 0x424d4150"
definition XFS_BMAP_CRC_MAGIC :: u32 where "XFS_BMAP_CRC_MAGIC = 0x424d4133"
definition BMBT_BLOCK_LEN :: nat where "BMBT_BLOCK_LEN = 24"
definition BMBT_BLOCK_CRC_LEN :: nat where "BMBT_BLOCK_CRC_LEN = 72"
definition KEY_LEN :: nat where "KEY_LEN = 8"
definition PTR_LEN :: nat where "PTR_LEN = 8"
definition REC_LEN :: nat where "REC_LEN = 16"
definition BMDR_HDR_LEN :: nat where "BMDR_HDR_LEN = 4"
definition MAX_BMBT_LEVELS :: u16 where "MAX_BMBT_LEVELS = 32"
definition MAX_BMBT_PTRS :: nat where "MAX_BMBT_PTRS = 2 ^ 20"

lemmas bmbt_len_defs = BMBT_BLOCK_LEN_def BMBT_BLOCK_CRC_LEN_def KEY_LEN_def PTR_LEN_def REC_LEN_def
  BMDR_HDR_LEN_def

section \<open>Blocks\<close>

definition verify_bmbt_block_crc :: "(bytes \<Rightarrow> u32) \<Rightarrow> bytes \<Rightarrow> bool option" where
  "verify_bmbt_block_crc crcf block =
     (if be_u32 block 0 = XFS_BMAP_CRC_MAGIC then Some (verify_crc crcf block BMBT_CRC_OFF) else None)"

definition block_slice :: "bytes \<Rightarrow> u64 \<Rightarrow> nat \<Rightarrow> bytes option" where
  "block_slice img fsblock blocksize =
     Option.bind (uchecked_mul (unat fsblock) blocksize) (\<lambda>start.
     Option.bind (uchecked_add start blocksize) (\<lambda>end'.
     get_range img start end'))"

interpretation bblk: block_reader "\<lambda>img bs b. block_slice img b bs"
  by unfold_locales (auto simp: block_slice_def uchecked_mul_def uchecked_add_def get_range_def)

text \<open>The loop body is that of \<open>recs_loop\<close>: 16-byte records from \<open>hdr\<close>, up to the block end.\<close>

definition collect_leaf_recs :: "bytes \<Rightarrow> nat \<Rightarrow> nat \<Rightarrow> bmbt_rec list \<Rightarrow> bmbt_rec list" where
  "collect_leaf_recs block hdr numrecs out = out @ recs_loop hdr block 0 numrecs"

text \<open>The length of a block header, by its magic: \<open>None\<close> for a block that is not a bmbt block.\<close>

definition bmbt_hdr :: "u32 \<Rightarrow> nat option" where
  "bmbt_hdr magic =
     (if magic = XFS_BMAP_CRC_MAGIC then Some BMBT_BLOCK_CRC_LEN
      else if magic = XFS_BMAP_MAGIC then Some BMBT_BLOCK_LEN else None)"

section \<open>The walk\<close>

type_synonym walk_state = "bmbt_rec list \<times> nat"

function (sequential) walk_block :: "nat \<Rightarrow> bytes \<Rightarrow> superblock \<Rightarrow> u64 \<Rightarrow> u16 \<Rightarrow> walk_state \<Rightarrow> walk_state option"
and walk_children :: "nat \<Rightarrow> bytes \<Rightarrow> superblock \<Rightarrow> bytes \<Rightarrow> u16 \<Rightarrow> nat \<Rightarrow> nat \<Rightarrow> nat \<Rightarrow> walk_state
  \<Rightarrow> walk_state option" where
  "walk_block 0 img sb fsblock expected_level s = None"
| "walk_block (Suc frames) img sb fsblock expected_level (out, budget) =
    (if MAX_BMBT_LEVELS \<le> expected_level then Some (out, budget)
     else
       let blocksize = unat (sb_blocksize sb) in
       case block_slice img fsblock blocksize of
         None \<Rightarrow> Some (out, budget)
       | Some block \<Rightarrow>
         (case bmbt_hdr (be_u32 block 0) of
            None \<Rightarrow> Some (out, budget)
          | Some hdr \<Rightarrow>
            let level = be_u16 block 4;
                numrecs = unat (be_u16 block 6)
            in if level = 0 then Some (collect_leaf_recs block hdr numrecs out, budget)
               else
                 let avail = blocksize - hdr;
                     maxrecs = avail div (KEY_LEN + PTR_LEN);
                     ptr_area = hdr + maxrecs * KEY_LEN;
                     valid = min numrecs maxrecs
                 in walk_children frames img sb block level ptr_area 0 valid (out, budget)))"
| "walk_children frames img sb block level ptr_area i 0 s = Some s"
| "walk_children frames img sb block level ptr_area i (Suc k) (out, budget) =
    (if budget = 0 then Some (out, budget)
     else
       let off = ptr_area + i * PTR_LEN in
       if length block < off + PTR_LEN then Some (out, budget)
       else
         let child = be_u64 block off in
         case walk_block frames img sb child (wsat_sub level 1) (out, budget - 1) of
           None \<Rightarrow> None
         | Some s' \<Rightarrow> walk_children frames img sb block level ptr_area (Suc i) k s')"
  by pat_completeness auto

termination
  by (relation "measures [case_sum (\<lambda>x. fst x) (\<lambda>x. fst x),
      case_sum (\<lambda>x. 0) (\<lambda>(_, _, _, _, _, _, _, k, _). k)]") auto

fun root_ptrs_loop :: "bytes \<Rightarrow> nat \<Rightarrow> nat \<Rightarrow> nat \<Rightarrow> u64 list" where
  "root_ptrs_loop fork ptr_area i 0 = []"
| "root_ptrs_loop fork ptr_area i (Suc k) =
    (let off = ptr_area + i * PTR_LEN in
     if length fork < off + PTR_LEN then []
     else be_u64 fork off # root_ptrs_loop fork ptr_area (Suc i) k)"

definition read_root_ptrs :: "bytes \<Rightarrow> nat \<Rightarrow> nat \<Rightarrow> u64 list" where
  "read_root_ptrs fork numrecs dmaxrecs =
    (let ptr_area = BMDR_HDR_LEN + dmaxrecs * KEY_LEN;
         valid = min numrecs dmaxrecs
     in root_ptrs_loop fork ptr_area 0 valid)"

fun walk_roots :: "nat \<Rightarrow> bytes \<Rightarrow> superblock \<Rightarrow> u16 \<Rightarrow> u64 list \<Rightarrow> walk_state \<Rightarrow> walk_state option" where
  "walk_roots frames img sb level [] s = Some s"
| "walk_roots frames img sb level (p # ptrs) (out, budget) =
    (if budget = 0 then Some (out, budget)
     else
       case walk_block frames img sb p (wsat_sub level 1) (out, budget - 1) of
         None \<Rightarrow> None
       | Some s' \<Rightarrow> walk_roots frames img sb level ptrs s')"

definition walk_btree :: "nat \<Rightarrow> bytes \<Rightarrow> superblock \<Rightarrow> bytes \<Rightarrow> bmbt_rec list xfs_result option" where
  "walk_btree frames img sb root_fork =
    (let level = be_u16 root_fork 0;
         numrecs = unat (be_u16 root_fork 2);
         avail = length root_fork - BMDR_HDR_LEN;
         dmaxrecs = avail div (KEY_LEN + PTR_LEN);
         ptrs = read_root_ptrs root_fork numrecs dmaxrecs
     in map_option (\<lambda>(out, budget). Inr out) (walk_roots frames img sb level ptrs ([], MAX_BMBT_PTRS)))"

text \<open>
  The code's function, with the frames the walk can need at most: \<open>walk_btree_total\<close> below shows that
  the \<open>None\<close> branch is never taken.
\<close>

definition read_btree_extents :: "bytes \<Rightarrow> superblock \<Rightarrow> bytes \<Rightarrow> bmbt_rec list xfs_result" where
  "read_btree_extents img sb root_fork =
     (case walk_btree MAX_BMBT_PTRS img sb root_fork of Some r \<Rightarrow> r | None \<Rightarrow> Inr [])"

definition read_file :: "superblock \<Rightarrow> bytes \<Rightarrow> inode \<Rightarrow> bytes xfs_result" where
  "read_file sb img ino =
    (case di_format ino of
       Extents \<Rightarrow> read_file_from_fork img sb (di_data_fork ino) (di_nextents ino) (di_size ino)
     | Btree \<Rightarrow> and_then (read_btree_extents img sb (di_data_fork ino))
                 (\<lambda>recs. assemble_extents img sb recs (di_size ino))
     | _ \<Rightarrow> assemble_extents img sb [] (di_size ino))"

section \<open>Unfolding and induction\<close>

text \<open>The block a pointer leads to, when it is a bmbt block: its bytes, header length, level, count.\<close>

definition bmbt_node :: "bytes \<Rightarrow> superblock \<Rightarrow> u64 \<Rightarrow> (bytes \<times> nat \<times> u16 \<times> nat) option" where
  "bmbt_node img sb f =
     Option.bind (block_slice img f (unat (sb_blocksize sb))) (\<lambda>block.
     map_option (\<lambda>hdr. (block, hdr, be_u16 block 4, unat (be_u16 block 6))) (bmbt_hdr (be_u32 block 0)))"

definition node_maxrecs :: "superblock \<Rightarrow> nat \<Rightarrow> nat" where
  "node_maxrecs sb hdr = (unat (sb_blocksize sb) - hdr) div 16"

lemma walk_block_Suc:
  "walk_block (Suc n) img sb f e s =
    (if MAX_BMBT_LEVELS \<le> e then Some s
     else case bmbt_node img sb f of
       None \<Rightarrow> Some s
     | Some (block, hdr, level, numrecs) \<Rightarrow>
         if level = 0 then Some (fst s @ recs_loop hdr block 0 numrecs, snd s)
         else walk_children n img sb block level (hdr + node_maxrecs sb hdr * 8) 0
                (min numrecs (node_maxrecs sb hdr)) s)"
  by (cases s) (auto simp: bmbt_node_def Let_def collect_leaf_recs_def node_maxrecs_def KEY_LEN_def
      PTR_LEN_def split: option.splits)

lemma walk_children_Suc:
  "walk_children n img sb block level pa i (Suc k) s =
    (if snd s = 0 \<or> length block < pa + i * 8 + 8 then Some s
     else Option.bind (walk_block n img sb (be_u64 block (pa + i * 8)) (wsat_sub level 1) (fst s, snd s - 1))
            (walk_children n img sb block level pa (Suc i) k))"
  by (cases s) (auto simp: Let_def PTR_LEN_def split: option.splits)

lemma walk_roots_Cons:
  "walk_roots n img sb level (p # ps) s =
    (if snd s = 0 then Some s
     else Option.bind (walk_block n img sb p (wsat_sub level 1) (fst s, snd s - 1))
            (walk_roots n img sb level ps))"
  by (cases s) (auto split: option.splits)

declare walk_block.simps(2) [simp del] walk_children.simps(2) [simp del] walk_roots.simps(2) [simp del]

text \<open>
  A relation \<open>P\<close> between the states before and after a block, and \<open>Q\<close> between those around a list of
  pointers: what every walk keeps follows from the steps it is made of. The contract is that of an
  observation on the walk's output and budget.
\<close>

locale walk_relation =
  fixes img :: bytes and sb :: superblock
    and P Q :: "walk_state \<Rightarrow> walk_state \<Rightarrow> bool"
  assumes refl: "Q s s" and trans: "Q s t \<Longrightarrow> Q t u \<Longrightarrow> Q s u"
    and block: "Q s t \<Longrightarrow> P s t"
    and leaf: "bmbt_node img sb f = Some (blk, hdr, 0, n) \<Longrightarrow>
      P (out, b) (out @ recs_loop hdr blk 0 n, b)"
    and child: "P (out, b) t \<Longrightarrow> Q (out, Suc b) t"
begin

lemma child': "0 < snd s \<Longrightarrow> P (fst s, snd s - 1) t \<Longrightarrow> Q s t"
  using child [of "fst s" "snd s - 1" t] by (cases s) simp

lemma walk_children_rel':
  assumes "\<And>f e s t. walk_block n img sb f e s = Some t \<Longrightarrow> P s t"
  shows "walk_children n img sb blk level pa i k s = Some t \<Longrightarrow> Q s t"
proof (induction k arbitrary: i s)
  case (Suc k)
  then show ?case
    by (auto simp: walk_children_Suc bind_eq_Some_conv refl split: if_splits
        intro: trans [OF child' [OF _ assms]])
qed (simp add: refl)

lemma walk_block_rel: "walk_block n img sb f e s = Some t \<Longrightarrow> P s t"
proof (induction n arbitrary: f e s t)
  case (Suc n)
  show ?case
  proof (cases "MAX_BMBT_LEVELS \<le> e \<or> bmbt_node img sb f = None")
    case True
    with Suc.prems have "s = t" by (auto simp: walk_block_Suc split: if_splits)
    then show ?thesis by (simp add: block refl)
  next
    case False
    then obtain blk hdr l m where node: "bmbt_node img sb f = Some (blk, hdr, l, m)" by auto
    show ?thesis
    proof (cases "l = 0")
      case True
      with Suc.prems False node leaf [of f blk hdr m "fst s" "snd s"] show ?thesis
        by (auto simp: walk_block_Suc)
    next
      case l: False
      with Suc.prems False node show ?thesis
        by (auto simp: walk_block_Suc intro: block walk_children_rel' [OF Suc.IH])
    qed
  qed
qed simp

lemma walk_children_rel: "walk_children n img sb blk level pa i k s = Some t \<Longrightarrow> Q s t"
  by (rule walk_children_rel') (rule walk_block_rel)

lemma walk_roots_rel: "walk_roots n img sb level ptrs s = Some t \<Longrightarrow> Q s t"
proof (induction ptrs arbitrary: s)
  case (Cons p ptrs)
  then show ?case
    by (auto simp: walk_roots_Cons bind_eq_Some_conv refl split: if_splits
        intro: trans [OF child' [OF _ walk_block_rel]])
qed (simp add: refl)

end

section \<open>Budget and frames\<close>

definition walk_grows :: "walk_state \<Rightarrow> walk_state \<Rightarrow> bool" where
  "walk_grows s t \<longleftrightarrow> snd t \<le> snd s \<and> prefix (fst s) (fst t)"

interpretation grows: walk_relation img sb walk_grows walk_grows for img sb
  by unfold_locales (auto simp: walk_grows_def intro: prefix_order.trans)

lemma walk_block_budget: "walk_block n img sb f e s = Some t \<Longrightarrow> snd t \<le> snd s"
  using grows.walk_block_rel by (auto simp: walk_grows_def)

text \<open>More frames than the budget are enough.\<close>

lemma walk_children_total:
  assumes "\<And>f e s. snd s < n \<Longrightarrow> walk_block n img sb f e s \<noteq> None" and "snd s \<le> n"
  shows "walk_children n img sb blk level pa i k s \<noteq> None"
  using assms(2)
proof (induction k arbitrary: i s)
  case (Suc k)
  show ?case
  proof (cases "snd s = 0 \<or> length blk < pa + i * 8 + 8")
    case False
    then have "snd (fst s, snd s - 1) < n" using Suc.prems by auto
    with assms(1) obtain t where t: "walk_block n img sb (be_u64 blk (pa + i * 8)) (wsat_sub level 1) (fst s, snd s - 1) = Some t"
      by blast
    have "snd t \<le> n" using walk_block_budget [OF t] Suc.prems False by simp
    with Suc.IH [of t] t False show ?thesis by (simp add: walk_children_Suc)
  qed (simp add: walk_children_Suc)
qed simp

lemma walk_block_total: "snd s < n \<Longrightarrow> walk_block n img sb f e s \<noteq> None"
proof (induction n arbitrary: f e s)
  case (Suc n)
  then have "walk_children n img sb blk level pa i k s \<noteq> None" for blk level pa i k
    by (intro walk_children_total) auto
  then show ?case by (auto simp: walk_block_Suc split: option.splits)
qed simp

lemma walk_roots_total: "snd s \<le> n \<Longrightarrow> walk_roots n img sb level ptrs s \<noteq> None"
proof (induction ptrs arbitrary: s)
  case (Cons p ptrs)
  show ?case
  proof (cases "snd s = 0")
    case False
    then have "snd (fst s, snd s - 1) < n" using Cons.prems by auto
    then obtain t where t: "walk_block n img sb p (wsat_sub level 1) (fst s, snd s - 1) = Some t"
      using walk_block_total by blast
    have "snd t \<le> n" using walk_block_budget [OF t] Cons.prems False by simp
    with Cons.IH [of t] t False show ?thesis by (simp add: walk_roots_Cons)
  qed (simp add: walk_roots_Cons)
qed simp

lemma walk_btree_total: "MAX_BMBT_PTRS \<le> frames \<Longrightarrow> \<exists>recs. walk_btree frames img sb fork = Some (Inr recs)"
  using walk_roots_total [of "([], MAX_BMBT_PTRS)" frames]
  by (fastforce simp: walk_btree_def Let_def)

text \<open>The result does not depend on the frames, once they suffice.\<close>

lemma walk_children_more_frames:
  assumes "\<And>f e s t. walk_block n img sb f e s = Some t \<Longrightarrow> walk_block m img sb f e s = Some t"
  shows "walk_children n img sb blk level pa i k s = Some t \<Longrightarrow> walk_children m img sb blk level pa i k s = Some t"
proof (induction k arbitrary: i s)
  case (Suc k)
  then show ?case
    by (auto simp: walk_children_Suc bind_eq_Some_conv split: if_splits dest: assms)
qed simp

lemma walk_more_frames:
  "walk_block n img sb f e s = Some t \<Longrightarrow> n \<le> m \<Longrightarrow> walk_block m img sb f e s = Some t"
proof (induction n arbitrary: m f e s t)
  case (Suc n)
  obtain m' where m: "m = Suc m'" "n \<le> m'" using Suc.prems(2) by (cases m) auto
  have ch: "walk_children m' img sb blk level pa i k s = Some t"
    if "walk_children n img sb blk level pa i k s = Some t" for blk level pa i k s t
    by (rule walk_children_more_frames [OF Suc.IH [OF _ m(2)] that])
  show ?case
    using Suc.prems(1) by (auto simp: m(1) walk_block_Suc ch split: option.splits if_splits)
qed simp

lemma walk_roots_more_frames:
  "walk_roots n img sb level ptrs s = Some t \<Longrightarrow> n \<le> m \<Longrightarrow> walk_roots m img sb level ptrs s = Some t"
  by (induction ptrs arbitrary: s)
    (auto simp: walk_roots_Cons bind_eq_Some_conv dest: walk_more_frames split: if_splits)

lemma read_btree_extents_eq:
  assumes "walk_btree frames img sb fork = Some r" and "frames \<le> MAX_BMBT_PTRS"
  shows "read_btree_extents img sb fork = r"
proof -
  have "walk_btree MAX_BMBT_PTRS img sb fork = Some r"
    using assms by (auto simp: walk_btree_def Let_def dest: walk_roots_more_frames)
  then show ?thesis by (simp add: read_btree_extents_def)
qed

section \<open>How much a walk returns\<close>

lemma bmbt_node_D:
  assumes "bmbt_node img sb f = Some (blk, hdr, l, n)"
  shows "length blk = unat (sb_blocksize sb)" and "hdr = 24 \<or> hdr = 72"
    and "l = be_u16 blk 4" and "n = unat (be_u16 blk 6)"
  using assms
  by (auto simp: bmbt_node_def bmbt_hdr_def bmbt_len_defs block_slice_def uchecked_mul_def uchecked_add_def
      bind_eq_Some_conv get_range_Some_iff split: if_splits)

text \<open>
  Two observations: the bytes of the records collected are paid for with the blocks visited, and every
  record collected is well formed.
\<close>

definition walk_paid :: "nat \<Rightarrow> nat \<Rightarrow> walk_state \<Rightarrow> walk_state \<Rightarrow> bool" where
  "walk_paid bs c s t \<longleftrightarrow> length (fst t) * 16 + snd t * bs \<le> length (fst s) * 16 + snd s * bs + c"

interpretation paid: walk_relation img sb "walk_paid (unat (sb_blocksize sb)) (unat (sb_blocksize sb))"
  "walk_paid (unat (sb_blocksize sb)) 0" for img sb
proof unfold_locales
  fix f blk hdr n out b
  assume "bmbt_node img sb f = Some (blk, hdr, 0, n)"
  then show "walk_paid (unat (sb_blocksize sb)) (unat (sb_blocksize sb)) (out, b) (out @ recs_loop hdr blk 0 n, b)"
    using recs.length_walk_bytes [where d = blk and off = hdr and k = n] bmbt_node_D(1) [of img sb f blk hdr 0 n]
    by (simp add: walk_paid_def add_mult_distrib)
qed (auto simp: walk_paid_def)

definition walk_keeps_ok :: "walk_state \<Rightarrow> walk_state \<Rightarrow> bool" where
  "walk_keeps_ok s t \<longleftrightarrow> (list_all rec_ok (fst s) \<longrightarrow> list_all rec_ok (fst t))"

interpretation keeps_ok: walk_relation img sb walk_keeps_ok walk_keeps_ok for img sb
  by unfold_locales (auto simp: walk_keeps_ok_def list_all_iff recs_loop_ok)

lemma read_btree_extents_Inr:
  obtains recs b where "read_btree_extents img sb fork = Inr recs"
    and "walk_roots MAX_BMBT_PTRS img sb (be_u16 fork 0)
      (read_root_ptrs fork (unat (be_u16 fork 2)) ((length fork - 4) div 16)) ([], MAX_BMBT_PTRS) = Some (recs, b)"
proof -
  obtain recs where w: "walk_btree MAX_BMBT_PTRS img sb fork = Some (Inr recs)"
    using walk_btree_total by blast
  then obtain b where "walk_roots MAX_BMBT_PTRS img sb (be_u16 fork 0)
      (read_root_ptrs fork (unat (be_u16 fork 2)) ((length fork - 4) div 16)) ([], MAX_BMBT_PTRS) = Some (recs, b)"
    by (auto simp: walk_btree_def Let_def bmbt_len_defs)
  with that w show ?thesis by (simp add: read_btree_extents_def)
qed

section \<open>Stored trees\<close>

text \<open>The abstract map: leaves hold records, inner nodes hold subtrees.\<close>

datatype bmap_tree = Leaf "bmbt_rec list" | Node "bmap_tree list"

fun leaves :: "bmap_tree \<Rightarrow> bmbt_rec list" where
  "leaves (Leaf rs) = rs"
| "leaves (Node ts) = concat (map leaves ts)"

fun tree_ptrs :: "bmap_tree \<Rightarrow> nat" where
  "tree_ptrs (Leaf rs) = 0"
| "tree_ptrs (Node ts) = sum_list (map (\<lambda>t. Suc (tree_ptrs t)) ts)"

text \<open>
  \<open>stored img sb f lvl t\<close>: filesystem block \<open>f\<close> holds tree \<open>t\<close> of height \<open>lvl\<close>. A leaf's records follow
  the header in packed form, an inner block's pointers sit after the area of its keys.
\<close>

inductive stored :: "bytes \<Rightarrow> superblock \<Rightarrow> u64 \<Rightarrow> nat \<Rightarrow> bmap_tree \<Rightarrow> bool" for img sb where
  stored_leaf: "stored img sb f 0 (Leaf rs)"
    if "bmbt_node img sb f = Some (h @ concat (map pack rs) @ rest, length h, 0, length rs)"
      and "list_all rec_ok rs"
| stored_node: "stored img sb f (Suc lvl) (Node ts)"
    if "bmbt_node img sb f = Some (blk, hdr, word_of_nat (Suc lvl), length ts)"
      and "length ts \<le> node_maxrecs sb hdr" and "Suc lvl < 2 ^ 16"
      and "\<And>j. j < length ts \<Longrightarrow> stored img sb (be_u64 blk (hdr + node_maxrecs sb hdr * 8 + j * 8)) lvl (ts ! j)"

inductive_cases stored_zeroE: "stored img sb f 0 t"
inductive_cases stored_SucE: "stored img sb f (Suc lvl) t"

lemma node_ptr_fits:
  assumes "bmbt_node img sb f = Some (blk, hdr, l, n)" and "j < node_maxrecs sb hdr"
  shows "hdr + node_maxrecs sb hdr * 8 + j * 8 + 8 \<le> length blk"
proof -
  have "node_maxrecs sb hdr * 16 \<le> unat (sb_blocksize sb) - hdr"
    by (simp add: node_maxrecs_def)
  then show ?thesis using assms(2) bmbt_node_D(1) [OF assms(1)] by linarith
qed

lemma unat_level: "l < 2 ^ 16 \<Longrightarrow> unat (word_of_nat l :: u16) = l"
  by (simp add: unat_of_nat)

lemma dec_level:
  assumes "Suc l < 2 ^ 16"
  shows "wsat_sub (word_of_nat (Suc l) :: u16) 1 = word_of_nat l" and "(word_of_nat (Suc l) :: u16) \<noteq> 0"
proof -
  have "unat (wsat_sub (word_of_nat (Suc l) :: u16) 1) = l"
    unfolding unat_wsat_sub unat_level [OF assms] by simp
  also have "l = unat (word_of_nat l :: u16)" using unat_level [of l] assms by simp
  finally show "wsat_sub (word_of_nat (Suc l) :: u16) 1 = word_of_nat l" by (rule unsigned_word_eqI)
  show "(word_of_nat (Suc l) :: u16) \<noteq> 0" using unat_level [OF assms] by force
qed

lemma level_less: "l < 32 \<Longrightarrow> \<not> MAX_BMBT_LEVELS \<le> (word_of_nat l :: u16)"
  using unat_level [of l] by (simp add: MAX_BMBT_LEVELS_def word_le_nat_alt not_le)

lemma walk_children_stored:
  assumes block: "\<And>j out b. j < k \<Longrightarrow> tree_ptrs (ts ! (i + j)) \<le> b \<Longrightarrow>
      walk_block n img sb (be_u64 blk (pa + (i + j) * 8)) (wsat_sub level 1) (out, b)
        = Some (out @ leaves (ts ! (i + j)), b - tree_ptrs (ts ! (i + j)))"
    and fits: "\<And>j. j < k \<Longrightarrow> pa + (i + j) * 8 + 8 \<le> length blk"
    and len: "length ts = i + k" and bud: "sum_list (map (\<lambda>t. Suc (tree_ptrs t)) (drop i ts)) \<le> b"
  shows "walk_children n img sb blk level pa i k (out, b) =
    Some (out @ concat (map leaves (drop i ts)), b - sum_list (map (\<lambda>t. Suc (tree_ptrs t)) (drop i ts)))"
  using assms
proof (induction k arbitrary: i out b)
  case (Suc k)
  have d: "drop i ts = ts ! i # drop (Suc i) ts" using Suc.prems(3) by (simp add: Cons_nth_drop_Suc)
  have bud: "Suc (tree_ptrs (ts ! i)) + sum_list (map (\<lambda>t. Suc (tree_ptrs t)) (drop (Suc i) ts)) \<le> b"
    using Suc.prems(4) by (simp add: d)
  have hd: "walk_block n img sb (be_u64 blk (pa + i * 8)) (wsat_sub level 1) (out, b - 1)
    = Some (out @ leaves (ts ! i), b - 1 - tree_ptrs (ts ! i))"
    using Suc.prems(1) [of 0 "b - 1"] bud by simp
  have tl: "walk_children n img sb blk level pa (Suc i) k (out @ leaves (ts ! i), b - 1 - tree_ptrs (ts ! i)) =
    Some ((out @ leaves (ts ! i)) @ concat (map leaves (drop (Suc i) ts)),
      b - 1 - tree_ptrs (ts ! i) - sum_list (map (\<lambda>t. Suc (tree_ptrs t)) (drop (Suc i) ts)))"
  proof (rule Suc.IH)
    show "walk_block n img sb (be_u64 blk (pa + (Suc i + j) * 8)) (wsat_sub level 1) (out, b)
        = Some (out @ leaves (ts ! (Suc i + j)), b - tree_ptrs (ts ! (Suc i + j)))"
      if "j < k" "tree_ptrs (ts ! (Suc i + j)) \<le> b" for j out b
      using Suc.prems(1) [of "Suc j" b out] that by simp
    show "pa + (Suc i + j) * 8 + 8 \<le> length blk" if "j < k" for j
      using Suc.prems(2) [of "Suc j"] that by simp
  qed (use Suc.prems(3) bud in auto)
  show ?case
    using hd tl bud Suc.prems(2) [of 0] by (simp add: walk_children_Suc d)
qed simp

lemma walk_block_stored:
  assumes "stored img sb f lvl t" and "lvl < 32" and "e < MAX_BMBT_LEVELS" and "tree_ptrs t \<le> b"
  shows "walk_block (Suc lvl) img sb f e (out, b) = Some (out @ leaves t, b - tree_ptrs t)"
  using assms
proof (induction arbitrary: e out b)
  case (stored_leaf f h rs rest)
  then show ?case
    using recs.walk_stored [OF packs_stored, of rs h rest] by (simp add: walk_block_Suc)
next
  case (stored_node f blk hdr lvl ts)
  note lvl = dec_level [OF stored_node.hyps(3)]
  have e: "word_of_nat lvl < MAX_BMBT_LEVELS"
    using level_less [of lvl] stored_node.prems(1) by (simp add: not_le)
  have "walk_children (Suc lvl) img sb blk (word_of_nat (Suc lvl)) (hdr + node_maxrecs sb hdr * 8) 0 (length ts) (out, b)
    = Some (out @ concat (map leaves (drop 0 ts)), b - sum_list (map (\<lambda>t. Suc (tree_ptrs t)) (drop 0 ts)))"
  proof (rule walk_children_stored)
    show "hdr + node_maxrecs sb hdr * 8 + (0 + j) * 8 + 8 \<le> length blk" if "j < length ts" for j
      using node_ptr_fits [OF stored_node.hyps(1), of j] that stored_node.hyps(2) by simp
  qed (use stored_node.IH stored_node.prems e lvl in auto)
  then show ?case
    using stored_node.hyps(1,2) stored_node.prems(2) lvl(2)
    by (simp add: walk_block_Suc min_absorb1 not_le [symmetric] del: of_nat_Suc)
qed

section \<open>The root\<close>

definition ptr_step :: "bytes \<Rightarrow> nat \<Rightarrow> (u64 \<times> nat) option" where
  "ptr_step fork off = (if length fork < off + 8 then None else Some (be_u64 fork off, off + 8))"

definition ptr_stored :: "u64 \<Rightarrow> bytes \<Rightarrow> bool" where
  "ptr_stored p bs \<longleftrightarrow> bs = be_bytes 8 (unat p)"

lemma root_ptrs_loop_Suc: "root_ptrs_loop fork pa (Suc i) k = root_ptrs_loop fork (pa + 8) i k"
proof (induction k arbitrary: i)
  case (Suc k)
  have "pa + Suc i * 8 = pa + 8 + i * 8" by simp
  then show ?case using Suc by (simp only: root_ptrs_loop.simps Let_def PTR_LEN_def)
qed simp

interpretation ptrs: packed_walk ptr_step "\<lambda>fork off k. root_ptrs_loop fork off 0 k" ptr_stored 8
proof unfold_locales
  fix p bs q r
  assume "ptr_stored r bs"
  then show "ptr_step (p @ bs @ q) (length p) = Some (r, length p + length bs)"
    using be_read_stored(3) [of "length p" p r q] by (simp add: ptr_step_def ptr_stored_def)
qed (auto simp: ptr_step_def ptr_stored_def Let_def root_ptrs_loop_Suc PTR_LEN_def be_append
    split: if_splits)

definition ptr_bytes :: "u64 list \<Rightarrow> bytes" where
  "ptr_bytes ptrs = concat (map (\<lambda>p. be_bytes 8 (unat p)) ptrs)"

lemma length_ptr_bytes [simp]: "length (ptr_bytes ptrs) = 8 * length ptrs"
  by (induction ptrs) (auto simp: ptr_bytes_def)

lemma read_root_ptrs_stored:
  assumes "length hdr = 4" "length keys = dmaxrecs * 8" "length ptrs \<le> dmaxrecs"
  shows "read_root_ptrs (hdr @ keys @ ptr_bytes ptrs @ pad) (length ptrs) dmaxrecs = ptrs"
proof -
  have "list_all2 ptr_stored ptrs (map (\<lambda>p. be_bytes 8 (unat p)) ptrs)"
    by (induction ptrs) (auto simp: ptr_stored_def)
  from ptrs.walk_stored [OF this, of "hdr @ keys" pad] show ?thesis
    using assms by (simp add: read_root_ptrs_def Let_def bmbt_len_defs ptr_bytes_def min_absorb1)
qed

lemma walk_roots_stored:
  assumes "list_all2 (\<lambda>p t. stored img sb p lvl t) ptrs ts" and "lvl < 32"
    and "wsat_sub level 1 = word_of_nat lvl" and "sum_list (map (\<lambda>t. Suc (tree_ptrs t)) ts) \<le> b"
  shows "walk_roots (Suc lvl) img sb level ptrs (out, b) =
    Some (out @ concat (map leaves ts), b - sum_list (map (\<lambda>t. Suc (tree_ptrs t)) ts))"
  using assms(1,4)
proof (induction ptrs ts arbitrary: out b rule: list_all2_induct)
  case (Cons p ptrs t ts)
  have "walk_block (Suc lvl) img sb p (wsat_sub level 1) (out, b - 1)
      = Some (out @ leaves t, b - 1 - tree_ptrs t)"
    using Cons.prems level_less [OF assms(2)] unfolding assms(3)
    by (intro walk_block_stored [OF Cons.hyps(1) assms(2)]) (auto simp: not_le)
  then show ?case
    using Cons.IH [of "b - 1 - tree_ptrs t" "out @ leaves t"] Cons.prems by (simp add: walk_roots_Cons)
qed simp

text \<open>A root of level \<open>lvl + 1\<close> as a writer lays it out, in a fork with room for \<open>dmaxrecs\<close> pointers.\<close>

definition root_bytes :: "nat \<Rightarrow> u64 list \<Rightarrow> bytes \<Rightarrow> bytes \<Rightarrow> bytes" where
  "root_bytes lvl ptrs keys pad =
     be_bytes 2 (Suc lvl) @ be_bytes 2 (length ptrs) @ keys @ ptr_bytes ptrs @ pad"

definition root_fits :: "nat \<Rightarrow> u64 list \<Rightarrow> bytes \<Rightarrow> bytes \<Rightarrow> bool" where
  "root_fits lvl ptrs keys pad \<longleftrightarrow> Suc lvl < 2 ^ 16 \<and> length ptrs < 2 ^ 16 \<and>
     length keys = (length keys + 8 * length ptrs + length pad) div 16 * 8 \<and>
     length ptrs \<le> (length keys + 8 * length ptrs + length pad) div 16"

lemma be_u16_bytes: "v < 2 ^ 16 \<Longrightarrow> off = length p \<Longrightarrow> be_u16 (p @ be_bytes 2 v @ q) off = word_of_nat v"
  using be_read_stored(1) [of off p "word_of_nat v" q] unat_level [of v] by simp

lemma walk_btree_stored:
  assumes "list_all2 (\<lambda>p t. stored img sb p lvl t) ptrs ts" and "lvl < 32"
    and "root_fits lvl ptrs keys pad" and "sum_list (map (\<lambda>t. Suc (tree_ptrs t)) ts) \<le> MAX_BMBT_PTRS"
  shows "walk_btree (Suc lvl) img sb (root_bytes lvl ptrs keys pad) = Some (Inr (concat (map leaves ts)))"
proof -
  let ?f = "root_bytes lvl ptrs keys pad"
  have fits: "Suc lvl < 2 ^ 16" "length ptrs < 2 ^ 16"
    "length keys = (length ?f - 4) div 16 * 8" "length ptrs \<le> (length ?f - 4) div 16"
    using assms(3) by (auto simp: root_fits_def root_bytes_def add.assoc)
  have "be_u16 ?f 0 = word_of_nat (Suc lvl)"
    using be_u16_bytes [OF fits(1), of 0 "[]"] by (simp add: root_bytes_def)
  moreover have "be_u16 ?f 2 = word_of_nat (length ptrs)"
    using be_u16_bytes [OF fits(2), of 2 "be_bytes 2 (Suc lvl)"] by (simp add: root_bytes_def del: be_bytes.simps)
  moreover have "read_root_ptrs ?f (length ptrs) D = ptrs" if "length keys = D * 8" "length ptrs \<le> D" for D
    using read_root_ptrs_stored [of "be_bytes 2 (Suc lvl) @ be_bytes 2 (length ptrs)" keys D ptrs pad] that
    by (simp add: root_bytes_def)
  note this [OF fits(3,4)]
  ultimately show ?thesis
    using walk_roots_stored [OF assms(1,2) dec_level(1) [OF fits(1)] assms(4), of "[]"] unat_level [OF fits(2)]
    by (simp add: walk_btree_def Let_def bmbt_len_defs del: of_nat_Suc)
qed

text \<open>
  A fork that maps the extents \<open>recs\<close>: packed records, as many as the inode's counter says, or a tree.
\<close>

definition extents_stored :: "superblock \<Rightarrow> bytes \<Rightarrow> bool \<Rightarrow> nat \<Rightarrow> bytes \<Rightarrow> bmbt_rec list \<Rightarrow> bool" where
  "extents_stored sb img inline n fork recs \<longleftrightarrow> list_all rec_ok recs \<and>
    (if inline then n = length recs \<and> (\<exists>slack. fork = concat (map pack recs) @ slack)
     else \<exists>lvl ptrs ts keys pad. fork = root_bytes lvl ptrs keys pad \<and> root_fits lvl ptrs keys pad \<and> lvl < 32 \<and>
       list_all2 (\<lambda>p t. stored img sb p lvl t) ptrs ts \<and>
       sum_list (map (\<lambda>t. Suc (tree_ptrs t)) ts) \<le> MAX_BMBT_PTRS \<and> recs = concat (map leaves ts))"

lemma extents_stored_read:
  assumes "extents_stored sb img inline (unat n) fork recs"
  shows "inline \<Longrightarrow> read_extents fork n = recs" and "\<not> inline \<Longrightarrow> read_btree_extents img sb fork = Inr recs"
proof -
  show "read_extents fork n = recs" if inline
  proof -
    obtain slack where "list_all rec_ok recs" "unat n = length recs" "fork = concat (map pack recs) @ slack"
      using assms \<open>inline\<close> by (auto simp: extents_stored_def)
    then show ?thesis using recs.walk_stored [OF packs_stored, of recs "[]" slack] by (simp add: read_extents_def)
  qed
  show "read_btree_extents img sb fork = Inr recs" if "\<not> inline"
  proof -
    obtain lvl ptrs ts keys pad where t: "fork = root_bytes lvl ptrs keys pad" "root_fits lvl ptrs keys pad" "lvl < 32"
      "list_all2 (\<lambda>p t. stored img sb p lvl t) ptrs ts" "sum_list (map (\<lambda>t. Suc (tree_ptrs t)) ts) \<le> MAX_BMBT_PTRS"
      "recs = concat (map leaves ts)"
      using assms \<open>\<not> inline\<close> by (auto simp: extents_stored_def)
    show ?thesis
      using read_btree_extents_eq [OF walk_btree_stored [OF t(4,3,2,5)]] t(1,3,6) by (simp add: MAX_BMBT_PTRS_def)
  qed
qed

section \<open>Cycles\<close>

lemma walk_self_loop:
  assumes node: "bmbt_node img sb f = Some (blk, hdr, l, m)" and "0 < m" "0 < node_maxrecs sb hdr"
    and l: "l \<noteq> 0" "l \<le> 32" and loop: "be_u64 blk (hdr + node_maxrecs sb hdr * 8) = f"
    and "e < MAX_BMBT_LEVELS" and "n \<le> b"
  shows "walk_block n img sb f e (out, b) = None"
  using assms(7,8)
proof (induction n arbitrary: e out b)
  case (Suc n)
  have "unat (wsat_sub l 1) < 32"
    using l by (simp add: unat_wsat_sub word_le_nat_alt unat_gt_0)
  then have lev: "wsat_sub l 1 < MAX_BMBT_LEVELS" by (simp add: MAX_BMBT_LEVELS_def word_less_nat_alt)
  obtain k where k: "min m (node_maxrecs sb hdr) = Suc k"
    using assms(2,3) by (metis min_less_iff_conj not0_implies_Suc not_gr0)
  have "walk_block n img sb f (wsat_sub l 1) (out, b - 1) = None"
    using Suc.prems(2) by (intro Suc.IH [OF lev]) simp
  then have "walk_children n img sb blk l (hdr + node_maxrecs sb hdr * 8) 0 (Suc k) (out, b) = None"
    using Suc.prems(2) node_ptr_fits [OF node, of 0] assms(3) by (simp add: walk_children_Suc loop)
  with Suc.prems(1) show ?case
    using node l(1) k by (simp add: walk_block_Suc not_le [symmetric])
qed simp

section \<open>Properties\<close>

text \<open>
  C14: The walk of any fork over any image returns, with at most as many stack frames as its pointer
  budget, and what it returns is bounded: well-formed records, at most one per sixteen bytes of the
  blocks the budget pays for.
\<close>

theorem btree_walk_bounded:
  "\<exists>recs. walk_btree (MAX_BMBT_PTRS + extra) img sb fork = Some (Inr recs) \<and>
     read_btree_extents img sb fork = Inr recs \<and>
     list_all rec_ok recs \<and> length recs * 16 \<le> MAX_BMBT_PTRS * unat (sb_blocksize sb)"
proof -
  obtain recs b where r: "read_btree_extents img sb fork = Inr recs"
    and w: "walk_roots MAX_BMBT_PTRS img sb (be_u16 fork 0)
      (read_root_ptrs fork (unat (be_u16 fork 2)) ((length fork - 4) div 16)) ([], MAX_BMBT_PTRS) = Some (recs, b)"
    by (rule read_btree_extents_Inr)
  have "walk_btree (MAX_BMBT_PTRS + extra) img sb fork = Some (Inr recs)"
    using walk_roots_more_frames [OF w, of "MAX_BMBT_PTRS + extra"]
    by (simp add: walk_btree_def Let_def bmbt_len_defs)
  with r show ?thesis
    using paid.walk_roots_rel [OF w] keeps_ok.walk_roots_rel [OF w]
    by (simp add: walk_paid_def walk_keeps_ok_def)
qed

text \<open>
  C15: The invariant of the walk. With more stack frames than budget every visit of a block returns, and
  with its whole subtree it only adds records at the end, never raises the budget, keeps well-formed
  records well formed, and the bytes of the records added fit in the blocks paid from the budget and the
  block visited.
\<close>

theorem btree_walk_invariant:
  assumes "b < frames"
  shows "\<exists>out' b'. walk_block frames img sb ptr level (out, b) = Some (out', b') \<and>
    prefix out out' \<and> b' \<le> b \<and> (list_all rec_ok out \<longrightarrow> list_all rec_ok out') \<and>
    length out' * 16 + b' * unat (sb_blocksize sb) \<le>
      length out * 16 + b * unat (sb_blocksize sb) + unat (sb_blocksize sb)"
proof -
  obtain out' b' where w: "walk_block frames img sb ptr level (out, b) = Some (out', b')"
    using walk_block_total [of "(out, b)" frames img sb ptr level] assms by auto
  then show ?thesis
    using grows.walk_block_rel [OF w] keeps_ok.walk_block_rel [OF w] paid.walk_block_rel [OF w]
    by (simp add: walk_grows_def walk_keeps_ok_def walk_paid_def)
qed

text \<open>A volume of two blocks: a node with one pointer, and the leaf it points to, with one record.\<close>

definition tree_sb :: superblock where
  "tree_sb = two_slots\<lparr>sb_blocksize := 40\<rparr>"

definition tree_rec :: bmbt_rec where
  "tree_rec = \<lparr>startoff = 0, startblock = 9, blockcount = 2, unwritten = False\<rparr>"

definition tree_node :: bytes where
  "tree_node = [0x42, 0x4d, 0x41, 0x50, 0, 1, 0, 1] @ replicate 16 0 @ replicate 8 0 @ [0, 0, 0, 0, 0, 0, 0, 1]"

definition tree_leaf :: "bmbt_rec list \<Rightarrow> bytes" where
  "tree_leaf rs = ([0x42, 0x4d, 0x41, 0x50, 0, 0, 0, word_of_nat (length rs)] @ replicate 16 0) @
     concat (map pack rs) @ replicate (16 - 16 * length rs) 0"

lemma tree_rec_ok: "rec_ok tree_rec"
  by (simp add: rec_ok_def tree_rec_def)

lemma tree_block_at:
  assumes "length d = 40" and "length p = 40 * unat f" and "40 * unat f + 40 < USIZE_MAX"
  shows "bmbt_node (p @ d @ q) tree_sb f =
    map_option (\<lambda>hdr. (d, hdr, be_u16 d 4, unat (be_u16 d 6))) (bmbt_hdr (be_u32 d 0))"
proof -
  have "block_slice (p @ d @ q) f (unat (sb_blocksize tree_sb)) = Some d"
    using assms by (simp add: tree_sb_def block_slice_def uchecked_mul_def uchecked_add_def get_range_def mult.commute)
  then show ?thesis by (simp add: bmbt_node_def)
qed

lemmas tree_eval = bmbt_hdr_def be_u32_def be_u16_def be_u64_def be_word_def be_nat_def get_range_def
  XFS_BMAP_MAGIC_def XFS_BMAP_CRC_MAGIC_def BMBT_BLOCK_LEN_def

lemma tree_node_at:
  assumes "length p = 40 * unat f" and "40 * unat f + 40 < USIZE_MAX"
  shows "bmbt_node (p @ tree_node @ q) tree_sb f = Some (tree_node, 24, 1, 1)"
  by (subst tree_block_at [OF _ assms]) (simp_all add: tree_node_def tree_eval)

lemma tree_leaf_at:
  assumes "length p = 40 * unat f" and "40 * unat f + 40 < USIZE_MAX" and "rs = [] \<or> rs = [tree_rec]"
  shows "bmbt_node (p @ tree_leaf rs @ q) tree_sb f = Some (tree_leaf rs, 24, 0, length rs)"
proof -
  have "length (tree_leaf rs) = 40" using assms(3) by (auto simp: tree_leaf_def)
  then show ?thesis
    using assms(3) by (subst tree_block_at [OF _ assms(1,2)]) (auto simp: tree_leaf_def tree_eval)
qed

theorem btree_walk_invariant_witness:
  "walk_block 6 (tree_node @ tree_leaf [tree_rec]) tree_sb 0 2 ([tree_rec], 5) = Some ([tree_rec, tree_rec], 4) \<and>
    list_all rec_ok [tree_rec, tree_rec] \<and>
    length [tree_rec, tree_rec] * 16 + 4 * unat (sb_blocksize tree_sb) \<le>
      length [tree_rec] * 16 + 5 * unat (sb_blocksize tree_sb) + unat (sb_blocksize tree_sb)"
proof -
  have leaf: "bmbt_node (tree_node @ tree_leaf [tree_rec]) tree_sb 1 = Some (tree_leaf [tree_rec], 24, 0, 1)"
    using tree_leaf_at [of tree_node 1 "[tree_rec]" "[]"] by (simp add: tree_node_def USIZE_MAX_def)
  have node: "bmbt_node (tree_node @ tree_leaf [tree_rec]) tree_sb 0 = Some (tree_node, 24, 1, 1)"
    using tree_node_at [of "[]" 0 "tree_leaf [tree_rec]"] by (simp add: USIZE_MAX_def)
  have rec: "recs_loop 24 (tree_leaf [tree_rec]) 0 1 = [tree_rec]"
    using recs.walk_stored [OF packs_stored [of "[tree_rec]"],
        of "[0x42, 0x4d, 0x41, 0x50, 0, 0, 0, 1] @ replicate 16 0" "[]"] tree_rec_ok
    by (simp add: tree_leaf_def)
  have ptr: "be_u64 tree_node 32 = 1" "length tree_node = 40" "node_maxrecs tree_sb 24 = 1"
    by (simp_all add: tree_node_def be_u64_def get_range_def be_word_def be_nat_def node_maxrecs_def tree_sb_def)
  have "walk_block 6 (tree_node @ tree_leaf [tree_rec]) tree_sb 0 2 ([tree_rec], 5) = Some ([tree_rec, tree_rec], 4)"
    using node leaf ptr rec
    by (simp add: walk_block_Suc [of 5, simplified] walk_block_Suc [of 4, simplified]
        walk_children_Suc [of 5 _ _ _ _ _ _ 0, simplified] MAX_BMBT_LEVELS_def wsat_sub_def)
  with btree_walk_invariant [of 5 6 "tree_node @ tree_leaf [tree_rec]" tree_sb 0 2 "[tree_rec]"] tree_rec_ok
  show ?thesis by auto
qed

text \<open>
  C2: The walk of a stored tree refines the tree: with no more frames than the tree has levels it
  returns the records of the leaves, left to right, and so does the function of the code.
\<close>

theorem btree_walk_refines:
  assumes "list_all2 (\<lambda>p t. stored img sb p lvl t) ptrs ts" and "lvl < 32"
    and "root_fits lvl ptrs keys pad" and "sum_list (map (\<lambda>t. Suc (tree_ptrs t)) ts) \<le> MAX_BMBT_PTRS"
  shows "walk_btree (Suc lvl) img sb (root_bytes lvl ptrs keys pad) = Some (Inr (concat (map leaves ts))) \<and>
    read_btree_extents img sb (root_bytes lvl ptrs keys pad) = Inr (concat (map leaves ts))"
  using walk_btree_stored [OF assms] read_btree_extents_eq [OF walk_btree_stored [OF assms]] assms(2)
  by (simp add: MAX_BMBT_PTRS_def)

theorem btree_walk_refines_witness:
  "let r = \<lparr>startoff = 0, startblock = 9, blockcount = 2, unwritten = False\<rparr>;
       h = [0x42, 0x4d, 0x41, 0x50, 0, 0, 0, 1] @ replicate 16 0;
       img = h @ pack r;
       sb = undefined\<lparr>sb_blocksize := 40\<rparr>
   in walk_btree (Suc 0) img sb (root_bytes 0 [0] (replicate 8 0) []) = Some (Inr [r]) \<and>
      read_btree_extents img sb (root_bytes 0 [0] (replicate 8 0) []) = Inr [r]"
proof -
  define r where "r = \<lparr>startoff = 0, startblock = 9, blockcount = 2, unwritten = False\<rparr>"
  define h :: bytes where "h = [0x42, 0x4d, 0x41, 0x50, 0, 0, 0, 1] @ replicate 16 0"
  let ?sb = "undefined\<lparr>sb_blocksize := 40\<rparr>"
  have "bmbt_node (h @ pack r) ?sb 0 = Some (h @ concat (map pack [r]) @ [], length h, 0, length [r])"
    by (simp add: bmbt_node_def block_slice_def uchecked_mul_def uchecked_add_def USIZE_MAX_def
        get_range_def bmbt_hdr_def be_u32_def be_u16_def be_word_def be_nat_def h_def XFS_BMAP_MAGIC_def
        XFS_BMAP_CRC_MAGIC_def BMBT_BLOCK_LEN_def)
  moreover have "rec_ok r" by (simp add: rec_ok_def r_def)
  ultimately have "stored (h @ pack r) ?sb 0 0 (Leaf [r])"
    using stored_leaf [of "h @ pack r" ?sb 0 h "[r]" "[]"] by simp
  then show ?thesis
    using btree_walk_refines [of "h @ pack r" ?sb 0 "[0]" "[Leaf [r]]" "replicate 8 0" "[]"]
    by (simp add: root_fits_def MAX_BMBT_PTRS_def Let_def h_def r_def)
qed

text \<open>
  C38: A bmbt block whose first pointer is its own address is not cut off by the depth guard: the walk
  of it needs one stack frame more than the whole pointer budget.
\<close>

theorem btree_self_loop_frames:
  assumes "bmbt_node img sb f = Some (blk, hdr, l, m)" "0 < m" "0 < node_maxrecs sb hdr"
    and "l \<noteq> 0" "l \<le> 32" and "be_u64 blk (hdr + node_maxrecs sb hdr * 8) = f" and "e < MAX_BMBT_LEVELS"
  shows "walk_block frames img sb f e (out, budget) = None \<longleftrightarrow> frames \<le> budget"
proof
  show "frames \<le> budget" if "walk_block frames img sb f e (out, budget) = None"
    using walk_block_total [of "(out, budget)" frames img sb f e] that by (cases "budget < frames") auto
  show "walk_block frames img sb f e (out, budget) = None" if "frames \<le> budget"
    by (rule walk_self_loop [OF assms that])
qed

theorem btree_self_loop_frames_witness:
  "walk_block 1000 ([0x42, 0x4d, 0x41, 0x50, 0, 1, 0, 1] @ [0, 0, 0, 0, 0, 0, 0, 0, 0, 0, 0, 0, 0, 0, 0, 0, 0, 0, 0, 0, 0, 0, 0, 0, 0, 0, 0, 0, 0, 0, 0, 0]) (undefined\<lparr>sb_blocksize := 40\<rparr>)
     0 0 ([], 1000) = None"
  using btree_self_loop_frames [of "[0x42, 0x4d, 0x41, 0x50, 0, 1, 0, 1] @ [0, 0, 0, 0, 0, 0, 0, 0, 0, 0, 0, 0, 0, 0, 0, 0, 0, 0, 0, 0, 0, 0, 0, 0, 0, 0, 0, 0, 0, 0, 0, 0]"
      "undefined\<lparr>sb_blocksize := 40\<rparr>" 0 "[0x42, 0x4d, 0x41, 0x50, 0, 1, 0, 1] @ [0, 0, 0, 0, 0, 0, 0, 0, 0, 0, 0, 0, 0, 0, 0, 0, 0, 0, 0, 0, 0, 0, 0, 0, 0, 0, 0, 0, 0, 0, 0, 0]" 24 1 1 0
      1000 "[]" 1000]
  by (simp add: bmbt_node_def block_slice_def uchecked_mul_def uchecked_add_def USIZE_MAX_def
      get_range_def bmbt_hdr_def be_u32_def be_u16_def be_u64_def be_word_def be_nat_def XFS_BMAP_MAGIC_def
      XFS_BMAP_CRC_MAGIC_def BMBT_BLOCK_LEN_def node_maxrecs_def MAX_BMBT_LEVELS_def)

text \<open>
  A file is either refused because its size exceeds the image, or read to exactly its size,
  whatever the format of the inode and the content of its fork.
\<close>

lemma read_file_outcome:
  assumes "length img < USIZE_MAX"
  shows "read_file sb img ino =
      (if length img < unat (di_size ino) then Inl (size_error (unat (di_size ino)) (length img))
       else Inr (map (file_byte img (unat (sb_blocksize sb)) (unat (di_size ino))
         (case di_format ino of
            Extents \<Rightarrow> read_extents (di_data_fork ino) (di_nextents ino)
          | Btree \<Rightarrow> projr (read_btree_extents img sb (di_data_fork ino))
          | _ \<Rightarrow> [])) [0..<unat (di_size ino)]))"
proof -
  have asm: "assemble_extents img sb recs sz = (if length img < unat sz then Inl (size_error (unat sz) (length img))
     else Inr (map (file_byte img (unat (sb_blocksize sb)) (unat sz) recs) [0..<unat sz]))" for recs sz
    using assemble_ok [OF _ assms, of sz sb recs] assemble_too_big [of img sz sb recs] by simp
  obtain recs b where "read_btree_extents img sb (di_data_fork ino) = Inr recs"
    by (rule read_btree_extents_Inr)
  then show ?thesis
    unfolding read_file_def read_file_from_fork_def Let_def
    by (cases "di_format ino") (simp_all only: asm inode_format.case and_then_simps sum.sel)
qed

text \<open>
  The pointers of a root fork, wherever its length places them.
\<close>

lemma root_ptrs_loop_all:
  "pa + i * 8 + 8 * k \<le> length fork \<Longrightarrow>
    root_ptrs_loop fork pa i k = map (\<lambda>j. be_u64 fork (pa + (i + j) * 8)) [0..<k]"
proof (induction k arbitrary: i)
  case (Suc k)
  have "map (\<lambda>j. be_u64 fork (pa + (Suc i + j) * 8)) [0..<k] = map (\<lambda>j. be_u64 fork (pa + (i + j) * 8)) [1..<Suc k]"
    by (rule nth_equalityI) (simp_all add: algebra_simps del: upt_Suc)
  with Suc show ?case by (simp add: PTR_LEN_def Let_def upt_conv_Cons algebra_simps del: upt_Suc)
qed simp

lemma walk_btree_ptrs:
  assumes "be_u16 fork 0 = word_of_nat (Suc lvl)" and "Suc lvl < 2 ^ 16" and "lvl < 32"
    and "unat (be_u16 fork 2) = length ts" and "length ts \<le> (length fork - 4) div 16"
    and "\<And>j. j < length ts \<Longrightarrow> stored img sb (be_u64 fork (4 + (length fork - 4) div 16 * 8 + j * 8)) lvl (ts ! j)"
    and "sum_list (map (\<lambda>t. Suc (tree_ptrs t)) ts) \<le> MAX_BMBT_PTRS"
  shows "read_btree_extents img sb fork = Inr (concat (map leaves ts))"
proof (cases "ts = []")
  case True
  then show ?thesis
    using assms(4) read_btree_extents_eq [of 0 img sb fork "Inr []"]
    by (simp add: walk_btree_def read_root_ptrs_def Let_def)
next
  case False
  let ?D = "(length fork - 4) div 16"
  let ?ps = "map (\<lambda>j. be_u64 fork (4 + ?D * 8 + j * 8)) [0..<length ts]"
  have "?D * 16 \<le> length fork - 4" by simp
  moreover have "0 < ?D" using False assms(5) by (cases ts) auto
  then have "20 \<le> length fork" by (simp add: div_greater_zero_iff)
  ultimately have "read_root_ptrs fork (length ts) ?D = ?ps"
    using assms(5) by (simp add: read_root_ptrs_def Let_def bmbt_len_defs min_absorb1 root_ptrs_loop_all)
  moreover have "list_all2 (\<lambda>p t. stored img sb p lvl t) ?ps ts"
    using assms(6) by (simp add: list_all2_conv_all_nth)
  ultimately have "walk_btree (Suc lvl) img sb fork = Some (Inr (concat (map leaves ts)))"
    using walk_roots_stored [OF _ assms(3) dec_level(1) [OF assms(2)] assms(7), of img sb ?ps "[]"] assms(1,4)
    by (simp add: walk_btree_def Let_def bmbt_len_defs del: of_nat_Suc)
  moreover have "Suc lvl \<le> MAX_BMBT_PTRS" using assms(3) by (simp add: MAX_BMBT_PTRS_def)
  ultimately show ?thesis by (rule read_btree_extents_eq)
qed

text \<open>
  C39: A B+tree inode with an attribute fork of \<open>16 * k\<close> bytes is read through the wrong pointers. The
  bytes up to \<open>di_forkoff\<close> are a root with pointers to the trees \<open>ts\<close>, and read alone they give the
  records of \<open>ts\<close>; of the inode the reader takes the pointers \<open>8 * k\<close> bytes further on, so that the file is
  put together from the trees \<open>ts'\<close> that those bytes happen to point to.
\<close>

theorem btree_root_ptrs_shifted:
  assumes "inode_parse crcf (core @ root_bytes lvl ptrs keys pad @ attr) nrext64 = Inr i"
    and "length core = (if 3 \<le> di_version i then 176 else 100)" and "di_format i = Btree"
    and "length (root_bytes lvl ptrs keys pad) = 8 * unat (di_forkoff i)" and "length attr = 16 * k"
    and "root_fits lvl ptrs keys pad" and "lvl < 32"
    and "list_all2 (\<lambda>p t. stored img sb p lvl t) ptrs ts"
    and "sum_list (map (\<lambda>t. Suc (tree_ptrs t)) ts) \<le> MAX_BMBT_PTRS"
    and "length ts' = length ptrs" and "\<forall>j < length ptrs. stored img sb
      (be_u64 (root_bytes lvl ptrs keys pad @ attr) (4 + length keys + 8 * k + j * 8)) lvl (ts' ! j)"
    and "sum_list (map (\<lambda>t. Suc (tree_ptrs t)) ts') \<le> MAX_BMBT_PTRS"
  shows "read_btree_extents img sb (take (8 * unat (di_forkoff i)) (di_data_fork i)) = Inr (concat (map leaves ts)) \<and>
    read_btree_extents img sb (di_data_fork i) = Inr (concat (map leaves ts')) \<and>
    read_file sb img i = assemble_extents img sb (concat (map leaves ts')) (di_size i)"
proof -
  let ?f = "root_bytes lvl ptrs keys pad"
  have "inode_is_v3 (core @ ?f @ attr) \<longleftrightarrow> 3 \<le> di_version i"
    using inode_parse_Inr_D(2) [OF assms(1)] by (simp add: inode_is_v3_def)
  then have fork: "di_data_fork i = ?f @ attr"
    using inode_parse_Inr_D(12) [OF assms(1)] assms(2) by (simp add: inode_need_def litino_defs)
  have fits: "Suc lvl < 2 ^ 16" "length ptrs < 2 ^ 16" "length keys = (length ?f - 4) div 16 * 8"
      "length ptrs \<le> (length ?f - 4) div 16" "4 \<le> length ?f"
    using assms(6) by (auto simp: root_fits_def root_bytes_def add.assoc)
  have "(length (?f @ attr) - 4) div 16 = (length ?f - 4) div 16 + k"
    using assms(5) fits(5) by simp
  moreover have "be_u16 (?f @ attr) 0 = word_of_nat (Suc lvl)"
    using be_u16_bytes [OF fits(1), of 0 "[]"] by (simp add: root_bytes_def)
  moreover have "be_u16 (?f @ attr) 2 = word_of_nat (length ptrs)"
    using be_u16_bytes [OF fits(2), of 2 "be_bytes 2 (Suc lvl)"] by (simp add: root_bytes_def del: be_bytes.simps)
  ultimately have "read_btree_extents img sb (?f @ attr) = Inr (concat (map leaves ts'))"
    using assms(10-12) fits unat_level [OF fits(2)]
    by (intro walk_btree_ptrs [OF _ fits(1) assms(7)]) (simp_all add: algebra_simps)
  then show ?thesis
    using read_btree_extents_eq [OF walk_btree_stored [OF assms(8,7,6,9)]] assms(3,4,7)
    by (simp add: fork read_file_def MAX_BMBT_PTRS_def)
qed

text \<open>
  An inode with room for one pointer in its root, to the leaf of the small volume, and sixteen bytes of
  attributes: the extent is lost.
\<close>

theorem btree_root_ptrs_shifted_witness:
  "\<exists>i. inode_parse (\<lambda>_. 0) (([0x49, 0x4e, 0x81, 0xa4, 2, 3] @ replicate 76 0 @ [3] @ replicate 17 0) @
        root_bytes 0 [1] (replicate 8 0) [0, 0, 0, 0] @ [0, 0, 0, 0] @ replicate 12 0) False = Inr i \<and>
    read_btree_extents (tree_leaf [] @ tree_leaf [tree_rec]) tree_sb (take 24 (di_data_fork i)) = Inr [tree_rec] \<and>
    read_btree_extents (tree_leaf [] @ tree_leaf [tree_rec]) tree_sb (di_data_fork i) = Inr []"
proof -
  let ?core = "[0x49, 0x4e, 0x81, 0xa4, 2, 3] @ replicate 76 0 @ [3] @ replicate 17 0 :: bytes"
  let ?f = "root_bytes 0 [1] (replicate 8 0) [0, 0, 0, 0]"
  let ?img = "tree_leaf [] @ tree_leaf [tree_rec]"
  have len: "length ?f = 24" "length (tree_leaf []) = 40" by (simp_all add: root_bytes_def tree_leaf_def)
  have m: "inode_magic_ok (?core @ ?f @ [0, 0, 0, 0] @ replicate 12 0)" "u8_at (?core @ ?f @ [0, 0, 0, 0] @ replicate 12 0) 4 = 2"
      "u8_at (?core @ ?f @ [0, 0, 0, 0] @ replicate 12 0) 5 = 3" "u8_at (?core @ ?f @ [0, 0, 0, 0] @ replicate 12 0) 82 = 3"
    by (simp_all add: inode_magic_ok_def be_u16_def get_range_def be_word_def be_nat_def XFS_DINODE_MAGIC_def u8_at_nth
        nth_append)
  then obtain i where i: "inode_parse (\<lambda>_. 0) (?core @ ?f @ [0, 0, 0, 0] @ replicate 12 0) False = Inr i"
    using inode_parse_cases(1) [OF m(1)] len by (force simp: inode_need_def inode_is_v3_def litino_defs)
  have leaf: "stored ?img tree_sb 1 0 (Leaf [tree_rec])" "stored ?img tree_sb 0 0 (Leaf [])"
    using stored_leaf [of ?img tree_sb 1 "[0x42, 0x4d, 0x41, 0x50, 0, 0, 0, 1] @ replicate 16 0" "[tree_rec]" "[]"]
      stored_leaf [of ?img tree_sb 0 "[0x42, 0x4d, 0x41, 0x50, 0, 0, 0, 0] @ replicate 16 0" "[]" "replicate 16 0"]
      tree_leaf_at [of "tree_leaf []" 1 "[tree_rec]" "[]"] tree_leaf_at [of "[]" 0 "[]" "tree_leaf [tree_rec]"]
      tree_rec_ok len
    by (simp_all add: USIZE_MAX_def) (simp_all add: tree_leaf_def)
  have p: "be_u64 (?f @ [0, 0, 0, 0] @ replicate 12 0) 20 = 0"
    by (simp add: root_bytes_def ptr_bytes_def be_bytes_numeral be_u64_def get_range_def be_word_def be_nat_def)
  show ?thesis
    using btree_root_ptrs_shifted [where core = ?core and lvl = 0 and ptrs = "[1]" and keys = "replicate 8 0"
        and pad = "[0, 0, 0, 0]" and attr = "[0, 0, 0, 0] @ replicate 12 0" and k = 1 and ts = "[Leaf [tree_rec]]" and ts' = "[Leaf []]"
        and img = ?img and sb = tree_sb, OF i] i inode_parse_Inr_D(2,3,6) [OF i] m leaf p len
    by (simp add: root_fits_def format_from_raw_def MAX_BMBT_PTRS_def)
qed

end
