(* ===== verification/Xfs_Forensic.thy ===== *)
theory Xfs_Forensic
  imports Xfs_Agheaders Xfs_Btree
begin

text \<open>
  The auditor of \<open>forensic/src/lib.rs\<close>: the kinds of anomaly with their code, note and evidence, what a
  finding is made of, the audit of a whole image, the recovery of deleted inodes and the map from an
  image offset back to an inode number.

  \<open>Severity\<close>, \<open>Evidence\<close> and \<open>Location\<close> are types of the \<open>forensicnomicon\<close> crate. The auditor only
  builds values of them: the constructors it uses are the datatypes below, nothing is said of the rest.

  The lemmas here serve both uses: the map from offsets inverts the inode location of the reader, and the
  sweep visits every slot once. What an audit reports is the subject of \<open>Xfs_Audit\<close>, what is recovered that
  of \<open>Xfs_Recovery\<close>.
\<close>

section \<open>Anomalies\<close>

datatype anomaly_kind =
    CrcMismatch string u64
  | SbMirrorDivergence u64 string u64 u64 u64
  | OrphanedInode u64 nat u32
  | ImpossibleGeometry string u64 u64

datatype severity = High | Medium

fun kind_severity :: "anomaly_kind \<Rightarrow> severity" where
  "kind_severity (CrcMismatch _ _) = High"
| "kind_severity (SbMirrorDivergence _ _ _ _ _) = High"
| "kind_severity (ImpossibleGeometry _ _ _) = High"
| "kind_severity (OrphanedInode _ _ _) = Medium"

fun kind_code :: "anomaly_kind \<Rightarrow> string" where
  "kind_code (CrcMismatch _ _) = ''XFS-CRC-MISMATCH''"
| "kind_code (SbMirrorDivergence _ _ _ _ _) = ''XFS-SB-MIRROR-DIVERGENCE''"
| "kind_code (OrphanedInode _ _ _) = ''XFS-ORPHANED-INODE''"
| "kind_code (ImpossibleGeometry _ _ _) = ''XFS-IMPOSSIBLE-GEOMETRY''"

text \<open>The em dash of the notes, as UTF-8. A number is printed in decimal.\<close>

definition em_dash :: string where
  "em_dash = [CHR 0xE2, CHR 0x80, CHR 0x94]"

definition dec_u64 :: "u64 \<Rightarrow> string" where
  "dec_u64 v = dec_digits (unat v)"

fun kind_note :: "anomaly_kind \<Rightarrow> string" where
  "kind_note (CrcMismatch what offset) =
     what @ '' at byte '' @ dec_u64 offset @ '': stored v5 CRC32c does not verify '' @ em_dash
     @ '' consistent with corruption or post-write tampering''"
| "kind_note (SbMirrorDivergence agno field primary secondary offset) =
     ''AG '' @ dec_u64 agno @ '' secondary superblock: '' @ field @ '' = '' @ dec_u64 secondary
     @ '' differs from AG-0 primary '' @ dec_u64 primary @ '' '' @ em_dash
     @ '' consistent with a spliced or edited image''"
| "kind_note (OrphanedInode agno bucket agino) =
     ''AG '' @ dec_u64 agno @ '' AGI unlinked bucket '' @ dec_digits bucket @ '' points at agino ''
     @ dec_digits (unat agino) @ '' '' @ em_dash
     @ '' an inode unlinked while still open (orphaned-but-live), a recovery lead''"
| "kind_note (ImpossibleGeometry field val limit) =
     ''geometry field '' @ field @ '' = '' @ dec_u64 val @ '' exceeds the sane bound '' @ dec_u64 limit
     @ '' for this image '' @ em_dash @ '' consistent with corruption or an allocation-bomb''"

datatype location = ByteOffset u64 | OtherLocation string u64

record evidence =
  ev_field :: string
  ev_value :: string
  ev_location :: "location option"

fun kind_evidence :: "anomaly_kind \<Rightarrow> evidence list" where
  "kind_evidence (CrcMismatch what offset) =
     [\<lparr>ev_field = ''structure'', ev_value = what, ev_location = Some (ByteOffset offset)\<rparr>]"
| "kind_evidence (SbMirrorDivergence agno field primary secondary offset) =
     [\<lparr>ev_field = field, ev_value = ''AG'' @ dec_u64 agno @ '' secondary='' @ dec_u64 secondary
         @ '' vs primary='' @ dec_u64 primary, ev_location = Some (ByteOffset offset)\<rparr>]"
| "kind_evidence (OrphanedInode agno bucket agino) =
     [\<lparr>ev_field = ''agi_unlinked'', ev_value = ''AG'' @ dec_u64 agno @ '' bucket['' @ dec_digits bucket
         @ ''] -> agino '' @ dec_digits (unat agino),
       ev_location = Some (OtherLocation ''xfs:agino'' (ucast agino))\<rparr>]"
| "kind_evidence (ImpossibleGeometry field val limit) =
     [\<lparr>ev_field = field, ev_value = dec_u64 val @ '' (limit '' @ dec_u64 limit @ '')'',
       ev_location = None\<rparr>]"

record anomaly =
  an_severity :: severity
  an_code :: string
  an_kind :: anomaly_kind
  an_note :: string

definition anomaly_new :: "anomaly_kind \<Rightarrow> anomaly" where
  "anomaly_new kind = \<lparr>an_severity = kind_severity kind, an_code = kind_code kind, an_kind = kind,
     an_note = kind_note kind\<rparr>"

section \<open>Readers and helpers\<close>

definition fbe_u16 :: "bytes \<Rightarrow> nat \<Rightarrow> u16" where
  "fbe_u16 d o' = (case get_range d o' (usat_add o' 2) of
     None \<Rightarrow> 0 | Some b \<Rightarrow> if length b = 2 then be_word b else 0)"

definition fbe_u32 :: "bytes \<Rightarrow> nat \<Rightarrow> u32" where
  "fbe_u32 d o' = (case get_range d o' (usat_add o' 4) of
     None \<Rightarrow> 0 | Some b \<Rightarrow> if length b = 4 then be_word b else 0)"

definition NULL_AGINO :: u32 where "NULL_AGINO = 0xffffffff"

definition image_len_blocks :: "nat \<Rightarrow> u64 \<Rightarrow> u64" where
  "image_len_blocks len bsize = (if bsize = 0 then 0 else word_of_nat len div bsize)"

definition is_power_of_two :: "nat \<Rightarrow> bool" where
  "is_power_of_two n \<longleftrightarrow> n \<noteq> 0 \<and> n AND (n - 1) = 0"

definition offset_to_inode :: "superblock \<Rightarrow> u64 \<Rightarrow> (u64 \<times> u64) option" where
  "offset_to_inode sb off =
    (let bsize = ucast (sb_blocksize sb);
         agblocks = ucast (sb_agblocks sb);
         inode_size = ucast (sb_inodesize sb)
     in if bsize = 0 \<or> agblocks = 0 \<or> inode_size = 0 then None
        else Option.bind (wchecked_mul agblocks bsize) (\<lambda>ag_bytes.
          let agno = off div ag_bytes;
              within = off mod ag_bytes;
              agblock = within div bsize;
              slot = (within mod bsize) div inode_size;
              inopblog = unat (sb_inopblog sb);
              agino_bits = unat (sb_agblklog sb) + inopblog
          in if 64 \<le> inopblog \<or> 64 \<le> agino_bits then None
             else
               let agino = push_bit inopblog agblock OR slot;
                   ino = push_bit agino_bits agno OR agino
               in Some (agno, ino)))"

section \<open>The audit\<close>

definition push_sb_divergence :: "u64 \<Rightarrow> u64 \<Rightarrow> superblock \<Rightarrow> superblock \<Rightarrow> anomaly_kind list" where
  "push_sb_divergence agno offset primary secondary =
    (let checks =
       [(''agblocks'', ucast (sb_agblocks primary), ucast (sb_agblocks secondary)),
        (''agcount'', ucast (sb_agcount primary), ucast (sb_agcount secondary)),
        (''blocksize'', ucast (sb_blocksize primary), ucast (sb_blocksize secondary)),
        (''inodesize'', ucast (sb_inodesize primary), ucast (sb_inodesize secondary))]
     in concat (map (\<lambda>(field, p, s). if p \<noteq> s then [SbMirrorDivergence agno field p s offset] else []) checks))"

text \<open>
  The kinds are what the code pushes, in its order; \<open>Anomaly::new\<close> is applied to each at the end.
  First the geometry check, then the body of the loop over the allocation groups.
\<close>

definition audit_geometry :: "u64 \<Rightarrow> u64 \<Rightarrow> u64 \<Rightarrow> anomaly_kind list" where
  "audit_geometry agcount ag_bytes image_len =
    (if agcount = 0 then [ImpossibleGeometry ''agcount'' 0 1]
     else if 0 < ag_bytes then
       let last_base = wsat_mul (wsat_sub agcount 1) ag_bytes
       in if image_len \<le> last_base
          then [ImpossibleGeometry ''agcount'' agcount (image_len div ag_bytes + 1)] else []
     else [])"

definition audit_secondary :: "(bytes \<Rightarrow> u32) \<Rightarrow> bytes \<Rightarrow> superblock \<Rightarrow> nat \<Rightarrow> u64 \<Rightarrow> u64 \<Rightarrow> anomaly_kind list" where
  "audit_secondary crcf img sb sect agno base =
    (if 1 \<le> agno then
       case get_range img (unat base) (usat_add (unat base) sect) of
         None \<Rightarrow> []
       | Some window \<Rightarrow>
         (case superblock_parse crcf window of
            Inl e \<Rightarrow> []
          | Inr sec \<Rightarrow>
            (if sb_is_v5 sb \<and> sb_crc_valid sec = Some False then [CrcMismatch ''superblock'' base] else [])
            @ push_sb_divergence agno base sb sec)
     else [])"

definition audit_agf :: "(bytes \<Rightarrow> u32) \<Rightarrow> bytes \<Rightarrow> bool \<Rightarrow> nat \<Rightarrow> u64 \<Rightarrow> anomaly_kind list" where
  "audit_agf crcf img is_v5 sect base =
    (let agf_off = usat_add (unat base) sect in
     case get_range img agf_off (usat_add agf_off sect) of
       None \<Rightarrow> []
     | Some window \<Rightarrow>
       (case agf_parse_verified crcf window is_v5 of
          Inl e \<Rightarrow> []
        | Inr agf \<Rightarrow> if agf_crc_valid agf = Some False then [CrcMismatch ''AGF'' (word_of_nat agf_off)] else []))"

definition audit_agi :: "(bytes \<Rightarrow> u32) \<Rightarrow> bytes \<Rightarrow> bool \<Rightarrow> nat \<Rightarrow> u64 \<Rightarrow> u64 \<Rightarrow> anomaly_kind list" where
  "audit_agi crcf img is_v5 sect agno base =
    (let agi_off = usat_add (unat base) (usat_mul sect 2) in
     case get_range img agi_off (usat_add agi_off sect) of
       None \<Rightarrow> []
     | Some window \<Rightarrow>
       (case agi_parse_verified crcf window is_v5 of
          Inl e \<Rightarrow> []
        | Inr agi \<Rightarrow>
          (if agi_crc_valid agi = Some False then [CrcMismatch ''AGI'' (word_of_nat agi_off)] else [])
          @ concat (map (\<lambda>(bucket, agino). if agino \<noteq> NULL_AGINO then [OrphanedInode agno bucket agino] else [])
              (enumerate 0 (agi_unlinked agi)))))"

fun audit_ags :: "(bytes \<Rightarrow> u32) \<Rightarrow> bytes \<Rightarrow> superblock \<Rightarrow> nat \<Rightarrow> u64 \<Rightarrow> u64 \<Rightarrow> nat \<Rightarrow> anomaly_kind list" where
  "audit_ags crcf img sb sect ag_bytes agno 0 = []"
| "audit_ags crcf img sb sect ag_bytes agno (Suc k) =
    (let base = wsat_mul agno ag_bytes in
     if length img \<le> unat base then []
     else audit_secondary crcf img sb sect agno base
          @ audit_agf crcf img (sb_is_v5 sb) sect base
          @ audit_agi crcf img (sb_is_v5 sb) sect agno base
          @ audit_ags crcf img sb sect ag_bytes (agno + 1) k)"

text \<open>
  \<open>while off.saturating_add(size) <= image.len() { body(off); off = off.saturating_add(size) }\<close>: the
  loop of both inode scans. The callers guard \<open>size\<close> to be at least 176, and a slice is shorter than
  \<open>usize::MAX\<close>, so the guards on \<open>size\<close> and \<open>len\<close> always hold.
\<close>

function sweep :: "(nat \<Rightarrow> 'a list) \<Rightarrow> nat \<Rightarrow> nat \<Rightarrow> nat \<Rightarrow> 'a list" where
  "sweep body len sz off =
    (if usat_add off sz \<le> len \<and> 0 < sz \<and> len < USIZE_MAX
     then body off @ sweep body len sz (usat_add off sz) else [])"
  by pat_completeness auto

termination
  by (relation "measure (\<lambda>(body, len, sz, off). len - off)") (auto simp: usat_add_def min_def)

declare sweep.simps [simp del]

definition audit_inode :: "(bytes \<Rightarrow> u32) \<Rightarrow> bytes \<Rightarrow> superblock \<Rightarrow> nat \<Rightarrow> anomaly_kind list" where
  "audit_inode crcf img sb off =
    (if fbe_u16 img off = XFS_DINODE_MAGIC then
       case get_range img off (usat_add off (unat (sb_inodesize sb))) of
         None \<Rightarrow> []
       | Some window \<Rightarrow>
         (case inode_parse crcf window False of
            Inl e \<Rightarrow> []
          | Inr inode \<Rightarrow>
            (case offset_to_inode sb (word_of_nat off) of
               None \<Rightarrow> []
             | Some (agno, ino) \<Rightarrow>
               if di_ino inode = Some ino \<and> di_crc_valid inode = Some False
               then [CrcMismatch ''inode'' (word_of_nat off)] else []))
     else [])"

definition audit_sector_size :: "bytes \<Rightarrow> nat" where
  "audit_sector_size img =
    (let raw_sect = unat (fbe_u16 img 102)
     in if is_power_of_two raw_sect \<and> 512 \<le> raw_sect \<and> raw_sect \<le> 65536 then raw_sect else 512)"

definition audit_kinds :: "(bytes \<Rightarrow> u32) \<Rightarrow> bytes \<Rightarrow> anomaly_kind list" where
  "audit_kinds crcf img =
    (if length img < 220 \<or> fbe_u32 img 0 \<noteq> XFS_SB_MAGIC then []
     else
       let sect = audit_sector_size img;
           sb_end = min sect (length img)
       in case superblock_parse crcf (take sb_end img) of
            Inl e \<Rightarrow> []
          | Inr sb \<Rightarrow>
            let is_v5 = sb_is_v5 sb;
                bsize = ucast (sb_blocksize sb);
                agblocks = ucast (sb_agblocks sb);
                agcount = ucast (sb_agcount sb);
                ag_bytes = wsat_mul agblocks bsize;
                image_len = word_of_nat (length img);
                inode_size = unat (sb_inodesize sb)
            in (if is_v5 \<and> sb_crc_valid sb = Some False then [CrcMismatch ''superblock'' 0] else [])
               @ audit_geometry agcount ag_bytes image_len
               @ (if 0 < ag_bytes then audit_ags crcf img sb sect ag_bytes 0 (unat agcount) else [])
               @ (if is_v5 \<and> 176 \<le> inode_size
                  then sweep (audit_inode crcf img sb) (length img) inode_size 0 else []))"

definition audit_image :: "(bytes \<Rightarrow> u32) \<Rightarrow> bytes \<Rightarrow> anomaly list" where
  "audit_image crcf img = map anomaly_new (audit_kinds crcf img)"

section \<open>Findings\<close>

text \<open>
  What \<open>impl Observation for Anomaly\<close> answers, and \<open>audit_findings\<close>. The conversion \<open>to_finding\<close> of an
  observation is a provided method of the \<open>forensicnomicon\<close> crate: a parameter, given the answers of the
  four methods of the observation.
\<close>

record observation =
  ob_severity :: "severity option"
  ob_code :: string
  ob_note :: string
  ob_evidence :: "evidence list"

definition anomaly_observation :: "anomaly \<Rightarrow> observation" where
  "anomaly_observation a = \<lparr>ob_severity = Some (an_severity a), ob_code = an_code a, ob_note = an_note a,
     ob_evidence = kind_evidence (an_kind a)\<rparr>"

record finding_source =
  src_analyzer :: string
  src_scope :: string
  src_version :: "string option"

definition audit_findings ::
    "(observation \<Rightarrow> finding_source \<Rightarrow> 'f) \<Rightarrow> (bytes \<Rightarrow> u32) \<Rightarrow> bytes \<Rightarrow> string \<Rightarrow> 'f list" where
  "audit_findings to_finding crcf img scope =
    (let source = \<lparr>src_analyzer = ''xfs-forensic'', src_scope = scope, src_version = None\<rparr>
     in map (\<lambda>a. to_finding (anomaly_observation a) source) (audit_image crcf img))"

section \<open>Deleted inodes\<close>

record deleted_inode =
  del_agno :: u64
  del_inode_number :: u64
  del_residual_extents :: "bmbt_rec list"
  del_ctime :: xfs_timestamp
  del_recovered_size_estimate :: u64
  del_carved :: bytes

text \<open>The loop over the records of a fork, from byte \<open>p\<close>; a slice is shorter than \<open>usize::MAX\<close>.\<close>

function residual_loop :: "bytes \<Rightarrow> u64 \<Rightarrow> nat \<Rightarrow> bmbt_rec list" where
  "residual_loop fork total_blocks p =
    (if usat_add p 16 \<le> length fork \<and> length fork < USIZE_MAX then
       case get_range fork p (usat_add p 16) of
         None \<Rightarrow> []
       | Some raw \<Rightarrow>
         if raw = replicate 16 0 then []
         else
           let r = unpack raw
           in if blockcount r = 0 \<or> startblock r = 0 then []
              else if total_blocks < wsat_add (startblock r) (blockcount r) then []
              else r # residual_loop fork total_blocks (usat_add p 16)
     else [])"
  by pat_completeness auto

termination
  by (relation "measure (\<lambda>(fork, total_blocks, p). length fork - p)") (auto simp: usat_add_def min_def)

declare residual_loop.simps [simp del]

definition decode_residual :: "bytes \<Rightarrow> u64 \<Rightarrow> bmbt_rec list" where
  "decode_residual fork total_blocks = residual_loop fork total_blocks 0"

text \<open>The body of the loop over the inode slots.\<close>

definition recover_slot :: "(bytes \<Rightarrow> u32) \<Rightarrow> bytes \<Rightarrow> superblock \<Rightarrow> nat \<Rightarrow> deleted_inode list" where
  "recover_slot crcf img sb off =
    (let bsize = ucast (sb_blocksize sb);
         total_blocks = image_len_blocks (length img) bsize
     in case get_range img off (usat_add off (unat (sb_inodesize sb))) of
          None \<Rightarrow> []
        | Some window \<Rightarrow>
          if fbe_u16 window 0 = XFS_DINODE_MAGIC then
            case inode_parse crcf window False of
              Inl e \<Rightarrow> []
            | Inr inode \<Rightarrow>
              if 3 \<le> di_version inode \<and> di_mode inode = 0 then
                let residual = decode_residual (di_data_fork inode) total_blocks
                in if residual = [] then []
                   else case offset_to_inode sb (word_of_nat off) of
                          None \<Rightarrow> []
                        | Some (agno, ino) \<Rightarrow>
                          let blocks = sum_list (map blockcount residual);
                              recovered_size_estimate = wsat_mul blocks bsize;
                              carved = (case assemble_extents img sb residual recovered_size_estimate of
                                          Inl e \<Rightarrow> [] | Inr bs \<Rightarrow> bs)
                          in [\<lparr>del_agno = agno, del_inode_number = ino, del_residual_extents = residual,
                               del_ctime = di_ctime inode,
                               del_recovered_size_estimate = recovered_size_estimate,
                               del_carved = carved\<rparr>]
              else []
          else [])"

definition recover_deleted :: "(bytes \<Rightarrow> u32) \<Rightarrow> bytes \<Rightarrow> superblock \<Rightarrow> deleted_inode list" where
  "recover_deleted crcf img sb =
    (let inode_size = unat (sb_inodesize sb);
         bsize = (ucast (sb_blocksize sb) :: u64)
     in if inode_size < 176 \<or> bsize = 0 then []
        else sweep (recover_slot crcf img sb) (length img) inode_size 0)"

section \<open>The analyzer's own readers\<close>

lemma get_range_usat:
  assumes "length d < USIZE_MAX"
  shows "get_range d a (usat_add a n) = get_range d a (a + n)"
    and "get_range d (usat_add a b) (usat_add (usat_add a b) n) = get_range d (a + b) (a + b + n)"
  using assms by (auto simp: get_range_def usat_add_def min_def)

lemma fbe_eq:
  assumes "length d < USIZE_MAX"
  shows "fbe_u16 d k = be_u16 d k" and "fbe_u32 d k = be_u32 d k"
proof -
  show "fbe_u16 d k = be_u16 d k" "fbe_u32 d k = be_u32 d k"
    by (auto simp: get_range_usat [OF assms] fbe_u16_def fbe_u32_def be_u16_def be_u32_def be_word_def split: option.splits
        dest: get_range_length)
qed

lemma off_eq: "n < 2 ^ 64 \<Longrightarrow> off = word_of_nat n \<longleftrightarrow> unat (off :: u64) = n"
  by (auto simp: word_unat_eq_iff unat_of_nat)

section \<open>From an offset back to an inode\<close>

lemma unat_word_divmod:
  "unat (a div b :: u64) = unat a div unat b" "unat (a mod b :: u64) = unat a mod unat b"
  by (simp_all add: unat_div unat_mod)

lemma unat_ag_bytes:
  "wchecked_mul (ucast (sb_agblocks sb)) (ucast (sb_blocksize sb) :: u64) =
     Some (ucast (sb_agblocks sb) * ucast (sb_blocksize sb))"
  "unat (ucast (sb_agblocks sb) * ucast (sb_blocksize sb) :: u64) = unat (sb_agblocks sb) * unat (sb_blocksize sb)"
proof -
  have "unat (sb_agblocks sb) * unat (sb_blocksize sb) \<le> 4294967295 * 4294967295"
    by (intro mult_le_mono unat_u32)
  then have lt: "unat (sb_agblocks sb) * unat (sb_blocksize sb) < 2 ^ 64" by simp
  then show "wchecked_mul (ucast (sb_agblocks sb)) (ucast (sb_blocksize sb) :: u64) =
     Some (ucast (sb_agblocks sb) * ucast (sb_blocksize sb))"
    by (simp add: wchecked_mul_def unat_ucast_widen)
  show "unat (ucast (sb_agblocks sb) * ucast (sb_blocksize sb) :: u64) = unat (sb_agblocks sb) * unat (sb_blocksize sb)"
    using lt by (subst unat_mul_exact) (simp_all add: unat_ucast_widen)
qed

lemma offset_inode_back:
  assumes geo: "sb_geometry_ok sb" and ag: "ino_in_ag sb ino" and bits: "loc_bits sb < 64"
    and lt: "unat (loc_byte_offset (inode_to_location sb ino)) < USIZE_MAX"
  shows "offset_to_inode sb (loc_byte_offset (inode_to_location sb ino)) =
    Some (loc_agno (inode_to_location sb ino), ino)"
proof -
  let ?L = "inode_to_location sb ino"
  let ?bs = "unat (sb_blocksize sb)" and ?ag = "unat (sb_agblocks sb)" and ?isz = "unat (sb_inodesize sb)"
  let ?P = "2 ^ unat (sb_inopblog sb) :: nat" and ?off = "unat (loc_byte_offset ?L)"
  let ?no = "unat (loc_agno ?L)" and ?blk = "unat (loc_agblock ?L)" and ?slot = "unat (loc_offset ?L)"
  have isz: "0 < ?isz" "?isz * ?P \<le> ?bs" using geo by (auto simp: sb_geometry_ok_def)
  then have bs: "0 < ?bs" by (metis le_0_eq mult_is_0 not_gr0 power_not_zero zero_neq_numeral)
  have blk: "?blk < ?ag" using ag by (simp add: ino_in_ag_def)
  have slot: "?slot < ?P" by (simp add: location_split)
  have "(?slot + 1) * ?isz \<le> ?P * ?isz" using slot by (intro mult_right_mono) auto
  then have so: "?slot * ?isz < ?bs" using isz by (simp add: mult.commute)
  have "(?blk + 1) * ?bs \<le> ?ag * ?bs" using blk by (intro mult_right_mono) auto
  then have wi: "?blk * ?bs + ?slot * ?isz < ?ag * ?bs" using so by simp
  have off: "?off = ?no * (?ag * ?bs) + (?blk * ?bs + ?slot * ?isz)"
    using location_exact [OF bs lt] by (simp add: add_mult_distrib mult.assoc)
  have d: "?off div (?ag * ?bs) = ?no" "?off mod (?ag * ?bs) = ?blk * ?bs + ?slot * ?isz"
    unfolding off by (rule digit_split [OF wi])+
  have w: "(?blk * ?bs + ?slot * ?isz) div ?bs = ?blk" "(?blk * ?bs + ?slot * ?isz) mod ?bs = ?slot * ?isz"
    by (rule digit_split [OF so])+
  define abw where "abw = (ucast (sb_agblocks sb) * ucast (sb_blocksize sb) :: u64)"
  have ab: "unat abw = ?ag * ?bs" by (simp add: abw_def unat_ag_bytes)
  have e_no: "loc_byte_offset ?L div abw = loc_agno ?L"
    by (simp only: word_unat_eq_iff unat_word_divmod ab d)
  have e_blk: "loc_byte_offset ?L mod abw div ucast (sb_blocksize sb) = loc_agblock ?L"
    by (simp add: word_unat_eq_iff unat_word_divmod ab d w unat_ucast_widen)
  have e_slot: "loc_byte_offset ?L mod abw mod ucast (sb_blocksize sb) div ucast (sb_inodesize sb) = loc_offset ?L"
    using isz(1) by (simp add: word_unat_eq_iff unat_word_divmod ab d w so unat_ucast_widen)
  have agino: "unat (loc_agino ?L) = ?blk * ?P + ?slot"
    by (simp only: location_split div_mult_mod_eq)
  have "unat (push_bit (unat (sb_inopblog sb)) (loc_agblock ?L) OR loc_offset ?L) = ?blk * ?P + ?slot"
    using slot unat_u64_less [of "loc_agino ?L"] agino by (intro unat_push_or) auto
  then have e_agino: "push_bit (unat (sb_inopblog sb)) (loc_agblock ?L) OR loc_offset ?L = loc_agino ?L"
    by (simp only: word_unat_eq_iff agino)
  have ino: "unat ino = ?no * 2 ^ loc_bits sb + unat (loc_agino ?L)"
    by (simp only: location_split div_mult_mod_eq)
  have "unat (loc_agino ?L) < 2 ^ loc_bits sb" by (simp add: location_split)
  then have "unat (push_bit (loc_bits sb) (loc_agno ?L) OR loc_agino ?L) = ?no * 2 ^ loc_bits sb + unat (loc_agino ?L)"
    using unat_u64_less [of ino] ino by (intro unat_push_or) auto
  then have e_ino: "push_bit (loc_bits sb) (loc_agno ?L) OR loc_agino ?L = ino"
    by (simp only: word_unat_eq_iff ino)
  have nz: "(ucast (sb_blocksize sb) :: u64) \<noteq> 0" "(ucast (sb_agblocks sb) :: u64) \<noteq> 0"
    "(ucast (sb_inodesize sb) :: u64) \<noteq> 0"
    using bs blk isz(1) by (auto simp: word_unat_eq_iff unat_ucast_widen)
  have lb: "unat (sb_agblklog sb) + unat (sb_inopblog sb) = loc_bits sb" by (simp add: loc_bits_def)
  have "unat (sb_inopblog sb) < 64" using bits by (simp add: loc_bits_def)
  with nz bits show ?thesis
    unfolding offset_to_inode_def Let_def unat_ag_bytes(1) Option.bind.simps abw_def [symmetric]
      e_no e_blk e_slot e_agino lb e_ino by simp
qed

section \<open>The sweep\<close>

lemma sweep_set:
  assumes "0 < sz" "len < USIZE_MAX"
  shows "set (sweep body len sz off) = (\<Union>i \<in> {i. off + i * sz + sz \<le> len}. set (body (off + i * sz)))"
  using assms
proof (induction body len sz off rule: sweep.induct)
  case (1 body len sz off)
  show ?case
  proof (cases "usat_add off sz \<le> len \<and> 0 < sz \<and> len < USIZE_MAX")
    case True
    then have le: "off + sz \<le> len" and e: "usat_add off sz = off + sz"
      by (auto simp: usat_add_def min_def split: if_splits)
    have "{i. off + i * sz + sz \<le> len} = insert 0 (Suc ` {i. off + sz + i * sz + sz \<le> len})"
    proof (intro set_eqI iffI)
      fix i assume "i \<in> {i. off + i * sz + sz \<le> len}"
      then show "i \<in> insert 0 (Suc ` {i. off + sz + i * sz + sz \<le> len})"
        by (cases i) (auto simp: add.assoc)
    qed (use le in \<open>auto simp: add.assoc\<close>)
    then show ?thesis
      using 1(1) [OF True] True by (subst sweep.simps) (simp add: e add.assoc)
  next
    case False
    then have "\<not> off + i * sz + sz \<le> len" for i
      using 1(2,3) by (auto simp: usat_add_def min_def split: if_splits)
    then show ?thesis using False by (subst sweep.simps) auto
  qed
qed

end
