(* ===== verification/Xfs_Crc32c.thy ===== *)
theory Xfs_Crc32c
  imports Xfs_Crc
begin

text \<open>
  CRC-32C. \<open>core/src/crc.rs\<close> takes its checksum from the \<open>crc\<close> crate, as the algorithm \<open>CRC_32_ISCSI\<close>; the
  model leaves it open. This is the published algorithm of that name (reflected polynomial 0x82F63B78,
  register started and inverted with ones), bit by bit. It serves as the concrete function at which
  properties that assume something of the checksum are shown to apply: it detects the change of any one
  byte, because every step of the register can be undone.
\<close>

section \<open>The sum\<close>

unbundle bit_operations_syntax

definition crc32c_bit :: "u32 \<Rightarrow> u32" where
  "crc32c_bit r = (if bit r 0 then drop_bit 1 r XOR 0x82F63B78 else drop_bit 1 r)"

definition crc32c_byte :: "u32 \<Rightarrow> u8 \<Rightarrow> u32" where
  "crc32c_byte r b = (crc32c_bit ^^ 8) (r XOR ucast b)"

definition crc32c :: "bytes \<Rightarrow> u32" where
  "crc32c bs = NOT (foldl crc32c_byte 0xFFFFFFFF bs)"

section \<open>A changed byte changes the sum\<close>

lemma crc32c_bit_top: "bit (crc32c_bit r) 31 \<longleftrightarrow> bit r 0"
  using bit_imp_le_length [of r 32] by (auto simp: crc32c_bit_def bit_simps)

lemma xor_cancel: "a XOR c = b XOR c \<longleftrightarrow> a = (b :: 'a::len word)"
proof
  assume "a XOR c = b XOR c"
  then have "(a XOR c) XOR c = (b XOR c) XOR c" by simp
  then show "a = b" by (simp add: xor.assoc)
qed simp

lemma crc32c_bit_inj: "inj crc32c_bit"
proof (rule injI)
  fix r s assume eq: "crc32c_bit r = crc32c_bit s"
  then have b: "bit r 0 = bit s 0" using crc32c_bit_top by metis
  then have d: "drop_bit 1 r = drop_bit 1 s"
    using eq by (auto simp: crc32c_bit_def xor_cancel split: if_splits)
  show "r = s"
  proof (rule bit_eqI)
    fix n show "bit r n = bit s n"
    proof (cases n)
      case (Suc m)
      then show ?thesis using arg_cong [OF d, of "\<lambda>x. bit x m"] by (simp add: bit_drop_bit_eq)
    qed (use b in simp)
  qed
qed

lemma crc32c_byte_inj: "crc32c_byte r a = crc32c_byte s a \<longleftrightarrow> r = s" "crc32c_byte r a = crc32c_byte r b \<longleftrightarrow> a = b"
proof -
  have i: "inj (crc32c_bit ^^ 8)" by (rule inj_fn [OF crc32c_bit_inj])
  show "crc32c_byte r a = crc32c_byte s a \<longleftrightarrow> r = s"
    by (auto simp: crc32c_byte_def inj_eq [OF i] xor_cancel)
  have "ucast a = (ucast b :: u32) \<longleftrightarrow> a = b"
    using unat_ucast_widen [of a, where 'b = 32] unat_ucast_widen [of b, where 'b = 32]
    by (auto simp: word_unat_eq_iff)
  then show "crc32c_byte r a = crc32c_byte r b \<longleftrightarrow> a = b"
    using xor_cancel [of "ucast a" r "ucast b"]
    by (auto simp: crc32c_byte_def inj_eq [OF i] xor.commute [of r])
qed

lemma foldl_crc32c_inj: "foldl crc32c_byte r xs = foldl crc32c_byte s xs \<longleftrightarrow> r = s"
  by (induction xs arbitrary: r s) (simp_all add: crc32c_byte_inj(1))

lemma crc32c_detects: "detects_byte_change crc32c"
  unfolding detects_byte_change_def
proof (intro allI impI)
  fix xs :: bytes and i b
  assume i: "i < length xs" and ne: "xs ! i \<noteq> b"
  have "foldl crc32c_byte r (xs[i := b]) \<noteq> foldl crc32c_byte r xs" for r
    using i ne
    by (subst (2) id_take_nth_drop [OF i]) (simp add: upd_conv_take_nth_drop foldl_crc32c_inj crc32c_byte_inj(2))
  then show "crc32c (xs[i := b]) \<noteq> crc32c xs" by (simp add: crc32c_def)
qed


text \<open>The check value of the standard: the sum of the digits 1 to 9.\<close>

lemma crc32c_byte_steps: "crc32c_byte r b = crc32c_bit (crc32c_bit (crc32c_bit (crc32c_bit
    (crc32c_bit (crc32c_bit (crc32c_bit (crc32c_bit (r XOR ucast b))))))))"
  by (simp add: crc32c_byte_def numeral_eq_Suc)

lemmas crc32c_eval = crc32c_byte_steps crc32c_bit_def [of "numeral k" for k]

lemma crc32c_check: "crc32c [0x31, 0x32, 0x33, 0x34, 0x35, 0x36, 0x37, 0x38, 0x39] = 0xE3069283"
  by (simp add: crc32c_def crc32c_eval)

end
