(* ===== verification/Xfs_Audit.thy ===== *)
theory Xfs_Audit
  imports Xfs_Forensic Xfs_Crc32c
begin

text \<open>
  What \<open>audit_image\<close> of \<open>forensic/src/lib.rs\<close> reports. The lemmas trace each kind of anomaly to the part of
  the image it can come from; the properties say which checksum mismatches, divergent superblock fields
  and orphaned inodes are reported, and that each one reported is there.
\<close>

section \<open>What an audit reports\<close>

text \<open>The part of an allocation group the loop over the groups visits once.\<close>

definition ag_findings :: "(bytes \<Rightarrow> u32) \<Rightarrow> bytes \<Rightarrow> superblock \<Rightarrow> nat \<Rightarrow> u64 \<Rightarrow> u64 \<Rightarrow> anomaly_kind list" where
  "ag_findings crcf img sb sect agno base = audit_secondary crcf img sb sect agno base
     @ audit_agf crcf img (sb_is_v5 sb) sect base @ audit_agi crcf img (sb_is_v5 sb) sect agno base"

lemma wsat_mul_mono: "unat a \<le> unat b \<Longrightarrow> unat (wsat_mul a c) \<le> unat (wsat_mul b (c :: u64))"
  by (simp add: unat_wsat_mul) (meson min.coboundedI1 min.coboundedI2 min.boundedI mult_le_mono1 order_refl)

text \<open>The break at the first group past the image loses none: the bases grow with the group number.\<close>

lemma audit_ags_iff:
  assumes "unat a + k < 2 ^ 64"
  shows "x \<in> set (audit_ags crcf img sb sect agb a k) \<longleftrightarrow>
    (\<exists>n. unat a \<le> unat n \<and> unat n < unat a + k \<and> unat (wsat_mul n agb) < length img \<and>
       x \<in> set (ag_findings crcf img sb sect n (wsat_mul n agb)))"
  using assms
proof (induction k arbitrary: a)
  case (Suc k)
  show ?case
  proof (cases "length img \<le> unat (wsat_mul a agb)")
    case True
    then show ?thesis using wsat_mul_mono [of a _ agb] by (force simp: not_less)
  next
    case False
    have a1: "unat (a + 1) = unat a + 1" using Suc.prems by (subst unat_add_exact) auto
    let ?P = "\<lambda>n. unat (wsat_mul n agb) < length img \<and> x \<in> set (ag_findings crcf img sb sect n (wsat_mul n agb))"
    let ?R = "\<lambda>n. unat (a + 1) \<le> unat n \<and> unat n < unat (a + 1) + k"
    have split: "n = a \<or> ?R n \<longleftrightarrow> unat a \<le> unat n \<and> unat n < unat a + Suc k" for n
      unfolding a1 word_unat_eq_iff by arith
    have prem: "unat (a + 1) + k < 2 ^ 64" using Suc.prems a1 by simp
    have "x \<in> set (audit_ags crcf img sb sect agb a (Suc k)) \<longleftrightarrow>
        ?P a \<or> x \<in> set (audit_ags crcf img sb sect agb (a + 1) k)"
      using False by (auto simp: Let_def ag_findings_def)
    also have "\<dots> \<longleftrightarrow> (\<exists>n. (n = a \<or> ?R n) \<and> ?P n)"
      unfolding Suc.IH [OF prem] by blast
    also have "\<dots> \<longleftrightarrow> (\<exists>n. unat a \<le> unat n \<and> unat n < unat a + Suc k \<and> ?P n)"
      by (simp only: split conj_assoc)
    finally show ?thesis .
  qed
qed simp

text \<open>
  The abstract image: the primary superblock the audit works with, the base of a group and sector
  \<open>i\<close> of a group that starts inside the image, all in exact arithmetic.
\<close>

definition primary_of :: "(bytes \<Rightarrow> u32) \<Rightarrow> bytes \<Rightarrow> superblock option" where
  "primary_of crcf img = (if 220 \<le> length img \<and> be_u32 img 0 = XFS_SB_MAGIC then
     (case superblock_parse crcf (take (audit_sector_size img) img) of Inl e \<Rightarrow> None | Inr sb \<Rightarrow> Some sb)
   else None)"

definition ag_base :: "superblock \<Rightarrow> u64 \<Rightarrow> nat" where
  "ag_base sb n = unat n * (unat (sb_agblocks sb) * unat (sb_blocksize sb))"

definition ag_in_image :: "bytes \<Rightarrow> superblock \<Rightarrow> u64 \<Rightarrow> bool" where
  "ag_in_image img sb n \<longleftrightarrow> 0 < unat (sb_agblocks sb) * unat (sb_blocksize sb) \<and>
     unat n < unat (sb_agcount sb) \<and> ag_base sb n < length img"

definition ag_sector :: "bytes \<Rightarrow> superblock \<Rightarrow> u64 \<Rightarrow> nat \<Rightarrow> bytes option" where
  "ag_sector img sb n i = (if ag_in_image img sb n then
     let s = audit_sector_size img in get_range img (ag_base sb n + i * s) (ag_base sb n + i * s + s)
   else None)"

lemma audit_sector_size_bounds: "512 \<le> audit_sector_size img" "audit_sector_size img \<le> 65536"
  by (auto simp: audit_sector_size_def Let_def)

lemma wsat_base:
  assumes "n < USIZE_MAX"
  shows "unat (wsat_mul m (wsat_mul (ucast (sb_agblocks sb)) (ucast (sb_blocksize sb)))) < n \<longleftrightarrow> ag_base sb m < n"
    and "ag_base sb m < n \<Longrightarrow>
      wsat_mul m (wsat_mul (ucast (sb_agblocks sb)) (ucast (sb_blocksize sb))) = word_of_nat (ag_base sb m)"
proof -
  let ?b = "wsat_mul (ucast (sb_agblocks sb)) (ucast (sb_blocksize sb)) :: u64"
  have b: "unat ?b = unat (sb_agblocks sb) * unat (sb_blocksize sb)"
    using unat_ag_bytes [of sb] by (simp add: wsat_mul_def wchecked_mul_def split: if_splits)
  have m: "unat (wsat_mul m ?b) = min (ag_base sb m) USIZE_MAX"
    by (simp only: unat_wsat_mul [of m] b ag_base_def USIZE_MAX_def) simp
  then show "unat (wsat_mul m ?b) < n \<longleftrightarrow> ag_base sb m < n" using assms by auto
  show "wsat_mul m ?b = word_of_nat (ag_base sb m)" if "ag_base sb m < n"
    using m that assms by (intro word_unat_eq_iff [THEN iffD2]) (simp add: unat_of_nat USIZE_MAX_def)
qed

lemma ag_bytes_pos:
  "0 < (wsat_mul (ucast (sb_agblocks sb)) (ucast (sb_blocksize sb)) :: u64) \<longleftrightarrow>
     0 < unat (sb_agblocks sb) * unat (sb_blocksize sb)"
  using unat_ag_bytes [of sb] by (simp add: wsat_mul_def wchecked_mul_def word_less_nat_alt split: if_splits)

definition audit_fixed :: "(bytes \<Rightarrow> u32) \<Rightarrow> bytes \<Rightarrow> superblock \<Rightarrow> anomaly_kind list" where
  "audit_fixed crcf img sb =
     (if sb_is_v5 sb \<and> sb_crc_valid sb = Some False then [CrcMismatch ''superblock'' 0] else [])
     @ audit_geometry (ucast (sb_agcount sb)) (wsat_mul (ucast (sb_agblocks sb)) (ucast (sb_blocksize sb)))
         (word_of_nat (length img))"

lemma audit_kinds_iff:
  assumes len: "length img < USIZE_MAX"
  shows "x \<in> set (audit_kinds crcf img) \<longleftrightarrow> (\<exists>sb. primary_of crcf img = Some sb \<and>
    (x \<in> set (audit_fixed crcf img sb)
     \<or> (\<exists>n. ag_in_image img sb n \<and>
          x \<in> set (ag_findings crcf img sb (audit_sector_size img) n (word_of_nat (ag_base sb n))))
     \<or> sb_is_v5 sb \<and> 176 \<le> unat (sb_inodesize sb) \<and>
         (\<exists>i. i * unat (sb_inodesize sb) + unat (sb_inodesize sb) \<le> length img \<and>
            x \<in> set (audit_inode crcf img sb (i * unat (sb_inodesize sb))))))"
proof (cases "220 \<le> length img \<and> be_u32 img 0 = XFS_SB_MAGIC")
  case False
  then show ?thesis by (auto simp: audit_kinds_def primary_of_def fbe_eq [OF len])
next
  case True
  have t: "take (min (audit_sector_size img) (length img)) img = take (audit_sector_size img) img"
    by (simp add: min_def)
  show ?thesis
  proof (cases "superblock_parse crcf (take (audit_sector_size img) img)")
    case (Inl e)
    then show ?thesis using True by (simp add: audit_kinds_def primary_of_def fbe_eq [OF len] Let_def t)
  next
    case (Inr sb)
    let ?ab = "wsat_mul (ucast (sb_agblocks sb)) (ucast (sb_blocksize sb)) :: u64"
    let ?isz = "unat (sb_inodesize sb)"
    have loop: "x \<in> set (if 0 < ?ab then audit_ags crcf img sb (audit_sector_size img) ?ab 0
          (unat (ucast (sb_agcount sb) :: u64)) else []) \<longleftrightarrow>
        (\<exists>n. ag_in_image img sb n \<and>
          x \<in> set (ag_findings crcf img sb (audit_sector_size img) n (word_of_nat (ag_base sb n))))"
      using unat_u32 [of "sb_agcount sb"] wsat_base [OF len]
      by (auto simp: audit_ags_iff ag_bytes_pos ag_in_image_def unat_ucast_widen)
    have sw: "x \<in> set (if sb_is_v5 sb \<and> 176 \<le> ?isz then sweep (audit_inode crcf img sb) (length img) ?isz 0 else []) \<longleftrightarrow>
        sb_is_v5 sb \<and> 176 \<le> ?isz \<and> (\<exists>i. i * ?isz + ?isz \<le> length img \<and> x \<in> set (audit_inode crcf img sb (i * ?isz)))"
      by (auto simp: sweep_set len)
    have "audit_kinds crcf img = audit_fixed crcf img sb
        @ (if 0 < ?ab then audit_ags crcf img sb (audit_sector_size img) ?ab 0 (unat (ucast (sb_agcount sb) :: u64)) else [])
        @ (if sb_is_v5 sb \<and> 176 \<le> ?isz then sweep (audit_inode crcf img sb) (length img) ?isz 0 else [])"
      using True Inr by (simp only: audit_kinds_def fbe_eq [OF len] Let_def t audit_fixed_def
          sum.case append_assoc) simp
    moreover have "primary_of crcf img = Some sb" using True Inr by (simp add: primary_of_def)
    ultimately show ?thesis using loop sw by (simp only: set_append Un_iff option.inject) blast
  qed
qed

lemma ag_sector_in_image: "ag_sector img sb m i = Some w \<Longrightarrow> ag_in_image img sb m"
  by (simp add: ag_sector_def split: if_splits)

text \<open>What each kind of anomaly can come from.\<close>

lemma ag_sector_at:
  assumes "length img < USIZE_MAX" and "ag_in_image img sb n"
  shows "ag_sector img sb n 0 = get_range img (unat (word_of_nat (ag_base sb n) :: u64))
      (usat_add (unat (word_of_nat (ag_base sb n) :: u64)) (audit_sector_size img))"
    and "ag_sector img sb n 1 = (let o' = usat_add (unat (word_of_nat (ag_base sb n) :: u64)) (audit_sector_size img)
      in get_range img o' (usat_add o' (audit_sector_size img)))"
    and "ag_sector img sb n 2 = (let o' = usat_add (unat (word_of_nat (ag_base sb n) :: u64))
        (usat_mul (audit_sector_size img) 2)
      in get_range img o' (usat_add o' (audit_sector_size img)))"
proof -
  have "unat (word_of_nat (ag_base sb n) :: u64) = ag_base sb n"
    using assms by (simp add: unat_of_nat ag_in_image_def USIZE_MAX_def)
  moreover have "usat_mul (audit_sector_size img) 2 = 2 * audit_sector_size img"
    using audit_sector_size_bounds [of img] by (simp add: usat_mul_def USIZE_MAX_def)
  ultimately show
    "ag_sector img sb n 0 = get_range img (unat (word_of_nat (ag_base sb n) :: u64))
      (usat_add (unat (word_of_nat (ag_base sb n) :: u64)) (audit_sector_size img))"
    "ag_sector img sb n 1 = (let o' = usat_add (unat (word_of_nat (ag_base sb n) :: u64)) (audit_sector_size img)
      in get_range img o' (usat_add o' (audit_sector_size img)))"
    "ag_sector img sb n 2 = (let o' = usat_add (unat (word_of_nat (ag_base sb n) :: u64))
        (usat_mul (audit_sector_size img) 2)
      in get_range img o' (usat_add o' (audit_sector_size img)))"
    using assms by (simp add: ag_sector_def Let_def get_range_usat(1),
        simp_all only: ag_sector_def Let_def get_range_usat(2) if_True, simp_all)
qed

lemma enumerate_mem: "(b, a) \<in> set (enumerate 0 xs) \<longleftrightarrow> b < length xs \<and> xs ! b = a"
  by (auto simp: in_set_enumerate_eq)

fun is_orphan :: "anomaly_kind \<Rightarrow> bool" where
  "is_orphan (OrphanedInode _ _ _) = True"
| "is_orphan _ = False"

fun is_divergence :: "anomaly_kind \<Rightarrow> bool" where
  "is_divergence (SbMirrorDivergence _ _ _ _ _) = True"
| "is_divergence _ = False"

definition no_kind :: "(anomaly_kind \<Rightarrow> bool) \<Rightarrow> anomaly_kind list \<Rightarrow> bool" where
  "no_kind p xs \<longleftrightarrow> list_all (\<lambda>k. \<not> p k) xs"

lemma no_kind_simps [simp]:
  "no_kind p []" "no_kind p (x # xs) \<longleftrightarrow> \<not> p x \<and> no_kind p xs"
  "no_kind p (xs @ ys) \<longleftrightarrow> no_kind p xs \<and> no_kind p ys"
  "no_kind p (concat (map f zs)) \<longleftrightarrow> list_all (\<lambda>z. no_kind p (f z)) zs"
  by (simp_all add: no_kind_def) (induction zs, auto)

lemma no_kind_mem: "no_kind p xs \<Longrightarrow> p x \<Longrightarrow> x \<notin> set xs"
  by (auto simp: no_kind_def list_all_iff)

lemma orphan_sources:
  "no_kind is_orphan (audit_fixed crcf img sb)"
  "no_kind is_orphan (audit_inode crcf img sb k)"
  "no_kind is_orphan (audit_secondary crcf img sb sect m base)"
  "no_kind is_orphan (audit_agf crcf img v5 sect base)"
  by (simp_all add: audit_fixed_def audit_geometry_def audit_inode_def audit_secondary_def audit_agf_def
      push_sb_divergence_def Let_def split: option.split sum.split)

lemma divergence_sources:
  "no_kind is_divergence (audit_fixed crcf img sb)"
  "no_kind is_divergence (audit_inode crcf img sb j)"
  "no_kind is_divergence (audit_agf crcf img v5 sect base)"
  "no_kind is_divergence (audit_agi crcf img v5 sect m base)"
  by (simp_all add: audit_fixed_def audit_geometry_def audit_inode_def audit_agi_def audit_agf_def
      Let_def list_all_iff split: option.split sum.split prod.split)

lemmas orphan_cases = orphan_sources [THEN no_kind_mem, of "OrphanedInode n b a" for n b a, simplified]
lemmas divergence_cases = divergence_sources [THEN no_kind_mem, of "SbMirrorDivergence n f v w k" for n f v w k, simplified]

lemma orphan_in_ag:
  assumes "length img < USIZE_MAX" and "ag_in_image img sb m"
  shows "OrphanedInode n b a \<in> set (ag_findings crcf img sb (audit_sector_size img) m (word_of_nat (ag_base sb m)))
    \<longleftrightarrow> n = m \<and> (\<exists>w h. ag_sector img sb m 2 = Some w \<and> agi_parse_verified crcf w (sb_is_v5 sb) = Inr h \<and>
          b < length (agi_unlinked h) \<and> agi_unlinked h ! b = a \<and> a \<noteq> NULL_AGINO)"
proof (cases "ag_sector img sb m 2")
  case None
  then show ?thesis
    using ag_sector_at(3) [OF assms] by (simp add: ag_findings_def orphan_cases audit_agi_def Let_def)
next
  case (Some w)
  then show ?thesis
    using ag_sector_at(3) [OF assms]
    by (cases "agi_parse_verified crcf w (sb_is_v5 sb)")
      (auto simp: ag_findings_def orphan_cases audit_agi_def Let_def enumerate_mem split: if_splits)
qed

lemma audit_orphans_iff:
  assumes "length img < USIZE_MAX"
  shows "OrphanedInode n b a \<in> set (audit_kinds crcf img) \<longleftrightarrow>
    (\<exists>sb w h. primary_of crcf img = Some sb \<and> ag_sector img sb n 2 = Some w \<and>
       agi_parse_verified crcf w (sb_is_v5 sb) = Inr h \<and>
       b < 64 \<and> agi_unlinked h ! b = a \<and> a \<noteq> NULL_AGINO)"
proof -
  have "(\<exists>m. ag_in_image img sb m \<and>
      OrphanedInode n b a \<in> set (ag_findings crcf img sb (audit_sector_size img) m (word_of_nat (ag_base sb m)))) \<longleftrightarrow>
    (\<exists>w h. ag_sector img sb n 2 = Some w \<and> agi_parse_verified crcf w (sb_is_v5 sb) = Inr h \<and>
       b < 64 \<and> agi_unlinked h ! b = a \<and> a \<noteq> NULL_AGINO)" for sb
    using orphan_in_ag [OF assms] agi_parse_unlinked(1) ag_sector_in_image by metis
  then show ?thesis
    unfolding audit_kinds_iff [OF assms] by (simp add: orphan_cases)
qed

text \<open>
  C17: An audit reports exactly the orphaned inodes of the image: those of the entries of the unlinked
  buckets of a readable AGI, at sector 2 of an allocation group that starts inside the image, that are
  not the null sentinel.
\<close>

theorem audit_orphans_exact:
  assumes "length img < USIZE_MAX"
  shows "OrphanedInode n b a \<in> set (audit_kinds crcf img) \<longleftrightarrow>
    (\<exists>sb w h. primary_of crcf img = Some sb \<and> ag_sector img sb n 2 = Some w \<and>
       agi_parse_verified crcf w (sb_is_v5 sb) = Inr h \<and>
       b < 64 \<and> agi_unlinked h ! b = a \<and> a \<noteq> NULL_AGINO)"
  using assms by (rule audit_orphans_iff)


text \<open>Field \<open>f\<close> is \<open>v\<close> in one superblock and \<open>w\<close> in the other.\<close>

definition differs_in :: "superblock \<Rightarrow> superblock \<Rightarrow> string \<Rightarrow> u64 \<Rightarrow> u64 \<Rightarrow> bool" where
  "differs_in p q f v w \<longleftrightarrow> v \<noteq> w \<and>
    (f = ''agblocks'' \<and> v = ucast (sb_agblocks p) \<and> w = ucast (sb_agblocks q)
     \<or> f = ''agcount'' \<and> v = ucast (sb_agcount p) \<and> w = ucast (sb_agcount q)
     \<or> f = ''blocksize'' \<and> v = ucast (sb_blocksize p) \<and> w = ucast (sb_blocksize q)
     \<or> f = ''inodesize'' \<and> v = ucast (sb_inodesize p) \<and> w = ucast (sb_inodesize q))"

lemma push_sb_divergence_mem:
  "SbMirrorDivergence n f v w k \<in> set (push_sb_divergence m base p q) \<longleftrightarrow>
     n = m \<and> k = base \<and> differs_in p q f v w"
  by (auto simp: push_sb_divergence_def differs_in_def Let_def)

lemma audit_secondary_none:
  "get_range img (unat base) (usat_add (unat base) sect) = None \<Longrightarrow> audit_secondary crcf img sb sect m base = []"
  by (simp add: audit_secondary_def)

lemma divergence_in_ag:
  assumes "length img < USIZE_MAX" and "ag_in_image img sb m"
  shows "SbMirrorDivergence n f v w k \<in> set (ag_findings crcf img sb (audit_sector_size img) m (word_of_nat (ag_base sb m)))
    \<longleftrightarrow> 1 \<le> m \<and> (\<exists>d q. ag_sector img sb m 0 = Some d \<and> superblock_parse crcf d = Inr q \<and>
          SbMirrorDivergence n f v w k \<in> set (push_sb_divergence m (word_of_nat (ag_base sb m)) sb q))"
proof (cases "ag_sector img sb m 0")
  case None
  then show ?thesis
    using ag_sector_at(1) [OF assms, symmetric] audit_secondary_none
    by (simp add: ag_findings_def divergence_cases)
next
  case (Some d)
  note at = ag_sector_at(1) [OF assms, symmetric] Some
  show ?thesis
  proof (cases "superblock_parse crcf d")
    case (Inl e)
    then have "audit_secondary crcf img sb (audit_sector_size img) m (word_of_nat (ag_base sb m)) = []"
      by (simp add: audit_secondary_def at)
    with Inl at show ?thesis by (simp add: ag_findings_def divergence_cases)
  next
    case (Inr q)
    then have "audit_secondary crcf img sb (audit_sector_size img) m (word_of_nat (ag_base sb m)) =
      (if 1 \<le> m then (if sb_is_v5 sb \<and> sb_crc_valid q = Some False
           then [CrcMismatch ''superblock'' (word_of_nat (ag_base sb m))] else [])
         @ push_sb_divergence m (word_of_nat (ag_base sb m)) sb q else [])"
      by (simp add: audit_secondary_def at)
    with Inr at show ?thesis by (simp add: ag_findings_def divergence_cases)
  qed
qed

lemma audit_divergence_iff:
  assumes "length img < USIZE_MAX"
  shows "SbMirrorDivergence n f v w k \<in> set (audit_kinds crcf img) \<longleftrightarrow>
    (\<exists>sb d q. primary_of crcf img = Some sb \<and> 1 \<le> n \<and> ag_sector img sb n 0 = Some d \<and>
       superblock_parse crcf d = Inr q \<and> k = word_of_nat (ag_base sb n) \<and> differs_in sb q f v w)"
proof -
  have "(\<exists>m. ag_in_image img sb m \<and>
      SbMirrorDivergence n f v w k \<in> set (ag_findings crcf img sb (audit_sector_size img) m (word_of_nat (ag_base sb m)))) \<longleftrightarrow>
    1 \<le> n \<and> (\<exists>d q. ag_sector img sb n 0 = Some d \<and> superblock_parse crcf d = Inr q \<and>
      SbMirrorDivergence n f v w k \<in> set (push_sb_divergence n (word_of_nat (ag_base sb n)) sb q))" for sb
    using divergence_in_ag [OF assms] ag_sector_in_image push_sb_divergence_mem by metis
  then show ?thesis
    unfolding audit_kinds_iff [OF assms] push_sb_divergence_mem by (simp add: divergence_cases)
qed

text \<open>
  C18: An audit reports exactly the differences between the primary superblock and the readable
  superblocks of the other allocation groups in the image, in the four geometry fields, each with its
  group, both values and the position of the secondary.
\<close>

theorem audit_divergence_exact:
  assumes "length img < USIZE_MAX"
  shows "SbMirrorDivergence n f v w k \<in> set (audit_kinds crcf img) \<longleftrightarrow>
    (\<exists>sb d q. primary_of crcf img = Some sb \<and> 1 \<le> n \<and> ag_sector img sb n 0 = Some d \<and>
       superblock_parse crcf d = Inr q \<and> k = word_of_nat (ag_base sb n) \<and> differs_in sb q f v w)"
  using assms by (rule audit_divergence_iff)

section \<open>Checksum findings\<close>

lemma crc_mismatch_push: "CrcMismatch what off \<notin> set (push_sb_divergence n base p q)"
  by (auto simp: push_sb_divergence_def Let_def)

text \<open>A structure of the image is recognised as such, and its checksum does not verify.\<close>

definition crc_fails :: "(bytes \<Rightarrow> u32) \<Rightarrow> bytes \<Rightarrow> superblock \<Rightarrow> string \<Rightarrow> nat \<Rightarrow> bool" where
  "crc_fails crcf img sb what off \<longleftrightarrow>
     (what = ''superblock'' \<and> off = 0 \<and> sb_crc_valid sb = Some False)
     \<or> (\<exists>n d q. what = ''superblock'' \<and> 1 \<le> n \<and> ag_sector img sb n 0 = Some d \<and> off = ag_base sb n \<and>
          superblock_parse crcf d = Inr q \<and> sb_crc_valid q = Some False)
     \<or> (\<exists>n d. what = ''AGF'' \<and> ag_sector img sb n 1 = Some d \<and> off = ag_base sb n + audit_sector_size img \<and>
          ag_magic_ok XFS_AGF_MAGIC d \<and> \<not> verify_crc crcf d AGF_CRC_OFF)
     \<or> (\<exists>n d. what = ''AGI'' \<and> ag_sector img sb n 2 = Some d \<and> off = ag_base sb n + 2 * audit_sector_size img \<and>
          ag_magic_ok XFS_AGI_MAGIC d \<and> \<not> verify_crc crcf d AGI_CRC_OFF)
     \<or> (what = ''inode'' \<and> 176 \<le> unat (sb_inodesize sb) \<and> unat (sb_inodesize sb) dvd off \<and>
          (\<exists>d agno ino. get_range img off (off + unat (sb_inodesize sb)) = Some d \<and> inode_magic_ok d \<and>
             inode_is_v3 d \<and> offset_to_inode sb (word_of_nat off) = Some (agno, ino) \<and>
             be_u64 d 152 = ino \<and> \<not> verify_crc crcf d DINODE_CRC_OFF))"

lemma ag_sector_length: "ag_sector img sb n i = Some d \<Longrightarrow> length d = audit_sector_size img"
  by (auto simp: ag_sector_def Let_def dest: get_range_length split: if_splits)

lemma sector_holds: "ag_sector img sb n i = Some d \<Longrightarrow> AGF_MIN_LEN \<le> length d \<and> AGI_MIN_LEN \<le> length d"
  using audit_sector_size_bounds(1) [of img] by (auto dest!: ag_sector_length simp: ag_len_defs)

lemma ag_sector_off:
  assumes "length img < USIZE_MAX" and "ag_sector img sb n i = Some d"
  shows "ag_base sb n + i * audit_sector_size img < 2 ^ 64"
  using assms by (auto simp: ag_sector_def Let_def get_range_def USIZE_MAX_def split: if_splits)

lemma audit_agf_at:
  assumes len: "length img < USIZE_MAX" and ag: "ag_in_image img sb m" and v5: "sb_is_v5 sb"
  shows "audit_agf crcf img (sb_is_v5 sb) (audit_sector_size img) (word_of_nat (ag_base sb m)) =
    (case ag_sector img sb m 1 of None \<Rightarrow> [] | Some d \<Rightarrow>
       if ag_magic_ok XFS_AGF_MAGIC d \<and> \<not> verify_crc crcf d AGF_CRC_OFF
       then [CrcMismatch ''AGF'' (word_of_nat (ag_base sb m + audit_sector_size img))] else [])"
proof (cases "ag_sector img sb m 1")
  case (Some d)
  have "unat (word_of_nat (ag_base sb m) :: u64) = ag_base sb m"
    "usat_add (ag_base sb m) (audit_sector_size img) = ag_base sb m + audit_sector_size img"
    using ag_sector_off [OF len Some] by (simp_all add: unat_of_nat usat_add_def USIZE_MAX_def)
  then show ?thesis
    using Some ag_sector_at(2) [OF len ag, symmetric] sector_holds [OF Some] v5
      agf.verdict [where data = d and crcf = crcf and ?is_v5.0 = True]
    by (auto simp: audit_agf_def Let_def split: sum.splits if_splits)
qed (use ag_sector_at(2) [OF len ag, symmetric] in \<open>simp add: audit_agf_def Let_def\<close>)

lemma audit_agi_at:
  assumes len: "length img < USIZE_MAX" and ag: "ag_in_image img sb m" and v5: "sb_is_v5 sb"
  shows "CrcMismatch what off \<in> set (audit_agi crcf img (sb_is_v5 sb) (audit_sector_size img) n (word_of_nat (ag_base sb m))) \<longleftrightarrow>
    (\<exists>d. ag_sector img sb m 2 = Some d \<and> ag_magic_ok XFS_AGI_MAGIC d \<and> \<not> verify_crc crcf d AGI_CRC_OFF \<and>
       what = ''AGI'' \<and> off = word_of_nat (ag_base sb m + 2 * audit_sector_size img))"
proof (cases "ag_sector img sb m 2")
  case None
  then have "audit_agi crcf img (sb_is_v5 sb) (audit_sector_size img) n (word_of_nat (ag_base sb m)) = []"
    using ag_sector_at(3) [OF len ag, symmetric] by (simp add: audit_agi_def Let_def)
  then show ?thesis using None by simp
next
  case (Some d)
  have e: "unat (word_of_nat (ag_base sb m) :: u64) = ag_base sb m"
    "usat_add (ag_base sb m) (usat_mul (audit_sector_size img) 2) = ag_base sb m + 2 * audit_sector_size img"
    using ag_sector_off [OF len Some] audit_sector_size_bounds(2) [of img]
    by (simp_all add: unat_of_nat usat_add_def usat_mul_def USIZE_MAX_def)
  have at: "audit_agi crcf img (sb_is_v5 sb) (audit_sector_size img) n (word_of_nat (ag_base sb m)) =
     (case agi_parse_verified crcf d True of Inl e \<Rightarrow> [] | Inr agi \<Rightarrow>
          (if agi_crc_valid agi = Some False then [CrcMismatch ''AGI'' (word_of_nat (ag_base sb m + 2 * audit_sector_size img))] else [])
          @ concat (map (\<lambda>(bucket, agino). if agino \<noteq> NULL_AGINO then [OrphanedInode n bucket agino] else [])
              (enumerate 0 (agi_unlinked agi))))"
    using Some ag_sector_at(3) [OF len ag, symmetric] v5 e by (simp add: audit_agi_def Let_def)
  show ?thesis
  proof (cases "ag_magic_ok XFS_AGI_MAGIC d")
    case True
    then obtain h where "agi_parse_verified crcf d True = Inr h" "agi_crc_valid h = Some (verify_crc crcf d AGI_CRC_OFF)"
      using agi.verdict [where data = d and crcf = crcf and ?is_v5.0 = True] sector_holds [OF Some] by auto
    then show ?thesis unfolding at using True Some by (auto split: if_splits)
  next
    case False
    then obtain e where "agi_parse_verified crcf d True = Inl e"
      using agi.bad_magic [where data = d and crcf = crcf and ?is_v5.0 = True] by blast
    then show ?thesis unfolding at using False Some by simp
  qed
qed

lemma audit_inode_at:
  assumes len: "length img < USIZE_MAX" and isz: "176 \<le> unat (sb_inodesize sb)"
    and w: "get_range img k (k + unat (sb_inodesize sb)) = Some d"
  shows "CrcMismatch what off \<in> set (audit_inode crcf img sb k) \<longleftrightarrow>
    what = ''inode'' \<and> off = word_of_nat k \<and> inode_magic_ok d \<and> inode_is_v3 d \<and>
      (\<exists>agno. offset_to_inode sb (word_of_nat k) = Some (agno, be_u64 d 152)) \<and> \<not> verify_crc crcf d DINODE_CRC_OFF"
proof -
  have m: "fbe_u16 img k = be_u16 d 0"
    using w isz unfolding fbe_eq [OF len]
    by (auto simp: get_range_def be_u16_def be_word_def take_drop min_def split: if_splits option.splits)
  have ld: "length d = unat (sb_inodesize sb)" using get_range_length [OF w] by simp
  show ?thesis
  proof (cases "inode_magic_ok d")
    case False
    then show ?thesis by (simp add: audit_inode_def m inode_magic_ok_def)
  next
    case True
    moreover have "inode_need d \<le> length d" using isz ld by (simp add: inode_need_def litino_defs)
    ultimately obtain h where h: "inode_parse crcf d False = Inr h"
      using inode_parse_cases(1) by blast
    have i: "audit_inode crcf img sb k = (case offset_to_inode sb (word_of_nat k) of None \<Rightarrow> []
       | Some (agno, ino) \<Rightarrow> if di_ino h = Some ino \<and> di_crc_valid h = Some False
           then [CrcMismatch ''inode'' (word_of_nat k)] else [])"
      using True h w by (simp add: audit_inode_def m inode_magic_ok_def get_range_usat [OF len])
    show ?thesis
    proof (cases "offset_to_inode sb (word_of_nat k)")
      case (Some p)
      then have "audit_inode crcf img sb k = (if di_ino h = Some (snd p) \<and> di_crc_valid h = Some False
           then [CrcMismatch ''inode'' (word_of_nat k)] else [])"
        using i by (simp add: case_prod_beta)
      then show ?thesis
        using True Some inode_parse_Inr_D(10,11) [OF h] by (cases p) (auto simp: crc_status_def split: if_splits)
    qed (use i in simp)
  qed
qed

fun is_crc :: "anomaly_kind \<Rightarrow> bool" where
  "is_crc (CrcMismatch _ _) = True"
| "is_crc _ = False"

lemma v4_no_crc:
  assumes "\<not> sb_is_v5 sb"
  shows "no_kind is_crc (audit_fixed crcf img sb)" "no_kind is_crc (ag_findings crcf img sb sect m base)"
proof -
  show "no_kind is_crc (audit_fixed crcf img sb)"
    using assms by (simp add: audit_fixed_def audit_geometry_def Let_def)
  have "agf_crc_valid h \<noteq> Some False" if "agf_parse_verified crcf d False = Inr h" for d h
    using agf.v4_no_claim [OF that] by simp
  moreover have "agi_crc_valid h \<noteq> Some False" if "agi_parse_verified crcf d False = Inr h" for d h
    using agi.v4_no_claim [OF that] by simp
  ultimately show "no_kind is_crc (ag_findings crcf img sb sect m base)"
    using assms by (auto simp: ag_findings_def audit_secondary_def audit_agf_def audit_agi_def Let_def
        push_sb_divergence_def list_all_iff split: option.split sum.split)
qed

lemma crc_in_fixed:
  "sb_is_v5 sb \<Longrightarrow> CrcMismatch what off \<in> set (audit_fixed crcf img sb) \<longleftrightarrow>
     what = ''superblock'' \<and> unat off = 0 \<and> sb_crc_valid sb = Some False"
  by (auto simp: audit_fixed_def audit_geometry_def Let_def unat_eq_0)

lemma crc_in_secondary:
  assumes len: "length img < USIZE_MAX" and ag: "ag_in_image img sb n" and v5: "sb_is_v5 sb"
  shows "CrcMismatch what off \<in> set (audit_secondary crcf img sb (audit_sector_size img) n (word_of_nat (ag_base sb n))) \<longleftrightarrow>
    1 \<le> n \<and> (\<exists>d q. ag_sector img sb n 0 = Some d \<and> superblock_parse crcf d = Inr q \<and> sb_crc_valid q = Some False) \<and>
    what = ''superblock'' \<and> unat off = ag_base sb n"
proof (cases "ag_sector img sb n 0")
  case None
  then show ?thesis using ag_sector_at(1) [OF len ag, symmetric] by (simp add: audit_secondary_none)
next
  case (Some d)
  note at = ag_sector_at(1) [OF len ag, symmetric] Some
  show ?thesis
  proof (cases "superblock_parse crcf d")
    case (Inl e)
    then have "audit_secondary crcf img sb (audit_sector_size img) n (word_of_nat (ag_base sb n)) = []"
      by (simp add: audit_secondary_def at)
    with Inl at show ?thesis by simp
  next
    case (Inr q)
    then have "audit_secondary crcf img sb (audit_sector_size img) n (word_of_nat (ag_base sb n)) =
      (if 1 \<le> n then (if sb_crc_valid q = Some False
           then [CrcMismatch ''superblock'' (word_of_nat (ag_base sb n))] else [])
         @ push_sb_divergence n (word_of_nat (ag_base sb n)) sb q else [])"
      by (simp add: audit_secondary_def at v5)
    with Inr at show ?thesis
      using ag_sector_off [OF len Some] by (auto simp: crc_mismatch_push off_eq)
  qed
qed

lemma crc_in_agf:
  assumes len: "length img < USIZE_MAX" and ag: "ag_in_image img sb n" and v5: "sb_is_v5 sb"
  shows "CrcMismatch what off \<in> set (audit_agf crcf img (sb_is_v5 sb) (audit_sector_size img) (word_of_nat (ag_base sb n))) \<longleftrightarrow>
    (\<exists>d. ag_sector img sb n 1 = Some d \<and> ag_magic_ok XFS_AGF_MAGIC d \<and> \<not> verify_crc crcf d AGF_CRC_OFF) \<and>
    what = ''AGF'' \<and> unat off = ag_base sb n + audit_sector_size img"
proof (cases "ag_sector img sb n 1")
  case (Some d)
  then show ?thesis
    using ag_sector_off [OF len Some] unfolding audit_agf_at [OF assms] by (auto simp: off_eq simp del: of_nat_add)
qed (use audit_agf_at [OF assms] in simp)

lemma crc_in_agi:
  assumes len: "length img < USIZE_MAX" and ag: "ag_in_image img sb n" and v5: "sb_is_v5 sb"
  shows "CrcMismatch what off \<in> set (audit_agi crcf img (sb_is_v5 sb) (audit_sector_size img) m (word_of_nat (ag_base sb n))) \<longleftrightarrow>
    (\<exists>d. ag_sector img sb n 2 = Some d \<and> ag_magic_ok XFS_AGI_MAGIC d \<and> \<not> verify_crc crcf d AGI_CRC_OFF) \<and>
    what = ''AGI'' \<and> unat off = ag_base sb n + 2 * audit_sector_size img"
  unfolding audit_agi_at [OF assms] using ag_sector_off [OF len] off_eq by metis

lemma crc_in_ag:
  assumes len: "length img < USIZE_MAX" and v5: "sb_is_v5 sb"
  shows "ag_in_image img sb n \<and>
      CrcMismatch what off \<in> set (ag_findings crcf img sb (audit_sector_size img) n (word_of_nat (ag_base sb n))) \<longleftrightarrow>
    (\<exists>d q. what = ''superblock'' \<and> 1 \<le> n \<and> ag_sector img sb n 0 = Some d \<and> unat off = ag_base sb n \<and>
       superblock_parse crcf d = Inr q \<and> sb_crc_valid q = Some False) \<or>
    (\<exists>d. what = ''AGF'' \<and> ag_sector img sb n 1 = Some d \<and> unat off = ag_base sb n + audit_sector_size img \<and>
       ag_magic_ok XFS_AGF_MAGIC d \<and> \<not> verify_crc crcf d AGF_CRC_OFF) \<or>
    (\<exists>d. what = ''AGI'' \<and> ag_sector img sb n 2 = Some d \<and> unat off = ag_base sb n + 2 * audit_sector_size img \<and>
       ag_magic_ok XFS_AGI_MAGIC d \<and> \<not> verify_crc crcf d AGI_CRC_OFF)"
proof (cases "ag_in_image img sb n")
  case True
  show ?thesis
    unfolding ag_findings_def set_append Un_iff crc_in_secondary [OF len True v5] crc_in_agf [OF len True v5]
      crc_in_agi [OF len True v5]
    using True by blast
qed (auto dest: ag_sector_in_image)

lemma crc_in_inodes:
  fixes sb :: superblock
  assumes len: "length img < USIZE_MAX"
  defines "isz \<equiv> unat (sb_inodesize sb)"
  shows "176 \<le> isz \<and> (\<exists>i. i * isz + isz \<le> length img \<and>
      CrcMismatch what off \<in> set (audit_inode crcf img sb (i * isz))) \<longleftrightarrow>
    what = ''inode'' \<and> 176 \<le> isz \<and> isz dvd unat off \<and>
      (\<exists>d agno ino. get_range img (unat off) (unat off + isz) = Some d \<and> inode_magic_ok d \<and>
         inode_is_v3 d \<and> offset_to_inode sb (word_of_nat (unat off)) = Some (agno, ino) \<and>
         be_u64 d 152 = ino \<and> \<not> verify_crc crcf d DINODE_CRC_OFF)"
proof (cases "176 \<le> isz")
  case True
  have at: "k + isz \<le> length img \<and> CrcMismatch what off \<in> set (audit_inode crcf img sb k) \<longleftrightarrow>
    unat off = k \<and> what = ''inode'' \<and> (\<exists>d. get_range img k (k + isz) = Some d \<and> inode_magic_ok d \<and> inode_is_v3 d \<and>
      (\<exists>agno. offset_to_inode sb (word_of_nat k) = Some (agno, be_u64 d 152)) \<and> \<not> verify_crc crcf d DINODE_CRC_OFF)" for k
  proof (cases "k + isz \<le> length img")
    case le: True
    then obtain d where d: "get_range img k (k + isz) = Some d" by (simp add: get_range_def)
    have "off = word_of_nat k \<longleftrightarrow> unat off = k" using le len by (intro off_eq) (simp add: USIZE_MAX_def)
    then show ?thesis
      using audit_inode_at [OF len True [unfolded isz_def] d [unfolded isz_def], of what off] d le by auto
  qed (simp add: get_range_def)
  have "(\<exists>i. P (i * isz)) \<longleftrightarrow> (\<exists>k. isz dvd k \<and> P k)" for P :: "nat \<Rightarrow> bool"
    by (metis dvd_triv_right dvdE mult.commute)
  then have "(\<exists>i. i * isz + isz \<le> length img \<and> CrcMismatch what off \<in> set (audit_inode crcf img sb (i * isz)))
     \<longleftrightarrow> (\<exists>k. isz dvd k \<and> k + isz \<le> length img \<and> CrcMismatch what off \<in> set (audit_inode crcf img sb k))"
    by (rule trans) (rule refl)
  then show ?thesis using True unfolding at by auto
qed simp

lemma audit_crc_iff:
  assumes "length img < USIZE_MAX"
  shows "CrcMismatch what off \<in> set (audit_kinds crcf img) \<longleftrightarrow>
    (\<exists>sb. primary_of crcf img = Some sb \<and> sb_is_v5 sb \<and> crc_fails crcf img sb what (unat off))"
proof -
  let ?x = "CrcMismatch what off"
  have "?x \<in> set (audit_fixed crcf img sb)
      \<or> (\<exists>n. ag_in_image img sb n \<and> ?x \<in> set (ag_findings crcf img sb (audit_sector_size img) n (word_of_nat (ag_base sb n))))
      \<or> sb_is_v5 sb \<and> 176 \<le> unat (sb_inodesize sb) \<and>
         (\<exists>i. i * unat (sb_inodesize sb) + unat (sb_inodesize sb) \<le> length img \<and>
            ?x \<in> set (audit_inode crcf img sb (i * unat (sb_inodesize sb))))
    \<longleftrightarrow> sb_is_v5 sb \<and> crc_fails crcf img sb what (unat off)" for sb
  proof (cases "sb_is_v5 sb")
    case False
    then show ?thesis
      using v4_no_crc [OF False, THEN no_kind_mem, of ?x] by simp
  next
    case True
    show ?thesis
      unfolding crc_in_ag [OF assms True] crc_in_fixed [OF True] crc_fails_def ex_disj_distrib
      using True crc_in_inodes [OF assms, of sb what off crcf] by argo
  qed
  then show ?thesis unfolding audit_kinds_iff [OF assms] by simp
qed

text \<open>
  C9: An audit of an image with a version 5 superblock reports a checksum mismatch exactly for the
  structures it recognises whose stored checksum does not verify: the primary superblock, the sectors of
  the other groups that parse as version 5 superblocks, the sectors of the groups that carry the magic of
  an AGF or AGI in its place, and the inode slots with the magic, version 3 and their own number. A
  structure damaged in what it is recognised by is not among them. An image of an older version has none.
\<close>

theorem audit_crc_exact:
  assumes "length img < USIZE_MAX"
  shows "CrcMismatch what off \<in> set (audit_kinds crcf img) \<longleftrightarrow>
    (\<exists>sb. primary_of crcf img = Some sb \<and> sb_is_v5 sb \<and> crc_fails crcf img sb what (unat off))"
  using assms by (rule audit_crc_iff)

section \<open>Geometry, and the silent audit\<close>

fun is_geometry :: "anomaly_kind \<Rightarrow> bool" where
  "is_geometry (ImpossibleGeometry _ _ _) = True"
| "is_geometry _ = False"

lemma geometry_sources:
  "no_kind is_geometry (audit_inode crcf img sb k)"
  "no_kind is_geometry (audit_secondary crcf img sb sect m base)"
  "no_kind is_geometry (audit_agf crcf img v5 sect base)"
  "no_kind is_geometry (audit_agi crcf img v5 sect m base)"
  by (simp_all add: audit_inode_def audit_secondary_def audit_agi_def audit_agf_def push_sb_divergence_def
      Let_def list_all_iff split: option.split sum.split prod.split)

lemmas geometry_cases = geometry_sources [THEN no_kind_mem, of "ImpossibleGeometry f v l" for f v l, simplified]

text \<open>The last group starts inside the image.\<close>

definition geometry_ok :: "bytes \<Rightarrow> superblock \<Rightarrow> bool" where
  "geometry_ok img sb \<longleftrightarrow> sb_agcount sb \<noteq> 0 \<and>
     (0 < unat (sb_agblocks sb) * unat (sb_blocksize sb) \<longrightarrow> ag_base sb (ucast (sb_agcount sb) - 1) < length img)"

lemma audit_geometry_empty:
  assumes "length img < USIZE_MAX"
  shows "audit_geometry (ucast (sb_agcount sb)) (wsat_mul (ucast (sb_agblocks sb)) (ucast (sb_blocksize sb)))
    (word_of_nat (length img)) = [] \<longleftrightarrow> geometry_ok img sb"
proof -
  let ?b = "wsat_mul (ucast (sb_agblocks sb)) (ucast (sb_blocksize sb)) :: u64" and ?n = "ucast (sb_agcount sb) :: u64"
  have n: "?n = 0 \<longleftrightarrow> sb_agcount sb = 0" by (simp add: word_unat_eq_iff unat_ucast_widen)
  have l: "unat (word_of_nat (length img) :: u64) = length img"
    using assms by (simp add: unat_of_nat USIZE_MAX_def)
  have "wsat_sub ?n 1 = ?n - 1" if "?n \<noteq> 0"
    using that unat_eq_zero [of ?n] by (auto simp: wsat_sub_def word_le_nat_alt)
  then show ?thesis
    using wsat_base(1) [OF assms, of "?n - 1" sb]
    by (auto simp: audit_geometry_def geometry_ok_def Let_def n ag_bytes_pos word_le_nat_alt l)
qed

lemma audit_geometry_reported:
  "(\<exists>f v l. ImpossibleGeometry f v l \<in> set (audit_geometry c b n)) \<longleftrightarrow> audit_geometry c b n \<noteq> []"
  by (auto simp: audit_geometry_def Let_def)

lemma audit_geometry_iff:
  assumes "length img < USIZE_MAX"
  shows "(\<exists>f v l. ImpossibleGeometry f v l \<in> set (audit_kinds crcf img)) \<longleftrightarrow>
    (\<exists>sb. primary_of crcf img = Some sb \<and> \<not> geometry_ok img sb)"
proof -
  have "ImpossibleGeometry f v l \<in> set (audit_kinds crcf img) \<longleftrightarrow>
    (\<exists>sb. primary_of crcf img = Some sb \<and> ImpossibleGeometry f v l \<in> set (audit_geometry (ucast (sb_agcount sb))
        (wsat_mul (ucast (sb_agblocks sb)) (ucast (sb_blocksize sb))) (word_of_nat (length img))))" for f v l
    unfolding audit_kinds_iff [OF assms] by (simp add: geometry_cases audit_fixed_def ag_findings_def)
  then show ?thesis
    using audit_geometry_reported audit_geometry_empty [OF assms] by metis
qed

lemma crc_fails_inside:
  assumes "length img < USIZE_MAX" and "crc_fails crcf img sb what off"
  shows "off < 2 ^ 64"
  using assms ag_sector_off [OF assms(1)] unfolding crc_fails_def
  by (fastforce simp: USIZE_MAX_def get_range_Some_iff)

text \<open>The superblock of a group repeats the geometry of the primary.\<close>

definition same_geometry :: "superblock \<Rightarrow> superblock \<Rightarrow> bool" where
  "same_geometry p q \<longleftrightarrow> sb_agblocks q = sb_agblocks p \<and> sb_agcount q = sb_agcount p \<and>
     sb_blocksize q = sb_blocksize p \<and> sb_inodesize q = sb_inodesize p"

lemma differs_same: "(\<exists>f v w. differs_in p q f v w) \<longleftrightarrow> \<not> same_geometry p q"
proof -
  have u: "ucast a = (ucast b :: u64) \<longleftrightarrow> a = b" "ucast c = (ucast d :: u64) \<longleftrightarrow> c = d" for a b :: u32 and c d :: u16
    by (simp_all add: word_unat_eq_iff unat_ucast_widen)
  show ?thesis
    by (simp add: differs_in_def same_geometry_def conj_disj_distribL ex_disj_distrib u) (auto simp: u)
qed

lemma kinds_empty:
  "audit_image crcf img = [] \<longleftrightarrow>
     (\<forall>what off. CrcMismatch what off \<notin> set (audit_kinds crcf img)) \<and>
     (\<forall>n f v w k. SbMirrorDivergence n f v w k \<notin> set (audit_kinds crcf img)) \<and>
     (\<forall>n b a. OrphanedInode n b a \<notin> set (audit_kinds crcf img)) \<and>
     \<not> (\<exists>f v l. ImpossibleGeometry f v l \<in> set (audit_kinds crcf img))"
  (is "_ \<longleftrightarrow> ?none")
proof -
  have "?none \<longleftrightarrow> (\<forall>x. x \<notin> set (audit_kinds crcf img))"
    by (metis anomaly_kind.exhaust)
  then show ?thesis by (simp add: audit_image_def)
qed

text \<open>
  C7: The silent audit. The audit of an image reports nothing exactly when the image does not start with a
  superblock, or the last group starts inside the image, the checksum of every structure recognised in a
  version 5 image verifies, every readable superblock of a further group repeats the geometry of the
  first, and every bucket of every readable AGI is null. Structures that are not recognised, damaged ones
  among them, break the silence by themselves in no case.
\<close>

theorem audit_silent_iff:
  assumes "length img < USIZE_MAX"
  shows "audit_image crcf img = [] \<longleftrightarrow> (\<forall>sb. primary_of crcf img = Some sb \<longrightarrow>
    geometry_ok img sb
    \<and> (sb_is_v5 sb \<longrightarrow> (\<forall>what off. \<not> crc_fails crcf img sb what off))
    \<and> (\<forall>n d q. 1 \<le> n \<longrightarrow> ag_sector img sb n 0 = Some d \<longrightarrow> superblock_parse crcf d = Inr q \<longrightarrow> same_geometry sb q)
    \<and> (\<forall>n d h. ag_sector img sb n 2 = Some d \<longrightarrow> agi_parse_verified crcf d (sb_is_v5 sb) = Inr h \<longrightarrow>
         set (agi_unlinked h) \<subseteq> {NULL_AGINO}))"
proof -
  have crc: "(\<forall>what off. CrcMismatch what off \<notin> set (audit_kinds crcf img)) \<longleftrightarrow>
    (\<forall>sb. primary_of crcf img = Some sb \<longrightarrow> sb_is_v5 sb \<longrightarrow> (\<forall>what off. \<not> crc_fails crcf img sb what off))"
  proof -
    have "\<not> crc_fails crcf img sb what off" if "\<forall>o'. \<not> crc_fails crcf img sb what (unat (o' :: u64))" for sb what off
      using that crc_fails_inside [OF assms] off_eq by metis
    then show ?thesis unfolding audit_crc_iff [OF assms] by blast
  qed
  have div: "(\<forall>n f v w k. SbMirrorDivergence n f v w k \<notin> set (audit_kinds crcf img)) \<longleftrightarrow>
    (\<forall>sb. primary_of crcf img = Some sb \<longrightarrow> (\<forall>n d q. 1 \<le> n \<longrightarrow> ag_sector img sb n 0 = Some d \<longrightarrow>
       superblock_parse crcf d = Inr q \<longrightarrow> same_geometry sb q))"
  proof -
    have "same_geometry p q \<longleftrightarrow> (\<forall>f v w. \<not> differs_in p q f v w)" for p q
      using differs_same [of p q] by blast
    then show ?thesis unfolding audit_divergence_iff [OF assms] by simp blast
  qed
  have orph: "(\<forall>n b a. OrphanedInode n b a \<notin> set (audit_kinds crcf img)) \<longleftrightarrow>
    (\<forall>sb. primary_of crcf img = Some sb \<longrightarrow> (\<forall>n d h. ag_sector img sb n 2 = Some d \<longrightarrow>
       agi_parse_verified crcf d (sb_is_v5 sb) = Inr h \<longrightarrow> set (agi_unlinked h) \<subseteq> {NULL_AGINO}))"
  proof -
    have "(\<exists>b a. b < 64 \<and> agi_unlinked h ! b = a \<and> a \<noteq> NULL_AGINO) \<longleftrightarrow> \<not> set (agi_unlinked h) \<subseteq> {NULL_AGINO}"
      if "agi_parse_verified crcf d v5 = Inr h" for d v5 h
      using agi_parse_unlinked(1) [OF that] by (auto simp: in_set_conv_nth subset_iff)
    then show ?thesis unfolding audit_orphans_iff [OF assms] by blast
  qed
  show ?thesis
    unfolding kinds_empty crc div orph audit_geometry_iff [OF assms] by blast
qed

section \<open>An audited image\<close>

text \<open>
  Two allocation groups of three sectors: a superblock, an empty sector and an AGI with one unlinked
  inode in the first, a superblock with another group count in the second.
\<close>

definition audit_demo_sb :: "u8 \<Rightarrow> bytes" where
  "audit_demo_sb n = [0x58, 0x46, 0x53, 0x42, 0, 0, 2, 0] @ replicate 76 0 @ [0, 0, 0, 3, 0, 0, 0, n]
     @ replicate 8 0 @ [0, 5] @ replicate 410 0"

definition audit_demo_agi :: bytes where
  "audit_demo_agi = [0x58, 0x41, 0x47, 0x49] @ replicate 36 0 @ [0, 0, 0, 7] @ replicate 468 0"

definition audit_demo_of :: "bytes \<Rightarrow> bytes" where
  "audit_demo_of a = audit_demo_sb 2 @ replicate 512 0 @ a @ audit_demo_sb 9"

definition audit_demo :: bytes where
  "audit_demo = audit_demo_of audit_demo_agi"

lemma audit_demo_lengths:
  "length (audit_demo_sb n) = 512" "length audit_demo_agi = 512" "length audit_demo = 2048"
  by (simp_all add: audit_demo_def audit_demo_of_def audit_demo_sb_def audit_demo_agi_def)

lemma audit_demo_length: "length a = 512 \<Longrightarrow> length (audit_demo_of a) = 2048"
  by (simp add: audit_demo_of_def audit_demo_lengths)

lemma audit_demo_sector:
  assumes "length a = 512"
  shows "audit_sector_size (audit_demo_of a) = 512"
proof -
  have "fbe_u16 (audit_demo_of a) 102 = 0"
    by (subst fbe_eq) (simp_all add: audit_demo_length [OF assms] USIZE_MAX_def,
        simp add: audit_demo_of_def audit_demo_sb_def be_u16_def get_range_def be_word_def)
  then show ?thesis by (simp add: audit_sector_size_def is_power_of_two_def)
qed

lemma audit_demo_parse:
  "\<exists>sb. superblock_parse crcf (audit_demo_sb n) = Inr sb \<and> sb_agblocks sb = 3 \<and> sb_blocksize sb = 512 \<and>
     sb_agcount sb = ucast n \<and> sb_is_v5 sb \<and> sb_crc_valid sb = Some (verify_crc crcf (audit_demo_sb n) SB_CRC_OFF)"
proof -
  have v: "be_u16 (audit_demo_sb n) 100 = 5" "be_u32 (audit_demo_sb n) 84 = 3" "be_u32 (audit_demo_sb n) 4 = 512"
    "be_u32 (audit_demo_sb n) 88 = ucast n" "sb_magic_ok (audit_demo_sb n)"
    by (simp_all add: audit_demo_sb_def be_u16_def be_u32_def get_range_def be_word_def be_nat_def sb_magic_ok_def
        XFS_SB_MAGIC_def u8_at_def get_at_def)
  then obtain sb where sb: "superblock_parse crcf (audit_demo_sb n) = Inr sb"
    using superblock_parse_cases(1) [of "audit_demo_sb n" crcf] by (auto simp: audit_demo_lengths SB_MIN_LEN_def)
  then show ?thesis
    using v superblock_parse_Inr_D [OF sb]
    by (simp add: sb_is_v5_def sb_version_def sb_bytes_v5_def crc_status_def)
qed

lemma audit_demo_primary:
  assumes "length a = 512"
  shows "\<exists>sb. primary_of crcf (audit_demo_of a) = Some sb \<and> sb_agblocks sb = 3 \<and> sb_blocksize sb = 512 \<and>
     sb_agcount sb = 2 \<and> sb_is_v5 sb \<and> sb_crc_valid sb = Some (verify_crc crcf (audit_demo_sb 2) SB_CRC_OFF)"
proof -
  have "be_u32 (audit_demo_of a) 0 = XFS_SB_MAGIC"
    by (simp add: audit_demo_of_def audit_demo_sb_def be_u32_def get_range_def be_word_def be_nat_def XFS_SB_MAGIC_def)
  moreover have "take 512 (audit_demo_of a) = audit_demo_sb 2"
    by (simp add: audit_demo_of_def audit_demo_lengths)
  ultimately show ?thesis
    using audit_demo_parse [of crcf 2] by (auto simp: primary_of_def audit_demo_length [OF assms] audit_demo_sector [OF assms])
qed

lemma audit_demo_sectors:
  assumes "length a = 512" and "sb_agblocks sb = 3" "sb_blocksize sb = 512" "sb_agcount sb = 2"
  shows "ag_sector (audit_demo_of a) sb 0 2 = Some a" "ag_sector (audit_demo_of a) sb 1 0 = Some (audit_demo_sb 9)"
    and "ag_base sb 1 = 1536"
  using assms
  by (simp_all add: ag_sector_def ag_in_image_def ag_base_def audit_demo_length audit_demo_sector get_range_def Let_def,
      simp_all add: audit_demo_of_def audit_demo_lengths)

theorem audit_orphans_exact_witness:
  "OrphanedInode 0 0 7 \<in> set (audit_kinds (\<lambda>_. 0) audit_demo)"
proof -
  obtain sb where sb: "primary_of (\<lambda>_. 0) audit_demo = Some sb" "sb_agblocks sb = 3" "sb_blocksize sb = 512"
    "sb_agcount sb = 2" using audit_demo_primary [OF audit_demo_lengths(2)] unfolding audit_demo_def by blast
  have "ag_magic_ok XFS_AGI_MAGIC audit_demo_agi" "be_u32 audit_demo_agi 40 = 7"
    by (simp_all add: ag_magic_ok_def audit_demo_agi_def u8_at_def get_at_def be_word_def be_nat_def XFS_AGI_MAGIC_def
        be_u32_def get_range_def)
  moreover from this(1) obtain h where h: "agi_parse_verified (\<lambda>_. 0) audit_demo_agi (sb_is_v5 sb) = Inr h"
    using agi.parsed [of audit_demo_agi] by (auto simp: audit_demo_lengths ag_len_defs)
  ultimately have "agi_unlinked h ! 0 = 7"
    using agi_parse_unlinked(2) [OF h, of 0] by simp
  then show ?thesis
    using audit_orphans_exact [of audit_demo 0 0 7 "\<lambda>_. 0"] sb h audit_demo_sectors(1) [OF audit_demo_lengths(2) sb(2-4), folded audit_demo_def]
    by (auto simp: audit_demo_lengths USIZE_MAX_def NULL_AGINO_def)
qed

theorem audit_divergence_exact_witness:
  "SbMirrorDivergence 1 ''agcount'' 2 9 1536 \<in> set (audit_kinds (\<lambda>_. 0) audit_demo)"
proof -
  obtain sb where sb: "primary_of (\<lambda>_. 0) audit_demo = Some sb" "sb_agblocks sb = 3" "sb_blocksize sb = 512"
    "sb_agcount sb = 2" using audit_demo_primary [OF audit_demo_lengths(2)] unfolding audit_demo_def by blast
  obtain q where "superblock_parse (\<lambda>_. 0) (audit_demo_sb 9) = Inr q" "sb_agcount q = ucast (9 :: u8)"
    using audit_demo_parse by blast
  then show ?thesis
    using audit_divergence_exact [of audit_demo 1 "''agcount''" 2 9 1536 "\<lambda>_. 0"] sb audit_demo_sectors(2,3) [OF audit_demo_lengths(2) sb(2-4), folded audit_demo_def]
    by (auto simp: audit_demo_lengths USIZE_MAX_def differs_in_def)
qed

theorem audit_crc_exact_witness:
  "CrcMismatch ''superblock'' 0 \<in> set (audit_kinds (\<lambda>_. 1) audit_demo)"
proof -
  obtain sb where sb: "primary_of (\<lambda>_. 1) audit_demo = Some sb" "sb_is_v5 sb"
    "sb_crc_valid sb = Some (verify_crc (\<lambda>_. 1) (audit_demo_sb 2) SB_CRC_OFF)"
    using audit_demo_primary [OF audit_demo_lengths(2)] unfolding audit_demo_def by blast
  have "take 4 (drop 224 (audit_demo_sb 2)) = replicate 4 0"
    by (simp add: audit_demo_sb_def)
  then have "sb_crc_valid sb = Some False"
    using sb(3) by (simp add: verify_crc_iff SB_CRC_OFF_def le_word_def le_nat_def)
  then show ?thesis
    using audit_crc_exact [of audit_demo "''superblock''" 0 "\<lambda>_. 1"] sb(1,2)
    by (simp add: audit_demo_lengths USIZE_MAX_def crc_fails_def)
qed


text \<open>A superblock of one group, sealed with its CRC-32C, is an image nothing is wrong with.\<close>

definition clean_demo :: bytes where
  "clean_demo = stamp_crc crc32c (audit_demo_sb 1) SB_CRC_OFF"

lemma clean_demo_primary:
  obtains sb where "primary_of crc32c clean_demo = Some sb" "sb_crc_valid sb = Some True" "sb_agcount sb = 1"
    "sb_inodesize sb = 0" and "length clean_demo = 512" and "audit_sector_size clean_demo = 512"
proof -
  have len: "length clean_demo = 512" by (simp add: clean_demo_def SB_CRC_OFF_def audit_demo_lengths)
  have same: "be_u16 clean_demo k = be_u16 (audit_demo_sb 1) k" "be_u32 clean_demo k = be_u32 (audit_demo_sb 1) k"
    if "k \<le> 200" for k
    using that by (simp_all add: clean_demo_def stamp_crc_def SB_CRC_OFF_def be_overwrite_other audit_demo_lengths)
  have v: "be_u16 (audit_demo_sb 1) 100 = 5" "be_u16 (audit_demo_sb 1) 102 = 0" "be_u16 (audit_demo_sb 1) 104 = 0"
    "be_u32 (audit_demo_sb 1) 88 = 1" "be_u32 (audit_demo_sb 1) 0 = XFS_SB_MAGIC" "sb_magic_ok (audit_demo_sb 1)"
    by (simp_all add: audit_demo_sb_def be_u16_def be_u32_def get_range_def be_word_def be_nat_def sb_magic_ok_def
        XFS_SB_MAGIC_def u8_at_def get_at_def)
      (simp_all add: numeral_2_eq_2)
  have sect: "audit_sector_size clean_demo = 512"
    using v(2) same by (simp add: audit_sector_size_def fbe_eq len USIZE_MAX_def is_power_of_two_def)
  have "is_ok (superblock_parse crc32c (audit_demo_sb 1))"
    using v(6) by (simp add: sb.ok_iff audit_demo_lengths SB_MIN_LEN_def)
  then obtain sb where sb: "superblock_parse crc32c clean_demo = Inr sb" "sb_crc_valid sb = Some True"
    using sb.stamped_valid [of crc32c "audit_demo_sb 1"] v(1)
    by (auto simp: clean_demo_def sb_bytes_v5_def audit_demo_lengths SB_CRC_OFF_def USIZE_MAX_def)
  have "primary_of crc32c clean_demo = Some sb"
    using sb(1) v(5) same by (simp add: primary_of_def len sect)
  then show thesis
    using that sb(2) superblock_parse_Inr_D(5,7) [OF sb(1)] v same len sect by simp
qed

theorem audit_silent_iff_witness: "audit_image crc32c clean_demo = []"
proof -
  obtain sb where sb: "primary_of crc32c clean_demo = Some sb" "sb_crc_valid sb = Some True" "sb_agcount sb = 1"
    "sb_inodesize sb = 0" and len: "length clean_demo = 512" and sect: "audit_sector_size clean_demo = 512"
    by (rule clean_demo_primary)
  have "n = 0" if "ag_sector clean_demo sb n k = Some d" for n k d
    using that ag_sector_in_image [OF that] sb(3) by (auto simp: ag_in_image_def unat_eq_0)
  moreover have "k = 0" if "ag_sector clean_demo sb 0 k = Some d" for k d
    using that by (auto simp: ag_sector_def Let_def sect get_range_def len ag_base_def split: if_splits)
  ultimately have sector: "n = 0 \<and> k = 0" if "ag_sector clean_demo sb n k = Some d" for n k d
    using that by blast
  have "ag_base sb (ucast (sb_agcount sb) - 1) = 0" by (simp add: sb(3) ag_base_def)
  then have "geometry_ok clean_demo sb" using sb(3) by (simp add: geometry_ok_def len)
  moreover have "\<not> crc_fails crc32c clean_demo sb what off" for what off
    using sector sb(2,4) by (fastforce simp: crc_fails_def)
  ultimately show ?thesis
    using audit_silent_iff [of clean_demo crc32c] sb(1) sector by (fastforce simp: len USIZE_MAX_def)
qed

end
