(* ===== verification/Xfs_Tamper.thy ===== *)
theory Xfs_Tamper
  imports Xfs_Audit
begin

text \<open>
  Damage and the audit. A structure is sealed when the audit reads it and its checksum verifies. The
  lemmas follow the change of one byte of a sealed structure through the readers; the property says for
  which bytes the audit of the changed image reports the structure, and so which bytes a change of
  hides it from the audit: those the audit recognises it by.
\<close>

section \<open>One byte of a buffer\<close>

lemma get_range_update_other:
  "p < i \<or> j \<le> p \<Longrightarrow> get_range (xs[p := b]) i j = get_range xs i j"
  by (auto simp: get_range_def drop_update_swap take_update_swap list_update_beyond drop_update_cancel)

lemma get_range_update_in:
  assumes "get_range xs i j = Some d" and "i \<le> p" and "p < j"
  shows "get_range (xs[p := b]) i j = Some (d[p - i := b])"
  using assms by (auto simp: get_range_Some_iff drop_update_swap take_update_swap split: if_splits)

lemma be_word_inj:
  assumes "length xs = length ys" and "8 * length xs \<le> LENGTH('a::len)"
  shows "(be_word xs :: 'a word) = be_word ys \<longleftrightarrow> xs = ys"
proof
  assume "(be_word xs :: 'a word) = be_word ys"
  then have "be_nat xs = be_nat ys"
    using unat_be_word [where 'a = 'a, of xs] unat_be_word [where 'a = 'a, of ys] assms by simp
  then show "xs = ys" using assms(1) by (metis be_bytes_be_nat)
qed simp

lemma window_update:
  assumes "k + n \<le> length xs" and "xs ! i \<noteq> b"
  shows "take n (drop k (xs[i := b])) = take n (drop k xs) \<longleftrightarrow> \<not> (k \<le> i \<and> i < k + n)"
proof (cases "k \<le> i \<and> i < k + n")
  case True
  then obtain j where j: "i = k + j" "j < n" by (metis le_add_diff_inverse add_less_cancel_left)
  have "take n (drop k (xs[i := b])) ! j = b" "take n (drop k xs) ! j = xs ! i"
    using j assms(1) by simp_all
  then show ?thesis using True assms(2) by metis
next
  case False
  then have "take n (drop k (xs[i := b])) = take n (drop k xs)"
    by (intro take_drop_list_update_other) auto
  then show ?thesis using False by simp
qed

text \<open>A number changes exactly when one of its bytes does.\<close>

lemma be_update:
  assumes "i < length xs" and "xs ! i \<noteq> b"
  shows "k + 2 \<le> length xs \<Longrightarrow> be_u16 (xs[i := b]) k = be_u16 xs k \<longleftrightarrow> \<not> (k \<le> i \<and> i < k + 2)"
    and "k + 4 \<le> length xs \<Longrightarrow> be_u32 (xs[i := b]) k = be_u32 xs k \<longleftrightarrow> \<not> (k \<le> i \<and> i < k + 4)"
    and "k + 8 \<le> length xs \<Longrightarrow> be_u64 (xs[i := b]) k = be_u64 xs k \<longleftrightarrow> \<not> (k \<le> i \<and> i < k + 8)"
  using assms window_update [of k 2 xs i b] window_update [of k 4 xs i b] window_update [of k 8 xs i b]
  by (simp_all add: be_u16_def be_u32_def be_u64_def get_range_def be_word_inj)

lemma u8_at_update: "i < length xs \<Longrightarrow> u8_at (xs[i := b]) k = (if k = i then b else u8_at xs k)"
  by (auto simp: u8_at_def get_at_def)

text \<open>A change inside the stored sum is found as well: the sum stays, the field does not.\<close>

lemma verify_crc_detects_any:
  assumes "detects_byte_change crcf" and "verify_crc crcf d off" and "i < length d" and "d ! i \<noteq> b"
  shows "\<not> verify_crc crcf (d[i := b]) off"
proof (cases "i < off \<or> off + 4 \<le> i")
  case True
  with assms show ?thesis by (intro verify_crc_detects)
next
  case False
  have len: "off + 4 \<le> length d" using assms(2) by (simp add: verify_crc_iff)
  have "overwrite (d[i := b]) off (replicate 4 0) = overwrite d off (replicate 4 0)"
    using False len by (auto intro!: nth_equalityI simp: overwrite_nth nth_list_update)
  moreover have "take 4 (drop off (d[i := b])) \<noteq> take 4 (drop off d)"
    using False assms(4) len by (subst window_update) auto
  then have "(le_word (take 4 (drop off (d[i := b]))) :: u32) \<noteq> le_word (take 4 (drop off d))"
    using be_word_inj [where 'a = 32] len by (simp add: le_word_def le_nat_def be_word_def)
  ultimately show ?thesis
    using assms(2) by (simp add: verify_crc_iff)
qed


section \<open>One byte of an image\<close>

text \<open>Behind its first sector an image can change without touching what the audit knows of the volume.\<close>

lemma behind_first_sector:
  assumes "audit_sector_size img \<le> p" and "length img < USIZE_MAX"
  shows "audit_sector_size (img[p := b]) = audit_sector_size img"
    and "primary_of crcf (img[p := b]) = primary_of crcf img"
proof -
  have p: "512 \<le> p" using assms(1) audit_sector_size_bounds(1) [of img] by simp
  then have "be_u16 (img[p := b]) 102 = be_u16 img 102" "be_u32 (img[p := b]) 0 = be_u32 img 0"
    by (simp_all add: be_u16_def be_u32_def get_range_update_other)
  moreover from this(1) show sect: "audit_sector_size (img[p := b]) = audit_sector_size img"
    using assms(2) by (simp add: audit_sector_size_def fbe_eq)
  ultimately show "primary_of crcf (img[p := b]) = primary_of crcf img"
    using assms(1) by (simp add: primary_of_def)
qed

lemma ag_base_inj:
  "ag_in_image img sb n \<Longrightarrow> ag_base sb m = ag_base sb n \<longleftrightarrow> m = n"
  by (auto simp: ag_base_def ag_in_image_def word_unat_eq_iff)

lemma ag_sector_update:
  assumes "audit_sector_size img \<le> ag_base sb n + k * audit_sector_size img + i" and "length img < USIZE_MAX"
    and "ag_sector img sb n k = Some d" and "i < length d"
  shows "ag_sector (img[ag_base sb n + k * audit_sector_size img + i := b]) sb n k = Some (d[i := b])"
proof -
  let ?s = "audit_sector_size img" and ?o = "ag_base sb n + k * audit_sector_size img"
  have d: "get_range img ?o (?o + ?s) = Some d" "ag_in_image img sb n"
    using assms(3) by (simp_all add: ag_sector_def Let_def split: if_splits)
  have "length d = ?s" using assms(3) by (rule ag_sector_length)
  then have "get_range (img[?o + i := b]) ?o (?o + ?s) = Some (d[i := b])"
    using get_range_update_in [OF d(1), of "?o + i" b] assms(4) by simp
  then show ?thesis
    using d(2) assms(1,2) by (simp add: ag_sector_def ag_in_image_def behind_first_sector)
qed

section \<open>Sealed structures\<close>

text \<open>
  \<open>sealed crcf img sb what off d\<close>: the audit finds the structure \<open>what\<close> with the bytes \<open>d\<close> at \<open>off\<close>, and its
  checksum verifies.
\<close>

definition sealed :: "(bytes \<Rightarrow> u32) \<Rightarrow> bytes \<Rightarrow> superblock \<Rightarrow> string \<Rightarrow> nat \<Rightarrow> bytes \<Rightarrow> bool" where
  "sealed crcf img sb what off d \<longleftrightarrow>
     (\<exists>n. what = ''superblock'' \<and> 1 \<le> n \<and> ag_sector img sb n 0 = Some d \<and> off = ag_base sb n \<and>
        sb_magic_ok d \<and> sb_bytes_v5 d \<and> verify_crc crcf d SB_CRC_OFF)
     \<or> (\<exists>n. what = ''AGF'' \<and> ag_sector img sb n 1 = Some d \<and> off = ag_base sb n + audit_sector_size img \<and>
        ag_magic_ok XFS_AGF_MAGIC d \<and> verify_crc crcf d AGF_CRC_OFF)
     \<or> (\<exists>n. what = ''AGI'' \<and> ag_sector img sb n 2 = Some d \<and> off = ag_base sb n + 2 * audit_sector_size img \<and>
        ag_magic_ok XFS_AGI_MAGIC d \<and> verify_crc crcf d AGI_CRC_OFF)
     \<or> (what = ''inode'' \<and> 176 \<le> unat (sb_inodesize sb) \<and> unat (sb_inodesize sb) dvd off \<and>
        get_range img off (off + unat (sb_inodesize sb)) = Some d \<and> inode_magic_ok d \<and> inode_is_v3 d \<and>
        (\<exists>agno. offset_to_inode sb (word_of_nat off) = Some (agno, be_u64 d 152)) \<and> verify_crc crcf d DINODE_CRC_OFF)"

text \<open>
  The bytes the audit recognises a structure by: the magic; of a superblock the format version; of an
  inode its version and its own number.
\<close>

definition hides :: "string \<Rightarrow> nat \<Rightarrow> u8 \<Rightarrow> bool" where
  "hides what i b \<longleftrightarrow>
     (if what = ''inode'' then i < 2 \<or> i = 4 \<and> b < 3 \<or> 152 \<le> i \<and> i < 160
      else if what = ''superblock'' then i < 4 \<or> i = 101 \<and> unat b mod 16 \<noteq> 5
      else i < 4)"

lemma magic_update:
  assumes "i < length d" and "d ! i \<noteq> b" and "4 \<le> length d"
  shows "ag_magic_ok m d \<Longrightarrow> ag_magic_ok m (d[i := b]) \<longleftrightarrow> 4 \<le> i"
    and "sb_magic_ok d \<Longrightarrow> sb_magic_ok (d[i := b]) \<longleftrightarrow> 4 \<le> i"
proof -
  have m: "be_word [u8_at x 0, u8_at x 1, u8_at x 2, u8_at x 3] = be_u32 x 0" if "length x = length d" for x
    using magic_be_u32 that assms(3) by simp
  show "ag_magic_ok m d \<Longrightarrow> ag_magic_ok m (d[i := b]) \<longleftrightarrow> 4 \<le> i"
    "sb_magic_ok d \<Longrightarrow> sb_magic_ok (d[i := b]) \<longleftrightarrow> 4 \<le> i"
    using be_update(2) [OF assms(1,2), of 0] assms(3)
    unfolding ag_magic_ok_def sb_magic_ok_def m [OF refl] m [OF length_list_update] by auto
qed

lemma version_update:
  assumes "i < length d" and "102 \<le> length d" and "sb_bytes_v5 d"
  shows "sb_bytes_v5 (d[i := b]) \<longleftrightarrow> \<not> (i = 101 \<and> unat b mod 16 \<noteq> 5)"
proof -
  have nib: "be_u16 x 100 AND 0x000f = 5 \<longleftrightarrow> unat (u8_at x 101) mod 16 = 5" if "102 \<le> length x" for x
  proof -
    have "take 2 (drop 100 x) = [u8_at x 100, u8_at x 101]"
      using that take_drop_u8 [of 100 2 x] by (simp add: upt_rec)
    then have "be_u16 x 100 = word_of_nat (unat (u8_at x 100) * 256 + unat (u8_at x 101))"
      using that by (simp add: be_u16_def get_range_def be_word_def be_nat_def)
    then have "be_u16 x 100 AND 0x000f = 5 \<longleftrightarrow> (unat (u8_at x 100) * 256 + unat (u8_at x 101)) mod 16 = 5"
      by (simp only: low_nibble_5)
    also have "(unat (u8_at x 100) * 256 + unat (u8_at x 101)) mod 16 = unat (u8_at x 101) mod 16"
      using mod_mult_self3 [of "unat (u8_at x 100) * 16" 16 "unat (u8_at x 101)"] by (simp add: mult.assoc)
    finally show ?thesis .
  qed
  show ?thesis
    using assms nib [of d] nib [of "d[i := b]"] by (auto simp: sb_bytes_v5_def u8_at_update)
qed


section \<open>What a changed byte shows\<close>

text \<open>In the image with the changed byte each structure is judged on its own changed bytes.\<close>

lemma damaged_header:
  assumes len: "length img < USIZE_MAX" and d: "ag_sector img sb n k = Some d"
    and off: "off = ag_base sb n + k * audit_sector_size img" "audit_sector_size img \<le> off" and i: "i < length d"
  shows "(\<exists>m e. ag_sector (img[off + i := b]) sb m k = Some e \<and>
      off = ag_base sb m + k * audit_sector_size (img[off + i := b]) \<and> P m e) \<longleftrightarrow> P n (d[i := b])"
proof -
  let ?img = "img[off + i := b]"
  have s: "audit_sector_size ?img = audit_sector_size img"
    using len off(2) by (intro behind_first_sector) auto
  have e: "ag_sector ?img sb n k = Some (d[i := b])"
    using ag_sector_update [OF _ len d i] off by simp
  have "m = n" if "ag_sector ?img sb m k = Some e'" "off = ag_base sb m + k * audit_sector_size ?img" for m e'
    using that ag_base_inj [of ?img sb m n] ag_sector_in_image off(1) s by auto
  then show ?thesis using e off(1) s by auto
qed

lemma sealed_superblock:
  assumes "SB_MIN_LEN \<le> length d"
  shows "(\<exists>q. superblock_parse crcf d = Inr q \<and> sb_crc_valid q = Some False) \<longleftrightarrow>
    sb_magic_ok d \<and> sb_bytes_v5 d \<and> \<not> verify_crc crcf d SB_CRC_OFF"
  using superblock_parse_cases(1,3) [of d crcf] superblock_parse_Inr_D(12) [of crcf d] assms
  by (fastforce simp: crc_status_def split: if_splits)

lemma damage_shown:
  assumes len: "length img < USIZE_MAX" and det: "detects_byte_change crcf" and sealed: "sealed crcf img sb what off d"
    and off: "audit_sector_size img \<le> off" and i: "i < length d" "d ! i \<noteq> b"
  shows "crc_fails crcf (img[off + i := b]) sb what off \<longleftrightarrow> \<not> hides what i b"
proof -
  have verify: "\<not> verify_crc crcf (d[i := b]) k" if "verify_crc crcf d k" for k
    using verify_crc_detects_any [OF det that i] .
  have pos: "off \<noteq> 0" using off audit_sector_size_bounds(1) [of img] by simp
  have sect: "512 \<le> length d" if "ag_sector img sb n k = Some d" for n k
    using ag_sector_length [OF that] audit_sector_size_bounds(1) [of img] by simp
  from sealed consider
      (sb) n where "what = ''superblock''" "1 \<le> n" "ag_sector img sb n 0 = Some d" "off = ag_base sb n"
        "sb_magic_ok d" "sb_bytes_v5 d" "verify_crc crcf d SB_CRC_OFF"
    | (agf) n where "what = ''AGF''" "ag_sector img sb n 1 = Some d" "off = ag_base sb n + audit_sector_size img"
        "ag_magic_ok XFS_AGF_MAGIC d" "verify_crc crcf d AGF_CRC_OFF"
    | (agi) n where "what = ''AGI''" "ag_sector img sb n 2 = Some d" "off = ag_base sb n + 2 * audit_sector_size img"
        "ag_magic_ok XFS_AGI_MAGIC d" "verify_crc crcf d AGI_CRC_OFF"
    | (ino) agno where "what = ''inode''" "176 \<le> unat (sb_inodesize sb)" "unat (sb_inodesize sb) dvd off"
        "get_range img off (off + unat (sb_inodesize sb)) = Some d" "inode_magic_ok d" "inode_is_v3 d"
        "offset_to_inode sb (word_of_nat off) = Some (agno, be_u64 d 152)" "verify_crc crcf d DINODE_CRC_OFF"
    unfolding sealed_def by blast
  then show ?thesis
  proof cases
    case sb
    have l: "SB_MIN_LEN \<le> length (d[i := b])" "102 \<le> length d" "4 \<le> length d"
      using sect [OF sb(3)] by (simp_all add: SB_MIN_LEN_def)
    have "crc_fails crcf (img[off + i := b]) sb what off \<longleftrightarrow>
        (\<exists>m e. ag_sector (img[off + i := b]) sb m 0 = Some e \<and>
           off = ag_base sb m + 0 * audit_sector_size (img[off + i := b]) \<and>
           1 \<le> m \<and> (\<exists>q. superblock_parse crcf e = Inr q \<and> sb_crc_valid q = Some False))"
      using pos by (auto simp: crc_fails_def sb(1))
    also have "\<dots> \<longleftrightarrow> 1 \<le> n \<and> (\<exists>q. superblock_parse crcf (d[i := b]) = Inr q \<and> sb_crc_valid q = Some False)"
      using damaged_header [OF len sb(3) _ off i(1), of b "\<lambda>m e. 1 \<le> m \<and> (\<exists>q. superblock_parse crcf e = Inr q \<and> sb_crc_valid q = Some False)"]
      by (simp add: sb(4))
    finally show ?thesis
      using sealed_superblock [OF l(1)] sb(2) magic_update(2) [OF i l(3) sb(5)] version_update [OF i(1) l(2) sb(6)]
        verify [OF sb(7)] by (simp add: hides_def sb(1) not_less)
  next
    case agf
    have "crc_fails crcf (img[off + i := b]) sb what off \<longleftrightarrow>
        (\<exists>m e. ag_sector (img[off + i := b]) sb m 1 = Some e \<and>
           off = ag_base sb m + 1 * audit_sector_size (img[off + i := b]) \<and>
           ag_magic_ok XFS_AGF_MAGIC e \<and> \<not> verify_crc crcf e AGF_CRC_OFF)"
      by (auto simp: crc_fails_def agf(1))
    also have "\<dots> \<longleftrightarrow> ag_magic_ok XFS_AGF_MAGIC (d[i := b]) \<and> \<not> verify_crc crcf (d[i := b]) AGF_CRC_OFF"
      using damaged_header [OF len agf(2) _ off i(1), of b "\<lambda>m e. ag_magic_ok XFS_AGF_MAGIC e \<and> \<not> verify_crc crcf e AGF_CRC_OFF"]
      by (simp add: agf(3))
    finally show ?thesis
      using magic_update(1) [OF i _ agf(4)] sect [OF agf(2)] verify [OF agf(5)] by (simp add: hides_def agf(1) not_less)
  next
    case agi
    have "crc_fails crcf (img[off + i := b]) sb what off \<longleftrightarrow>
        (\<exists>m e. ag_sector (img[off + i := b]) sb m 2 = Some e \<and>
           off = ag_base sb m + 2 * audit_sector_size (img[off + i := b]) \<and>
           ag_magic_ok XFS_AGI_MAGIC e \<and> \<not> verify_crc crcf e AGI_CRC_OFF)"
      by (auto simp: crc_fails_def agi(1))
    also have "\<dots> \<longleftrightarrow> ag_magic_ok XFS_AGI_MAGIC (d[i := b]) \<and> \<not> verify_crc crcf (d[i := b]) AGI_CRC_OFF"
      using damaged_header [OF len agi(2) agi(3) off i(1), of b "\<lambda>m e. ag_magic_ok XFS_AGI_MAGIC e \<and> \<not> verify_crc crcf e AGI_CRC_OFF"]
      by simp
    finally show ?thesis
      using magic_update(1) [OF i _ agi(4)] sect [OF agi(2)] verify [OF agi(5)] by (simp add: hides_def agi(1) not_less)
  next
    case ino
    have l: "length d = unat (sb_inodesize sb)" using get_range_length [OF ino(4)] by simp
    have e: "get_range (img[off + i := b]) off (off + unat (sb_inodesize sb)) = Some (d[i := b])"
      using get_range_update_in [OF ino(4), of "off + i" b] i(1) l by simp
    have "crc_fails crcf (img[off + i := b]) sb what off \<longleftrightarrow>
        inode_magic_ok (d[i := b]) \<and> inode_is_v3 (d[i := b]) \<and> be_u64 (d[i := b]) 152 = be_u64 d 152 \<and>
        \<not> verify_crc crcf (d[i := b]) DINODE_CRC_OFF"
      using ino(2,3,7) by (auto simp: crc_fails_def ino(1) e)
    then show ?thesis
      using ino(2,5,6) l verify [OF ino(8)] be_update(1) [OF i, of 0] be_update(3) [OF i, of 152] i(1)
      by (auto simp: hides_def ino(1) inode_magic_ok_def inode_is_v3_def u8_at_update not_less)
  qed
qed


lemma sealed_inside:
  assumes "length img < USIZE_MAX" and "sealed crcf img sb what off d"
  shows "off < 2 ^ 64"
  using assms ag_sector_off [OF assms(1)] unfolding sealed_def
  by (fastforce simp: USIZE_MAX_def get_range_Some_iff)

text \<open>
  C8: The audit after damage. Change one byte of a structure that the audit of a version 5 image reads and
  whose checksum verifies: a secondary superblock, an AGF, an AGI or an inode, behind the first sector of
  the image. With a checksum that detects such a change, the audit of the changed image reports the
  structure, except for the bytes the audit recognises the structure by: the magic of each, the format
  version of a superblock, version and own number of an inode. A change of those hides the structure.
\<close>

theorem audit_damage_reported_iff:
  assumes "length img < USIZE_MAX" and "detects_byte_change crcf"
    and "primary_of crcf img = Some sb" and "sb_is_v5 sb" and "sealed crcf img sb what off d"
    and "audit_sector_size img \<le> off" and "i < length d" and "d ! i \<noteq> b"
  shows "CrcMismatch what (word_of_nat off) \<in> set (audit_kinds crcf (img[off + i := b])) \<longleftrightarrow> \<not> hides what i b"
proof -
  have "primary_of crcf (img[off + i := b]) = Some sb"
    using assms(1,3,6) by (simp add: behind_first_sector)
  moreover have "unat (word_of_nat off :: u64) = off"
    using sealed_inside [OF assms(1,5)] by (simp add: unat_of_nat)
  ultimately show ?thesis
    using damage_shown [OF assms(1,2,5-8)] assms(1,4) audit_crc_iff [of "img[off + i := b]"] by simp
qed

definition sealed_demo :: bytes where
  "sealed_demo = audit_demo_of (stamp_crc crc32c audit_demo_agi AGI_CRC_OFF)"

theorem audit_damage_reported_iff_witness:
  "CrcMismatch ''AGI'' 1024 \<in> set (audit_kinds crc32c (sealed_demo[1024 + 43 := 9]))
   \<and> CrcMismatch ''AGI'' 1024 \<notin> set (audit_kinds crc32c (sealed_demo[1024 + 1 := 9]))"
proof -
  let ?d = "stamp_crc crc32c audit_demo_agi AGI_CRC_OFF"
  have len: "length ?d = 512" by (simp add: audit_demo_lengths AGI_CRC_OFF_def)
  obtain sb where sb: "primary_of crc32c sealed_demo = Some sb" "sb_agblocks sb = 3" "sb_blocksize sb = 512"
    "sb_agcount sb = 2" "sb_is_v5 sb" using audit_demo_primary [OF len, of crc32c] unfolding sealed_demo_def by blast
  have at: "ag_sector sealed_demo sb 0 2 = Some ?d" "audit_sector_size sealed_demo = 512" "length sealed_demo = 2048"
    using audit_demo_sectors(1) [OF len sb(2-4)] audit_demo_sector [OF len] audit_demo_length [OF len]
    by (simp_all add: sealed_demo_def)
  have "ag_magic_ok XFS_AGI_MAGIC audit_demo_agi"
    by (simp add: ag_magic_ok_def audit_demo_agi_def u8_at_def get_at_def be_word_def be_nat_def XFS_AGI_MAGIC_def)
  then have "ag_magic_ok XFS_AGI_MAGIC ?d"
    unfolding stamp_crc_def by (subst ag_magic_ok_overwrite) (simp_all add: AGI_CRC_OFF_def audit_demo_lengths)
  moreover have "verify_crc crc32c ?d AGI_CRC_OFF"
    by (rule verify_stamp_crc) (simp_all add: AGI_CRC_OFF_def audit_demo_lengths USIZE_MAX_def)
  ultimately have sealed: "sealed crc32c sealed_demo sb ''AGI'' 1024 ?d"
    using at by (auto simp: sealed_def ag_base_def intro!: exI [of _ "0 :: u64"])
  have bytes: "?d ! 43 = 7" "?d ! 1 = 0x41"
    unfolding stamp_crc_def
    by (subst overwrite_nth; simp add: AGI_CRC_OFF_def audit_demo_lengths; simp add: audit_demo_agi_def nth_append nth_Cons')+
  show ?thesis
    using audit_damage_reported_iff [OF _ crc32c_detects sb(1,5) sealed, of 43 9]
      audit_damage_reported_iff [OF _ crc32c_detects sb(1,5) sealed, of 1 9] at len bytes
    by (simp add: USIZE_MAX_def hides_def)
qed

end
