(* ===== verification/Xfs_Recovery.thy ===== *)
theory Xfs_Recovery
  imports Xfs_Forensic
begin

text \<open>
  What \<open>recover_deleted\<close> of \<open>forensic/src/lib.rs\<close> finds: the residual extents of a freed inode, which inodes
  are reported, with which number and size, and what is carved from them.
\<close>

section \<open>Residual extents\<close>

definition residual_ok :: "nat \<Rightarrow> bmbt_rec \<Rightarrow> bool" where
  "residual_ok tot r \<longleftrightarrow> blockcount r \<noteq> 0 \<and> startblock r \<noteq> 0 \<and>
     unat (startblock r) + unat (blockcount r) \<le> tot"

lemma residual_test:
  assumes "length raw = 16"
  shows "(raw = replicate 16 0 \<or> blockcount (unpack raw) = 0 \<or> startblock (unpack raw) = 0 \<or>
      tot < wsat_add (startblock (unpack raw)) (blockcount (unpack raw))) \<longleftrightarrow> \<not> residual_ok (unat tot) (unpack raw)"
proof -
  have "blockcount (unpack (replicate 16 0)) = 0"
    by (simp add: word_unat_eq_iff unpack_fields)
  moreover have "unat (startblock (unpack raw)) + unat (blockcount (unpack raw)) < 2 ^ 64"
    using rec_ok_unpack [OF assms] by (simp add: rec_ok_def)
  ultimately show ?thesis
    by (auto simp: residual_ok_def wsat_add_def word_less_nat_alt unat_add_exact)
qed

lemma residual_loop_takeWhile:
  assumes "length fork < USIZE_MAX" and "length fork \<le> p + 16 * k"
  shows "residual_loop fork tot p = takeWhile (residual_ok (unat tot)) (recs_loop p fork 0 k)"
  using assms
proof (induction fork tot p arbitrary: k rule: residual_loop.induct)
  case (1 fork tot p)
  note len = 1(2)
  show ?case
  proof (cases "p + 16 \<le> length fork")
    case False
    then have "\<not> usat_add p 16 \<le> length fork" "get_range fork p (p + 16) = None"
      using len by (auto simp: usat_add_def get_range_def)
    then show ?thesis by (subst residual_loop.simps, cases k) simp_all
  next
    case True
    then obtain raw where raw: "get_range fork p (p + 16) = Some raw" by (simp add: get_range_def)
    have e: "usat_add p 16 = p + 16" using True len by (simp add: usat_add_def)
    obtain k' where k: "k = Suc k'" using 1(3) True by (cases k) auto
    have len_raw: "length raw = 16" using get_range_length [OF raw] by simp
    have IH: "residual_ok (unat tot) (unpack raw) \<Longrightarrow>
        residual_loop fork tot (p + 16) = takeWhile (residual_ok (unat tot)) (recs_loop (p + 16) fork 0 k')"
      using 1(1) [of raw "unpack raw" k'] True len raw e residual_test [OF len_raw, of tot] 1(3) k by auto
    show ?thesis
      using residual_test [OF len_raw, of tot] IH True len raw e
      by (subst residual_loop.simps) (auto simp: k Let_def recs_loop_Suc)
  qed
qed

text \<open>
  C35: The extents recovered from a freed inode are those the extent reader would have read with the
  record count intact, up to the first that is empty or leaves the image.
\<close>

theorem decode_residual_reads_extents:
  assumes "length fork < USIZE_MAX"
  shows "decode_residual fork tot =
    takeWhile (residual_ok (unat tot)) (read_extents fork (word_of_nat (length fork div 16 + 1)))"
proof -
  have "unat (word_of_nat (length fork div 16 + 1) :: u64) = length fork div 16 + 1"
    using assms by (intro off_eq [THEN iffD1, OF _ refl]) (simp add: USIZE_MAX_def)
  then show ?thesis
    using residual_loop_takeWhile [OF assms, of 0 "length fork div 16 + 1" tot]
    by (simp add: decode_residual_def read_extents_def)
qed

theorem decode_residual_reads_extents_witness:
  "decode_residual (pack \<lparr>startoff = 0, startblock = 3, blockcount = 2, unwritten = False\<rparr>) 4 = []"
  using decode_residual_reads_extents [of "pack \<lparr>startoff = 0, startblock = 3, blockcount = 2, unwritten = False\<rparr>" 4]
    read_extents_roundtrip [of "[\<lparr>startoff = 0, startblock = 3, blockcount = 2, unwritten = False\<rparr>]" 2]
  by (simp add: USIZE_MAX_def rec_ok_def residual_ok_def)

lemma residual_set:
  assumes "length fork < USIZE_MAX" and "r \<in> set (decode_residual fork tot)"
  shows "rec_ok r" "residual_ok (unat tot) r"
proof -
  have "r \<in> set (takeWhile (residual_ok (unat tot)) (recs_loop 0 fork 0 (length fork div 16 + 1)))"
    using assms residual_loop_takeWhile [OF assms(1), of 0 "length fork div 16 + 1" tot]
    by (simp add: decode_residual_def)
  then have "r \<in> set (recs_loop 0 fork 0 (length fork div 16 + 1)) \<and> residual_ok (unat tot) r"
    by (rule set_takeWhileD)
  then show "rec_ok r" "residual_ok (unat tot) r"
    by (blast intro: recs_loop_ok)+
qed

text \<open>
  What is left in a fork: packed records of non-empty extents inside the image, as many as there are from
  its start, up to the first place where no such record follows.
\<close>

definition residual_of :: "nat \<Rightarrow> bytes \<Rightarrow> bmbt_rec list \<Rightarrow> bool" where
  "residual_of tot fork rs \<longleftrightarrow> list_all (\<lambda>r. rec_ok r \<and> residual_ok tot r) rs \<and>
    (\<exists>slack. fork = concat (map pack rs) @ slack \<and>
       \<not> (\<exists>r rest. rec_ok r \<and> residual_ok tot r \<and> slack = pack r @ rest))"

lemma residual_of_Nil: "residual_of tot fork [] \<longleftrightarrow> \<not> (\<exists>r rest. rec_ok r \<and> residual_ok tot r \<and> fork = pack r @ rest)"
  by (simp add: residual_of_def)

lemma residual_of_Cons:
  "residual_of tot fork (r # rs) \<longleftrightarrow> rec_ok r \<and> residual_ok tot r \<and>
    (\<exists>rest. fork = pack r @ rest \<and> residual_of tot rest rs)"
  by (auto simp: residual_of_def)

lemma residual_loop_of:
  assumes "length (p @ fork) < USIZE_MAX"
  shows "residual_loop (p @ fork) tot (length p) = rs \<longleftrightarrow> residual_of (unat tot) fork rs"
  using assms
proof (induction "length fork" arbitrary: p fork rs rule: less_induct)
  case less
  let ?p = "length p"
  show ?case
  proof (cases "16 \<le> length fork")
    case False
    then have "fork \<noteq> pack r @ rest" for r rest by auto
    moreover have "residual_loop (p @ fork) tot ?p = []"
      using False less.prems by (subst residual_loop.simps) (simp add: usat_add_def)
    ultimately show ?thesis by (cases rs) (simp_all add: residual_of_Nil residual_of_Cons)
  next
    case True
    define raw where "raw = take 16 fork"
    have raw: "length raw = 16" "fork = raw @ drop 16 fork" using True by (simp_all add: raw_def)
    have step: "residual_loop (p @ fork) tot ?p = (if residual_ok (unat tot) (unpack raw)
        then unpack raw # residual_loop ((p @ raw) @ drop 16 fork) tot (length (p @ raw)) else [])"
      using True less.prems residual_test [OF raw(1), of tot] raw
      by (subst residual_loop.simps) (auto simp: usat_add_exact get_range_def Let_def raw_def)
    have IH: "residual_loop ((p @ raw) @ drop 16 fork) tot (length (p @ raw)) = qs \<longleftrightarrow> residual_of (unat tot) (drop 16 fork) qs" for qs
      using less.prems True raw by (intro less.hyps) auto
    have first: "rec_ok r \<and> fork = pack r @ rest \<longleftrightarrow> r = unpack raw \<and> rest = drop 16 fork" for r rest
      using rec_ok_unpack [OF raw(1)] pack_unpack [OF raw(1)] raw(2) unpack_pack [of r]
      by (metis append_eq_conv_conj length_pack raw_def)
    then have nil: "(\<exists>r rest. rec_ok r \<and> residual_ok (unat tot) r \<and> fork = pack r @ rest) \<longleftrightarrow> residual_ok (unat tot) (unpack raw)"
      by metis
    have cons: "residual_of (unat tot) fork (r # qs) \<longleftrightarrow>
        r = unpack raw \<and> residual_ok (unat tot) r \<and> residual_of (unat tot) (drop 16 fork) qs" for r qs
      unfolding residual_of_Cons using first by metis
    show ?thesis
    proof (cases rs)
      case Nil
      then show ?thesis unfolding step Nil residual_of_Nil nil by simp
    next
      case (Cons r qs)
      then show ?thesis unfolding step Cons cons IH [symmetric] by auto
    qed
  qed
qed

lemma decode_residual_of:
  assumes "length fork < USIZE_MAX"
  shows "decode_residual fork tot = rs \<longleftrightarrow> residual_of (unat tot) fork rs"
  using residual_loop_of [of "[]" fork tot rs] assms by (simp add: decode_residual_def)

lemma residual_of_length: "residual_of tot fork rs \<Longrightarrow> 16 * length rs \<le> length fork"
proof -
  have "length (concat (map pack rs)) = 16 * length rs" by (induction rs) simp_all
  then show "residual_of tot fork rs \<Longrightarrow> 16 * length rs \<le> length fork" by (auto simp: residual_of_def)
qed

section \<open>Recovered inodes\<close>

text \<open>A freed version 3 inode in a slot of the image, and its residual extents.\<close>

definition freed_at :: "(bytes \<Rightarrow> u32) \<Rightarrow> bytes \<Rightarrow> superblock \<Rightarrow> nat \<Rightarrow> inode \<Rightarrow> bool" where
  "freed_at crcf img sb k i \<longleftrightarrow> (\<exists>d. get_range img k (k + unat (sb_inodesize sb)) = Some d \<and>
     inode_parse crcf d False = Inr i \<and> 3 \<le> di_version i \<and> di_mode i = 0)"

definition image_blocks :: "bytes \<Rightarrow> superblock \<Rightarrow> nat" where
  "image_blocks img sb = length img div unat (sb_blocksize sb)"

lemma image_len_blocks_exact:
  assumes "length img < USIZE_MAX" and "0 < unat (sb_blocksize sb)"
  shows "unat (image_len_blocks (length img) (ucast (sb_blocksize sb))) = image_blocks img sb"
proof -
  have "(ucast (sb_blocksize sb) :: u64) \<noteq> 0"
    using assms(2) by (simp add: word_unat_eq_iff unat_ucast_widen)
  then show ?thesis
    using assms by (simp add: image_len_blocks_def image_blocks_def unat_word_divmod unat_of_nat USIZE_MAX_def unat_ucast_widen)
qed

lemma recover_slot_iff:
  assumes len: "length img < USIZE_MAX"
  shows "del \<in> set (recover_slot crcf img sb k) \<longleftrightarrow>
    (\<exists>i agno ino. freed_at crcf img sb k i \<and> offset_to_inode sb (word_of_nat k) = Some (agno, ino) \<and>
      (let rs = decode_residual (di_data_fork i) (image_len_blocks (length img) (ucast (sb_blocksize sb)));
           est = wsat_mul (sum_list (map blockcount rs)) (ucast (sb_blocksize sb))
       in rs \<noteq> [] \<and> del = \<lparr>del_agno = agno, del_inode_number = ino, del_residual_extents = rs,
            del_ctime = di_ctime i, del_recovered_size_estimate = est,
            del_carved = (case assemble_extents img sb rs est of Inl e \<Rightarrow> [] | Inr bs \<Rightarrow> bs)\<rparr>))"
proof (cases "get_range img k (k + unat (sb_inodesize sb))")
  case None
  then show ?thesis by (simp add: recover_slot_def freed_at_def get_range_usat [OF len])
next
  case (Some d)
  have ld: "length d < USIZE_MAX" using Some len by (auto simp: get_range_def split: if_splits)
  show ?thesis
  proof (cases "inode_parse crcf d False")
    case (Inl e)
    then have "recover_slot crcf img sb k = []"
      using Some by (simp add: recover_slot_def get_range_usat [OF len] Let_def)
    then show ?thesis using Some Inl by (simp add: freed_at_def)
  next
    case (Inr i)
    have "fbe_u16 d 0 = XFS_DINODE_MAGIC"
      using inode.Inr_D [OF Inr] by (simp add: fbe_eq [OF ld] inode_magic_ok_def)
    then show ?thesis
      using Some Inr by (cases "offset_to_inode sb (word_of_nat k)")
        (auto simp: recover_slot_def get_range_usat [OF len] freed_at_def Let_def)
  qed
qed

lemma recover_deleted_iff:
  assumes len: "length img < USIZE_MAX"
  shows "del \<in> set (recover_deleted crcf img sb) \<longleftrightarrow>
    176 \<le> unat (sb_inodesize sb) \<and> 0 < unat (sb_blocksize sb) \<and>
    (\<exists>j. j * unat (sb_inodesize sb) + unat (sb_inodesize sb) \<le> length img \<and>
       del \<in> set (recover_slot crcf img sb (j * unat (sb_inodesize sb))))"
proof -
  have "(ucast (sb_blocksize sb) :: u64) = 0 \<longleftrightarrow> unat (sb_blocksize sb) = 0"
    by (simp add: word_unat_eq_iff unat_ucast_widen)
  then show ?thesis by (auto simp: recover_deleted_def sweep_set len not_less Let_def)
qed

lemma unat_sum_list:
  fixes ws :: "u64 list"
  assumes "sum_list (map unat ws) < 2 ^ 64"
  shows "unat (sum_list ws) = sum_list (map unat ws)"
  using assms by (induction ws) (simp_all add: unat_word_ariths)

text \<open>The size carved, in exact arithmetic: the bytes of the recovered blocks.\<close>

definition blocks_size :: "superblock \<Rightarrow> bmbt_rec list \<Rightarrow> nat" where
  "blocks_size sb rs = sum_list (map (\<lambda>r. unat (blockcount r)) rs) * unat (sb_blocksize sb)"

lemma blocks_sum_exact:
  assumes "list_all rec_ok rs" and "length rs < 2 ^ 16"
  shows "unat (sum_list (map blockcount rs)) = sum_list (map (\<lambda>r. unat (blockcount r)) rs)"
proof -
  have "sum_list (map (\<lambda>r. unat (blockcount r)) rs) \<le> sum_list (map (\<lambda>r. 2 ^ 21) rs)"
    using assms(1) by (intro sum_list_mono) (auto simp: list_all_iff rec_ok_def intro: less_imp_le)
  also have "\<dots> = length rs * 2 ^ 21" by (simp add: sum_list_triv)
  finally have "sum_list (map unat (map blockcount rs)) < 2 ^ 64" using assms(2) by (simp add: o_def)
  then show ?thesis using unat_sum_list by (simp add: o_def)
qed

lemma recovered_parts:
  assumes len: "length img < USIZE_MAX" and del: "del \<in> set (recover_deleted crcf img sb)"
  shows "(\<exists>k i. unat (sb_inodesize sb) dvd k \<and> freed_at crcf img sb k i \<and>
      offset_to_inode sb (word_of_nat k) = Some (del_agno del, del_inode_number del) \<and>
      residual_of (image_blocks img sb) (di_data_fork i) (del_residual_extents del) \<and> del_ctime del = di_ctime i) \<and>
    del_residual_extents del \<noteq> [] \<and>
    unat (del_recovered_size_estimate del) = min (blocks_size sb (del_residual_extents del)) (2 ^ 64 - 1) \<and>
    del_carved del = (if length img < blocks_size sb (del_residual_extents del) then []
      else map (file_byte img (unat (sb_blocksize sb)) (blocks_size sb (del_residual_extents del)) (del_residual_extents del))
             [0..<blocks_size sb (del_residual_extents del)])"
proof -
  let ?tot = "image_len_blocks (length img) (ucast (sb_blocksize sb))" and ?rs = "del_residual_extents del"
  from del obtain j where bs: "0 < unat (sb_blocksize sb)"
    and slot: "del \<in> set (recover_slot crcf img sb (j * unat (sb_inodesize sb)))"
    by (auto simp: recover_deleted_iff [OF len])
  from slot obtain i where i: "freed_at crcf img sb (j * unat (sb_inodesize sb)) i"
    and num: "offset_to_inode sb (word_of_nat (j * unat (sb_inodesize sb))) = Some (del_agno del, del_inode_number del)"
    and rs: "?rs = decode_residual (di_data_fork i) ?tot" "?rs \<noteq> []"
    and ct: "del_ctime del = di_ctime i"
    and est: "del_recovered_size_estimate del = wsat_mul (sum_list (map blockcount ?rs)) (ucast (sb_blocksize sb))"
    and carved: "del_carved del = (case assemble_extents img sb ?rs (del_recovered_size_estimate del)
      of Inl e \<Rightarrow> [] | Inr bs \<Rightarrow> bs)"
    by (auto simp: recover_slot_iff [OF len] Let_def)
  from i have fork: "length (di_data_fork i) < 2 ^ 16" "length (di_data_fork i) < USIZE_MAX"
    using len unat_less_pow [of "sb_inodesize sb"]
    by (auto simp: freed_at_def get_range_def inode_parse_Inr_D(12) split: if_splits)
  then have res: "residual_of (image_blocks img sb) (di_data_fork i) ?rs"
    using decode_residual_of [of "di_data_fork i" ?tot ?rs] rs(1) by (simp add: image_len_blocks_exact [OF len bs])
  have ok: "list_all rec_ok ?rs" using res by (simp add: residual_of_def list_all_iff)
  have "length ?rs < 2 ^ 16" using residual_of_length [OF res] fork(1) by linarith
  then have size: "unat (del_recovered_size_estimate del) = min (blocks_size sb ?rs) (2 ^ 64 - 1)"
    using blocks_sum_exact [OF ok] by (simp add: est unat_wsat_mul unat_ucast_widen blocks_size_def min.commute)
  have img: "length img < 2 ^ 64 - 1" using len by (simp add: USIZE_MAX_def)
  have "del_carved del = (if length img < blocks_size sb ?rs then []
      else map (file_byte img (unat (sb_blocksize sb)) (blocks_size sb ?rs) ?rs) [0..<blocks_size sb ?rs])"
  proof (cases "length img < blocks_size sb ?rs")
    case True
    then have "length img < unat (del_recovered_size_estimate del)" using img by (simp add: size)
    then show ?thesis using True assemble_too_big [of img _ sb ?rs] by (simp add: carved)
  next
    case False
    then have e: "unat (del_recovered_size_estimate del) = blocks_size sb ?rs" using img by (simp add: size min_def)
    then show ?thesis using False assemble_ok [OF _ len, of "del_recovered_size_estimate del" sb ?rs] by (simp add: carved)
  qed
  with i num res ct rs(2) size show ?thesis by (blast intro: dvd_triv_right)
qed

lemma freed_recovered:
  assumes len: "length img < USIZE_MAX" and isz: "176 \<le> unat (sb_inodesize sb)"
    and geo: "unat (sb_inodesize sb) * 2 ^ unat (sb_inopblog sb) = unat (sb_blocksize sb)"
    and ag: "ino_in_ag sb ino" and bits: "loc_bits sb < 64"
    and freed: "freed_at crcf img sb (unat (loc_byte_offset (inode_to_location sb ino))) i"
    and left: "decode_residual (di_data_fork i) (image_len_blocks (length img) (ucast (sb_blocksize sb))) \<noteq> []"
  shows "\<exists>del \<in> set (recover_deleted crcf img sb). del_inode_number del = ino \<and>
    del_agno del = loc_agno (inode_to_location sb ino) \<and> del_ctime del = di_ctime i \<and>
    del_residual_extents del =
      decode_residual (di_data_fork i) (image_len_blocks (length img) (ucast (sb_blocksize sb)))"
proof -
  let ?off = "unat (loc_byte_offset (inode_to_location sb ino))" and ?isz = "unat (sb_inodesize sb)"
  have bs: "0 < unat (sb_blocksize sb)" using isz by (simp flip: geo)
  have le: "?off + ?isz \<le> length img" using freed by (auto simp: freed_at_def get_range_def split: if_splits)
  then have lt: "?off < USIZE_MAX" using len isz by linarith
  have "?isz dvd ?off"
    unfolding location_exact(2) [OF bs lt] by (simp flip: geo)
  then obtain j where j: "?off = j * ?isz" by (metis dvdE mult.commute)
  have "sb_geometry_ok sb" using isz geo by (simp add: sb_geometry_ok_def)
  then have "offset_to_inode sb (word_of_nat ?off) = Some (loc_agno (inode_to_location sb ino), ino)"
    using offset_inode_back [OF _ ag bits lt] by simp
  then obtain del where del: "del \<in> set (recover_slot crcf img sb (j * ?isz))" "del_inode_number del = ino"
    "del_agno del = loc_agno (inode_to_location sb ino)" "del_ctime del = di_ctime i"
    "del_residual_extents del =
      decode_residual (di_data_fork i) (image_len_blocks (length img) (ucast (sb_blocksize sb)))"
    using freed left unfolding recover_slot_iff [OF len] j Let_def by fastforce
  moreover have "del \<in> set (recover_deleted crcf img sb)"
    using del(1) le isz bs j unfolding recover_deleted_iff [OF len] by auto
  ultimately show ?thesis by blast
qed

lemma residual_recovered:
  assumes len: "length img < USIZE_MAX" and isz: "176 \<le> unat (sb_inodesize sb)"
    and geo: "unat (sb_inodesize sb) * 2 ^ unat (sb_inopblog sb) = unat (sb_blocksize sb)"
    and ag: "ino_in_ag sb ino" and bits: "loc_bits sb < 64"
    and freed: "freed_at crcf img sb (unat (loc_byte_offset (inode_to_location sb ino))) i"
    and left: "residual_of (image_blocks img sb) (di_data_fork i) rs" "rs \<noteq> []"
  shows "\<exists>del \<in> set (recover_deleted crcf img sb). del_inode_number del = ino \<and>
    del_agno del = loc_agno (inode_to_location sb ino) \<and> del_ctime del = di_ctime i \<and> del_residual_extents del = rs"
proof -
  have bs: "0 < unat (sb_blocksize sb)" using isz by (simp flip: geo)
  have "length (di_data_fork i) < USIZE_MAX"
    using freed len by (auto simp: freed_at_def get_range_def inode_parse_Inr_D(12) split: if_splits)
  then have "decode_residual (di_data_fork i) (image_len_blocks (length img) (ucast (sb_blocksize sb))) = rs"
    using left(1) by (simp add: decode_residual_of image_len_blocks_exact [OF len bs])
  then show ?thesis using freed_recovered [OF len isz geo ag bits freed] left(2) by simp
qed

text \<open>
  The carving places each extent at its logical offset, while its size counts the recovered blocks. When
  every residual extent of a deleted file lies past that size (a sparse file), the carved bytes are all
  zero, whatever the blocks of the extents hold.
\<close>

lemma recover_deleted_sparse_zero:
  assumes len: "length img < USIZE_MAX" and del: "del \<in> set (recover_deleted crcf img sb)"
    and sparse: "\<forall>r \<in> set (del_residual_extents del).
      sum_list (map (\<lambda>r. unat (blockcount r)) (del_residual_extents del)) \<le> unat (startoff r)"
  shows "set (del_carved del) \<subseteq> {0}"
proof (cases "length img < blocks_size sb (del_residual_extents del)")
  case False
  let ?sz = "blocks_size sb (del_residual_extents del)"
  have "file_byte img (unat (sb_blocksize sb)) ?sz (del_residual_extents del) p = 0" if p: "p < ?sz" for p
  proof (rule file_byte_hole, rule ballI)
    fix r assume "r \<in> set (del_residual_extents del)"
    then have "?sz \<le> unat (startoff r) * unat (sb_blocksize sb)"
      using sparse unfolding blocks_size_def by (meson mult_le_mono1)
    then show "\<not> ext_covers (length img) (unat (sb_blocksize sb)) ?sz r p"
      using p by (simp add: ext_covers_def Let_def)
  qed
  then show ?thesis using recovered_parts [OF len del] False by auto
qed (use recovered_parts [OF len del] in simp)

section \<open>Properties of the recovery\<close>

text \<open>A small image: a freed inode in the first slot, with the record of one extent, then a data block.\<close>

definition demo_sb :: superblock where
  "demo_sb = \<lparr>sb_magic = XFS_SB_MAGIC, sb_blocksize = 192, sb_rootino = 0, sb_agblocks = 2, sb_agcount = 1,
     sb_versionnum = 5, sb_inodesize = 192, sb_inopblock = 1, sb_blocklog = 0, sb_inodelog = 0,
     sb_inopblog = 0, sb_agblklog = 1, sb_features2 = 0, sb_features_incompat = 0, sb_crc_valid = None\<rparr>"

definition demo_rec :: "u64 \<Rightarrow> bmbt_rec" where
  "demo_rec off = \<lparr>startoff = off, startblock = 1, blockcount = 1, unwritten = False\<rparr>"

definition demo_core :: bytes where
  "demo_core = [0x49, 0x4e, 0, 0, 3, 2] @ replicate 170 0"

definition demo_image :: "u64 \<Rightarrow> bytes" where
  "demo_image off = demo_core @ pack (demo_rec off) @ replicate 192 7"

lemma demo_length: "length (demo_image off) = 384" "length demo_core = 176"
  by (simp_all add: demo_image_def demo_core_def)

lemma demo_location: "loc_byte_offset (inode_to_location demo_sb 0) = 0" "loc_bits demo_sb = 1" "ino_in_ag demo_sb 0"
  by (simp_all add: ino_in_ag_def loc_bits_def, simp_all add: demo_sb_def inode_to_location_def shr_def
      wsat_mul_def wsat_add_def)

text \<open>
  C28: The auditor's map from an image offset back to an inode number inverts the reader's map from an
  inode number to its offset, for every inode of a consistent geometry.
\<close>

theorem offset_to_inode_inverts:
  assumes "sb_geometry_ok sb" and "ino_in_ag sb ino" and "loc_bits sb < 64"
    and "unat (loc_byte_offset (inode_to_location sb ino)) < USIZE_MAX"
  shows "offset_to_inode sb (loc_byte_offset (inode_to_location sb ino)) =
    Some (loc_agno (inode_to_location sb ino), ino)"
  using assms by (rule offset_inode_back)

theorem offset_to_inode_inverts_witness:
  "offset_to_inode demo_sb (loc_byte_offset (inode_to_location demo_sb 0)) =
    Some (loc_agno (inode_to_location demo_sb 0), 0)"
  by (rule offset_to_inode_inverts)
    (simp_all add: demo_location USIZE_MAX_def, simp add: sb_geometry_ok_def demo_sb_def)

text \<open>
  A volume of three blocks: a freed inode with two records in its fork, the blocks they name, and a zero
  record behind them.
\<close>

definition pair_sb :: superblock where
  "pair_sb = demo_sb\<lparr>sb_blocksize := 224, sb_inodesize := 224, sb_agblocks := 4\<rparr>"

definition pair_recs :: "bmbt_rec list" where
  "pair_recs = [\<lparr>startoff = 0, startblock = 2, blockcount = 1, unwritten = False\<rparr>,
     \<lparr>startoff = 1, startblock = 1, blockcount = 1, unwritten = False\<rparr>]"

definition pair_image :: bytes where
  "pair_image = demo_core @ concat (map pack pair_recs) @ replicate 16 0 @ replicate 224 7 @ replicate 224 8"

lemma pair_length: "length (concat (map pack pair_recs)) = 32" "length pair_image = 672"
  by (simp_all add: pair_recs_def pair_image_def demo_length)

lemma pair_geometry:
  "unat (sb_inodesize pair_sb) = 224" "unat (sb_blocksize pair_sb) = 224" "unat (sb_inopblog pair_sb) = 0"
  "loc_byte_offset (inode_to_location pair_sb 0) = 0" "loc_bits pair_sb = 1" "ino_in_ag pair_sb 0"
  by (simp_all add: ino_in_ag_def loc_bits_def, simp_all add: pair_sb_def demo_sb_def inode_to_location_def shr_def
    wsat_mul_def wsat_add_def)

lemma pair_freed:
  "\<exists>i. freed_at crcf pair_image pair_sb 0 i \<and> di_data_fork i = concat (map pack pair_recs) @ replicate 16 0"
proof -
  let ?d = "demo_core @ concat (map pack pair_recs) @ replicate 16 0"
  have w: "get_range pair_image 0 (0 + unat (sb_inodesize pair_sb)) = Some ?d"
    by (simp add: get_range_def pair_image_def pair_sb_def demo_length pair_length)
  have m: "inode_magic_ok ?d" "be_u16 ?d 2 = 0" "u8_at ?d 4 = 3"
    by (simp_all add: demo_core_def inode_magic_ok_def be_u16_def get_range_def be_word_def be_nat_def
        XFS_DINODE_MAGIC_def u8_at_def get_at_def)
  have need: "inode_need ?d = 176" using m(3) by (simp add: inode_need_def inode_is_v3_def litino_defs)
  with m obtain i where i: "inode_parse crcf ?d False = Inr i"
    using inode_parse_cases(1) [of ?d crcf False] by (auto simp: demo_length)
  then show ?thesis
    using w m need inode_parse_Inr_D(1,2,12) [OF i] unfolding freed_at_def by (intro exI [of _ i]) (auto simp: demo_length)
qed

lemma pair_residual: "residual_of (image_blocks pair_image pair_sb) (concat (map pack pair_recs) @ replicate 16 0) pair_recs"
proof -
  have "image_blocks pair_image pair_sb = 3" by (simp add: image_blocks_def pair_length pair_sb_def)
  moreover have "\<not> residual_ok 3 r" if "pack r = replicate 16 0" "rec_ok r" for r
    using unpack_pack [OF that(2)] by (auto simp: that(1) residual_ok_def word_unat_eq_iff unpack_fields)
  moreover have "pack r = replicate 16 0" if "replicate 16 0 = pack r @ rest" for r rest
    using arg_cong [OF that, of length] arg_cong [OF that, of "take 16"] by simp
  moreover have "list_all (\<lambda>r. rec_ok r \<and> residual_ok 3 r) pair_recs"
    by (simp add: pair_recs_def rec_ok_def residual_ok_def)
  ultimately show ?thesis unfolding residual_of_def by metis
qed

text \<open>
  C10: Every freed version 3 inode of the image whose fork begins with the record of a non-empty extent
  inside the image is recovered, under its own number and with the extents of all the records up to the
  first that is none such.
\<close>

theorem recover_deleted_complete:
  assumes len: "length img < USIZE_MAX" and isz: "176 \<le> unat (sb_inodesize sb)"
    and geo: "unat (sb_inodesize sb) * 2 ^ unat (sb_inopblog sb) = unat (sb_blocksize sb)"
    and ag: "ino_in_ag sb ino" and bits: "loc_bits sb < 64"
    and freed: "freed_at crcf img sb (unat (loc_byte_offset (inode_to_location sb ino))) i"
    and left: "residual_of (image_blocks img sb) (di_data_fork i) rs" "rs \<noteq> []"
  shows "\<exists>del \<in> set (recover_deleted crcf img sb). del_inode_number del = ino \<and>
    del_agno del = loc_agno (inode_to_location sb ino) \<and> del_ctime del = di_ctime i \<and> del_residual_extents del = rs"
  using assms by (rule residual_recovered)

theorem recover_deleted_complete_witness:
  "\<exists>del \<in> set (recover_deleted (\<lambda>_. 0) pair_image pair_sb). del_inode_number del = 0 \<and>
     del_residual_extents del = pair_recs"
proof -
  obtain i where i: "freed_at (\<lambda>_. 0) pair_image pair_sb 0 i" "di_data_fork i = concat (map pack pair_recs) @ replicate 16 0"
    using pair_freed by blast
  then show ?thesis
    using recover_deleted_complete [of pair_image pair_sb 0 "\<lambda>_. 0" i pair_recs] pair_residual pair_geometry
    by (auto simp: pair_length USIZE_MAX_def pair_recs_def)
qed

text \<open>
  C11: A reported deleted inode is a freed version 3 inode of a slot of the image, under the number its
  position stands for. Its extents are those of the records left in its fork, and the size estimate is
  the size of their blocks. What is carved is empty when that exceeds the image, and otherwise
  the first so many bytes of the file these extents map; what a sparse file has beyond is lost.
\<close>

theorem recover_deleted_sound:
  assumes len: "length img < USIZE_MAX" and del: "del \<in> set (recover_deleted crcf img sb)"
  shows "(\<exists>k i. unat (sb_inodesize sb) dvd k \<and> freed_at crcf img sb k i \<and>
      offset_to_inode sb (word_of_nat k) = Some (del_agno del, del_inode_number del) \<and>
      residual_of (image_blocks img sb) (di_data_fork i) (del_residual_extents del) \<and> del_ctime del = di_ctime i) \<and>
    del_residual_extents del \<noteq> [] \<and>
    unat (del_recovered_size_estimate del) = min (blocks_size sb (del_residual_extents del)) (2 ^ 64 - 1) \<and>
    del_carved del = (if length img < blocks_size sb (del_residual_extents del) then []
      else map (file_byte img (unat (sb_blocksize sb)) (blocks_size sb (del_residual_extents del)) (del_residual_extents del))
             [0..<blocks_size sb (del_residual_extents del)])"
  using assms by (rule recovered_parts)

lemma pair_recovered:
  "\<exists>del \<in> set (recover_deleted crcf pair_image pair_sb). del_residual_extents del = pair_recs"
proof -
  obtain i where i: "freed_at crcf pair_image pair_sb 0 i" "di_data_fork i = concat (map pack pair_recs) @ replicate 16 0"
    using pair_freed by blast
  then show ?thesis
    using residual_recovered [of pair_image pair_sb 0 crcf i pair_recs] pair_residual pair_geometry
    by (auto simp: pair_length USIZE_MAX_def pair_recs_def)
qed

text \<open>The second block of the volume comes first in the file.\<close>

theorem recover_deleted_sound_witness:
  "\<exists>del \<in> set (recover_deleted (\<lambda>_. 0) pair_image pair_sb). del_residual_extents del = pair_recs \<and>
     del_recovered_size_estimate del = 448 \<and> length (del_carved del) = 448 \<and> del_carved del ! 0 = 8 \<and> del_carved del ! 300 = 7"
proof -
  obtain del where del: "del \<in> set (recover_deleted (\<lambda>_. 0) pair_image pair_sb)" "del_residual_extents del = pair_recs"
    using pair_recovered by blast
  have size: "blocks_size pair_sb pair_recs = 448" "unat (sb_blocksize pair_sb) = 224"
    by (simp_all add: blocks_size_def pair_recs_def pair_sb_def)
  note sound = recover_deleted_sound [OF _ del(1), unfolded del(2) size pair_length]
  have "unat (del_recovered_size_estimate del) = 448" "del_carved del = map (file_byte pair_image 224 448 pair_recs) [0..<448]"
    using sound by (simp_all add: USIZE_MAX_def)
  moreover have "file_byte pair_image 224 448 pair_recs 0 = 8" "file_byte pair_image 224 448 pair_recs 300 = 7"
    by (simp_all add: file_byte_def ext_covers_def ext_byte_def Let_def pair_recs_def pair_length)
      (simp_all add: pair_image_def demo_length pair_length nth_append)
  ultimately show ?thesis
    using del by (intro bexI [of _ del]) (simp_all add: word_unat_eq_iff)
qed

end
