(* ===== verification/Xfs_Dir.thy ===== *)
theory Xfs_Dir
  imports Xfs_Btree
begin

text \<open>
  Directories, \<open>core/src/dir.rs\<close>: the short-form, single-block and multi-block readers, the dispatch
  on the inode format, checksums of directory blocks, and the resolution of a path to a file.

  The lemmas show that stored entries are read back (short-form entries of both inode widths, data
  records with free records between them), what a hostile block can make the walk return, when a
  listing fails, and that \<open>read_by_path\<close> implements path resolution.
\<close>

section \<open>Constants and entries\<close>

definition XFS_DIR3_BLOCK_MAGIC :: u32 where "XFS_DIR3_BLOCK_MAGIC = 0x58444233"
definition XFS_DIR2_BLOCK_MAGIC :: u32 where "XFS_DIR2_BLOCK_MAGIC = 0x58443242"
definition XFS_DIR3_DATA_MAGIC :: u32 where "XFS_DIR3_DATA_MAGIC = 0x58444433"
definition XFS_DIR2_DATA_MAGIC :: u32 where "XFS_DIR2_DATA_MAGIC = 0x58443244"
definition XFS_DIR3_LEAF1_MAGIC :: u16 where "XFS_DIR3_LEAF1_MAGIC = 0x3df1"
definition XFS_DIR3_LEAFN_MAGIC :: u16 where "XFS_DIR3_LEAFN_MAGIC = 0x3dff"
definition XFS_DA3_NODE_MAGIC :: u16 where "XFS_DA3_NODE_MAGIC = 0x3ebe"
definition DIR3_DATA_HDR_LEN :: nat where "DIR3_DATA_HDR_LEN = 64"
definition DIR2_DATA_HDR_LEN :: nat where "DIR2_DATA_HDR_LEN = 16"
definition XFS_DIR2_LEAF_OFFSET :: u64 where "XFS_DIR2_LEAF_OFFSET = push_bit 35 1"
definition BLOCK_TAIL_LEN :: nat where "BLOCK_TAIL_LEN = 8"
definition LEAF_ENTRY_LEN :: nat where "LEAF_ENTRY_LEN = 8"
definition DATA_FREE_TAG :: u16 where "DATA_FREE_TAG = 0xffff"

lemmas dir_magic_defs = XFS_DIR3_BLOCK_MAGIC_def XFS_DIR2_BLOCK_MAGIC_def XFS_DIR3_DATA_MAGIC_def
  XFS_DIR2_DATA_MAGIC_def
lemmas dir_len_defs = DIR3_DATA_HDR_LEN_def DIR2_DATA_HDR_LEN_def BLOCK_TAIL_LEN_def LEAF_ENTRY_LEN_def

record dir_entry =
  de_name :: bytes
  de_inode :: u64
  de_ftype :: "u8 option"

text \<open>\<open>n.saturating_add(7) & !7\<close>: the three low bits are cleared.\<close>

definition align8 :: "nat \<Rightarrow> nat" where
  "align8 n = usat_add n 7 - usat_add n 7 mod 8"

section \<open>Short-form directories\<close>

definition read_inum :: "bytes \<Rightarrow> u64" where
  "read_inum bs = (if length bs = 4 then ucast (be_u32 bs 0) else be_u64 bs 0)"

fun shortform_loop :: "bytes \<Rightarrow> bool \<Rightarrow> nat \<Rightarrow> nat \<Rightarrow> nat \<Rightarrow> dir_entry list" where
  "shortform_loop fork has_ft inum_width off 0 = []"
| "shortform_loop fork has_ft inum_width off (Suc k) =
    (let namelen = unat (u8_at fork off);
         name_start = off + 3;
         name_end = name_start + namelen
     in case get_range fork name_start name_end of
          None \<Rightarrow> []
        | Some name \<Rightarrow>
          let ftype_off = name_end;
              (ftype, inum_off) = (if has_ft then (Some (u8_at fork ftype_off), ftype_off + 1)
                                   else (None, ftype_off));
              inum_end = inum_off + inum_width
          in case get_range fork inum_off inum_end of
               None \<Rightarrow> []
             | Some inum_bytes \<Rightarrow>
               let ino = read_inum inum_bytes
               in \<lparr>de_name = name, de_inode = ino, de_ftype = ftype\<rparr>
                  # shortform_loop fork has_ft inum_width inum_end k)"

definition read_shortform_dir :: "bytes \<Rightarrow> bool \<Rightarrow> dir_entry list" where
  "read_shortform_dir fork has_ft =
    (let count = unat (u8_at fork 0);
         i8count = u8_at fork 1;
         inum_width = (if i8count = 0 then 4 else 8);
         off = 2 + inum_width
     in shortform_loop fork has_ft inum_width off count)"

section \<open>Data blocks\<close>

text \<open>
  The loop over \<open>[off..end)\<close>. Both are \<open>usize\<close>: the bound on \<open>end\<close> always holds in the code, and with
  it the saturating addition moves forward.
\<close>

function walk_data_entries :: "bytes \<Rightarrow> nat \<Rightarrow> nat \<Rightarrow> bool \<Rightarrow> dir_entry list" where
  "walk_data_entries block off end' has_ft =
    (if off + 3 \<le> end' \<and> end' \<le> USIZE_MAX then
       if be_u16 block off = DATA_FREE_TAG then
         let free_len = unat (be_u16 block (off + 2))
         in walk_data_entries block (usat_add off (max free_len (align8 1))) end' has_ft
       else
         let ino = be_u64 block off;
             namelen = unat (u8_at block (off + 8))
         in if namelen = 0 then []
            else
              let name_start = off + 9;
                  name_end = name_start + namelen
              in case get_range block name_start name_end of
                   None \<Rightarrow> []
                 | Some name \<Rightarrow>
                   let ftype = (if has_ft then Some (u8_at block name_end) else None);
                       ftype_len = (if has_ft then 1 else 0);
                       raw = 8 + 1 + namelen + ftype_len + 2
                   in \<lparr>de_name = name, de_inode = ino, de_ftype = ftype\<rparr>
                      # walk_data_entries block (usat_add off (align8 raw)) end' has_ft
     else [])"
  by pat_completeness auto

lemma align8_bounds:
  assumes "n + 7 \<le> USIZE_MAX"
  shows "n \<le> align8 n" and "align8 n < n + 8" and "align8 n mod 8 = 0"
proof -
  have "(n + 7) mod 8 < 8" by simp
  moreover have "align8 n = (n + 7) - (n + 7) mod 8"
    using assms by (simp add: align8_def usat_add_exact)
  ultimately show "n \<le> align8 n" "align8 n < n + 8" by linarith+
  show "align8 n mod 8 = 0"
    unfolding \<open>align8 n = (n + 7) - (n + 7) mod 8\<close> by (simp add: minus_mod_eq_mult_div)
qed

lemma align8_ge_16: "12 \<le> n \<Longrightarrow> n + 7 \<le> USIZE_MAX \<Longrightarrow> 16 \<le> align8 n"
proof -
  have *: "12 \<le> n \<Longrightarrow> n \<le> a \<Longrightarrow> a mod 8 = 0 \<Longrightarrow> 16 \<le> a" for a :: nat by presburger
  show "12 \<le> n \<Longrightarrow> n + 7 \<le> USIZE_MAX \<Longrightarrow> 16 \<le> align8 n"
    by (rule *) (simp_all add: align8_bounds)
qed

lemma align8_1 [simp]: "align8 1 = 8" "align8 (Suc 0) = 8"
  by (simp_all add: align8_def usat_add_def USIZE_MAX_def)

lemma record_len:
  fixes w :: u8
  shows "8 + 1 + unat w + (if b then 1 else 0) + 2 \<le> align8 (8 + 1 + unat w + (if b then 1 else 0) + 2)"
  using unat_u8 [of w] by (intro align8_bounds) (simp add: USIZE_MAX_def)

lemma usat_add_forward: "off + 3 \<le> e \<Longrightarrow> e \<le> USIZE_MAX \<Longrightarrow> 0 < k \<Longrightarrow> e - usat_add off k < e - off"
  by (auto simp: usat_add_def min_def)

termination walk_data_entries
proof (relation "measure (\<lambda>(block, off, end', has_ft). end' - off)")
  fix block off end' has_ft ino namelen name_start name_end name ftype ftype_len raw
  assume le: "off + 3 \<le> end' \<and> end' \<le> USIZE_MAX"
    and raw: "raw = 8 + 1 + namelen + ftype_len + 2" "namelen = unat (u8_at block (off + 8))"
      "ftype_len = (if has_ft then 1 else 0)"
  have "0 < align8 raw" unfolding raw using record_len [of "u8_at block (off + 8)" has_ft] by linarith
  then show "((block, usat_add off (align8 raw), end', has_ft), block, off, end', has_ft)
      \<in> measure (\<lambda>(block, off, end', has_ft). end' - off)"
    using usat_add_forward [of off end' "align8 raw"] le by simp
qed (auto intro: usat_add_forward)

declare walk_data_entries.simps [simp del]

definition read_block_dir :: "bytes \<Rightarrow> bool \<Rightarrow> dir_entry list xfs_result" where
  "read_block_dir block has_ft =
    (let magic = be_u32 block 0;
         hdr_len = (if magic = XFS_DIR3_BLOCK_MAGIC then Some DIR3_DATA_HDR_LEN
                    else if magic = XFS_DIR2_BLOCK_MAGIC then Some DIR2_DATA_HDR_LEN else None)
     in case hdr_len of
          None \<Rightarrow> Inl (UnsupportedDir (''block directory: unrecognized data-block magic ''
            @ hex_u32 magic @ '' (bytes '' @ hex_bytes (unwrap_or [] (get_range block 0 4))
            @ ''), expected XDB3 (0x58444233) or XD2B (0x58443242)''))
        | Some hdr_len \<Rightarrow>
          let blocksize = length block;
              leaf_start =
                (if BLOCK_TAIL_LEN \<le> blocksize then
                   let count = unat (be_u32 block (blocksize - BLOCK_TAIL_LEN));
                       leaf_bytes = usat_mul count LEAF_ENTRY_LEN
                   in blocksize - BLOCK_TAIL_LEN - leaf_bytes
                 else 0);
              region_end = min (max leaf_start hdr_len) blocksize
          in Inr (walk_data_entries block hdr_len region_end has_ft))"

definition read_data_dir_block :: "bytes \<Rightarrow> bool \<Rightarrow> dir_entry list xfs_result" where
  "read_data_dir_block block has_ft =
    (let magic = be_u32 block 0;
         hdr_len = (if magic = XFS_DIR3_DATA_MAGIC then Some DIR3_DATA_HDR_LEN
                    else if magic = XFS_DIR2_DATA_MAGIC then Some DIR2_DATA_HDR_LEN else None)
     in case hdr_len of
          None \<Rightarrow> Inl (UnsupportedDir (''leaf/node directory data block: unrecognized data-block magic ''
            @ hex_u32 magic @ '' (bytes '' @ hex_bytes (unwrap_or [] (get_range block 0 4))
            @ ''), expected XDD3 (0x58444433) or XD2D (0x58443244)''))
        | Some hdr_len \<Rightarrow> Inr (walk_data_entries block hdr_len (length block) has_ft))"

definition verify_dir_block_crc :: "(bytes \<Rightarrow> u32) \<Rightarrow> bytes \<Rightarrow> bool option" where
  "verify_dir_block_crc crcf block =
    (let m = be_u32 block 0 in
     if m = XFS_DIR3_BLOCK_MAGIC \<or> m = XFS_DIR3_DATA_MAGIC then Some (verify_crc crcf block DIR3_DATA_CRC_OFF)
     else if m = XFS_DIR2_BLOCK_MAGIC \<or> m = XFS_DIR2_DATA_MAGIC then None
     else
       let k = be_u16 block 8 in
       if k = XFS_DIR3_LEAF1_MAGIC \<or> k = XFS_DIR3_LEAFN_MAGIC \<or> k = XFS_DA3_NODE_MAGIC
       then Some (verify_crc crcf block DA3_BLKINFO_CRC_OFF) else None)"

section \<open>Listing a directory\<close>

text \<open>The body of the inner loop: what block \<open>b\<close> of an extent contributes.\<close>

definition dir_block_entries :: "superblock \<Rightarrow> bytes \<Rightarrow> bmbt_rec \<Rightarrow> nat \<Rightarrow> dir_entry list" where
  "dir_block_entries sb img r b =
    (let blocksize = unat (sb_blocksize sb);
         fsblock = wsat_add (startblock r) (word_of_nat b)
     in case uchecked_mul (unat fsblock) blocksize of
          None \<Rightarrow> []
        | Some start \<Rightarrow>
          (case get_range img start (usat_add start blocksize) of
             None \<Rightarrow> []
           | Some block \<Rightarrow>
             (case read_data_dir_block block (has_ftype sb) of Inl e \<Rightarrow> [] | Inr es \<Rightarrow> es)))"

definition leaf_boundary_block :: "superblock \<Rightarrow> u64" where
  "leaf_boundary_block sb = XFS_DIR2_LEAF_OFFSET div max (ucast (sb_blocksize sb)) 1"

definition read_multiblock_dir :: "superblock \<Rightarrow> bytes \<Rightarrow> bmbt_rec list \<Rightarrow> dir_entry list" where
  "read_multiblock_dir sb img recs =
     concat (map (\<lambda>r. if leaf_boundary_block sb \<le> startoff r then []
       else concat (map (dir_block_entries sb img r) [0..<unat (blockcount r)])) recs)"

text \<open>\<open>{:?}\<close> of an \<open>InodeFormat\<close>.\<close>

fun format_debug :: "inode_format \<Rightarrow> string" where
  "format_debug Dev = ''Dev''"
| "format_debug Local = ''Local''"
| "format_debug Extents = ''Extents''"
| "format_debug Btree = ''Btree''"
| "format_debug (OtherFormat v) = ''Other('' @ dec_digits (unat v) @ '')''"

definition sb_read_dir :: "superblock \<Rightarrow> bytes \<Rightarrow> inode \<Rightarrow> dir_entry list xfs_result" where
  "sb_read_dir sb img ino =
    (case di_format ino of
       Local \<Rightarrow> Inr (read_shortform_dir (di_data_fork ino) (has_ftype sb))
     | Extents \<Rightarrow>
         let blocksize = ucast (sb_blocksize sb) in
         if di_size ino = blocksize then
           and_then (read_file sb img ino) (\<lambda>block. read_block_dir block (has_ftype sb))
         else
           let recs = read_extents (di_data_fork ino) (di_nextents ino)
           in Inr (read_multiblock_dir sb img recs)
     | Btree \<Rightarrow>
         and_then (read_btree_extents img sb (di_data_fork ino))
           (\<lambda>recs. Inr (read_multiblock_dir sb img recs))
     | other \<Rightarrow> Inl (UnsupportedDir (''directory format '' @ format_debug other
         @ '' not yet supported (dev/other)'')))"

definition read_dir :: "bytes \<Rightarrow> superblock \<Rightarrow> inode \<Rightarrow> dir_entry list xfs_result" where
  "read_dir img sb ino = sb_read_dir sb img ino"

section \<open>Resolving a path\<close>

text \<open>\<open>path.split('/')\<close> on the UTF-8 bytes of the path, and the filter of the empty parts.\<close>

fun split_on :: "u8 \<Rightarrow> bytes \<Rightarrow> bytes list" where
  "split_on c [] = [[]]"
| "split_on c (x # xs) =
    (if x = c then [] # split_on c xs
     else case split_on c xs of [] \<Rightarrow> [[x]] | y # ys \<Rightarrow> (x # y) # ys)"

definition path_components :: "bytes \<Rightarrow> bytes list" where
  "path_components path = filter (\<lambda>c. c \<noteq> []) (split_on 0x2f path)"

text \<open>The loop over the components; \<open>is_last\<close> is the emptiness of the rest.\<close>

fun resolve_loop :: "(bytes \<Rightarrow> u32) \<Rightarrow> bytes \<Rightarrow> superblock \<Rightarrow> bytes \<Rightarrow> inode \<Rightarrow> bytes list \<Rightarrow> bytes xfs_result" where
  "resolve_loop crcf img sb path current [] = Inl (PathNotFound path [])"
| "resolve_loop crcf img sb path current (cmp # rest) =
    and_then (sb_read_dir sb img current) (\<lambda>entries.
      case find (\<lambda>e. de_name e = cmp) entries of
        None \<Rightarrow> Inl (PathNotFound path cmp)
      | Some entry \<Rightarrow>
        and_then (read_inode crcf sb img (de_inode entry)) (\<lambda>next'.
          if rest = [] then read_file sb img next'
          else if \<not> inode_is_dir next' then Inl (PathNotFound path cmp)
          else resolve_loop crcf img sb path next' rest))"

definition read_by_path :: "(bytes \<Rightarrow> u32) \<Rightarrow> bytes \<Rightarrow> superblock \<Rightarrow> bytes \<Rightarrow> bytes xfs_result" where
  "read_by_path crcf img sb path =
    (let components = path_components path
     in and_then (read_inode crcf sb img (sb_rootino sb))
          (\<lambda>current. resolve_loop crcf img sb path current components))"

section \<open>Short-form round trip\<close>

definition sf_step :: "bool \<Rightarrow> nat \<Rightarrow> bytes \<Rightarrow> nat \<Rightarrow> (dir_entry \<times> nat) option" where
  "sf_step has_ft w fork off =
    (let e = off + 3 + unat (u8_at fork off); io = e + (if has_ft then 1 else 0) in
     if io + w \<le> length fork then
       Some (\<lparr>de_name = take (unat (u8_at fork off)) (drop (off + 3) fork),
              de_inode = read_inum (take w (drop io fork)),
              de_ftype = (if has_ft then Some (u8_at fork e) else None)\<rparr>, io + w)
     else None)"

text \<open>An entry as stored: name length, two bytes of offset, name, type byte, inode number.\<close>

definition sf_stored :: "bool \<Rightarrow> nat \<Rightarrow> dir_entry \<Rightarrow> bytes \<Rightarrow> bool" where
  "sf_stored has_ft w e bs \<longleftrightarrow> (w = 4 \<or> w = 8) \<and> length (de_name e) < 256 \<and> unat (de_inode e) < 256 ^ w \<and>
     (has_ft \<longleftrightarrow> de_ftype e \<noteq> None) \<and>
     (\<exists>o1 o2. bs = [word_of_nat (length (de_name e)), o1, o2] @ de_name e @
        (case de_ftype e of None \<Rightarrow> [] | Some t \<Rightarrow> [t]) @ be_bytes w (unat (de_inode e)))"

lemma shortform_loop_step:
  "shortform_loop fork has_ft w off (Suc k) = (case sf_step has_ft w fork off of
     None \<Rightarrow> [] | Some (e, next') \<Rightarrow> e # shortform_loop fork has_ft w next' k)"
  by (auto simp: sf_step_def Let_def get_range_def split: option.splits)

lemma read_inum_stored:
  assumes "w = 4 \<or> w = 8" and "unat v < 256 ^ w"
  shows "read_inum (be_bytes w (unat v)) = v"
proof -
  have "unat (read_inum (be_bytes w (unat v))) = unat v"
    using assms
    by (auto simp: read_inum_def unat_ucast_widen unat_be be_at_def be_nat_be_bytes simp del: be_bytes.simps)
  then show ?thesis by (rule unsigned_word_eqI)
qed

lemma unat_len_byte: "n < 256 \<Longrightarrow> unat (word_of_nat n :: u8) = n"
  by (simp add: unat_of_nat)

lemma sf_step_stored:
  assumes "sf_stored has_ft w e bs"
  shows "sf_step has_ft w (p @ bs @ q) (length p) = Some (e, length p + length bs)"
proof -
  let ?ft = "case de_ftype e of None \<Rightarrow> [] | Some t \<Rightarrow> [t]"
  obtain o1 o2 where bs: "bs = [word_of_nat (length (de_name e)), o1, o2] @ de_name e @ ?ft
      @ be_bytes w (unat (de_inode e))"
    using assms by (auto simp: sf_stored_def)
  have n: "unat (u8_at (p @ bs @ q) (length p)) = length (de_name e)"
    using assms u8_at_shift [of p "bs @ q" 0] by (simp add: bs u8_at_nth unat_len_byte sf_stored_def)
  have i: "read_inum (be_bytes w (unat (de_inode e))) = de_inode e"
    using assms by (intro read_inum_stored) (auto simp: sf_stored_def)
  have ft: "u8_at (p @ bs @ q) (length p + 3 + length (de_name e)) = t" if "de_ftype e = Some t" for t
    using that u8_at_shift [of "p @ [word_of_nat (length (de_name e)), o1, o2] @ de_name e" "[t] @ be_bytes w (unat (de_inode e)) @ q" 0]
    by (simp add: bs u8_at_nth add.assoc)
  have flag: "has_ft \<longleftrightarrow> de_ftype e \<noteq> None" using assms by (simp add: sf_stored_def)
  let ?n = "length (de_name e)" and ?f = "if has_ft then 1 else 0 :: nat"
  have len: "length bs = 3 + ?n + ?f + w"
    using flag by (auto simp: bs split: option.splits)
  have name: "take ?n (drop (length p + 3) (p @ bs @ q)) = de_name e"
    by (simp add: bs)
  have inum: "take w (drop (length p + 3 + ?n + ?f) (p @ bs @ q)) = be_bytes w (unat (de_inode e))"
    using take_drop_mid [of "length p + 3 + ?n + ?f" "p @ [word_of_nat ?n, o1, o2] @ de_name e @ ?ft" w
        "be_bytes w (unat (de_inode e))" q] flag
    by (auto simp: bs simp del: drop_append split: option.splits)
  have "(if has_ft then Some (u8_at (p @ bs @ q) (length p + 3 + ?n)) else None) = de_ftype e"
    using ft flag by auto
  then show ?thesis
    unfolding sf_step_def Let_def n name inum i by (simp add: len)
qed

interpretation sf: packed_walk "sf_step has_ft w" "\<lambda>fork off k. shortform_loop fork has_ft w off k"
  "sf_stored has_ft w" "3 + w" for has_ft w
proof unfold_locales
  fix d e :: bytes and off x
  assume "sf_step has_ft w d off = Some x"
  then show "sf_step has_ft w (d @ e) off = Some x"
    by (auto simp: sf_step_def Let_def u8_at_append split: if_splits)
qed (auto simp: shortform_loop_step sf_step_stored simp del: shortform_loop.simps(2),
     auto simp: sf_step_def Let_def split: if_splits)

section \<open>Data records round trip\<close>

text \<open>
  A record of a data block as stored: an entry (\<open>Some e\<close>), with tag and padding, whose inode number
  does not collide with the free tag; or a free record (\<open>None\<close>) of the length it states.
\<close>

definition ftype_bytes :: "dir_entry \<Rightarrow> bytes" where
  "ftype_bytes e = (case de_ftype e of None \<Rightarrow> [] | Some t \<Rightarrow> [t])"

fun data_stored :: "bool \<Rightarrow> dir_entry option \<Rightarrow> bytes \<Rightarrow> bool" where
  "data_stored has_ft (Some e) bs \<longleftrightarrow> 0 < length (de_name e) \<and> length (de_name e) < 256 \<and>
     (has_ft \<longleftrightarrow> de_ftype e \<noteq> None) \<and> unat (de_inode e) < 0xffff * 2 ^ 48 \<and>
     length bs = align8 (11 + length (de_name e) + (if has_ft then 1 else 0)) \<and>
     (\<exists>rest. bs = be_bytes 8 (unat (de_inode e)) @ [word_of_nat (length (de_name e))] @ de_name e
        @ ftype_bytes e @ rest)"
| "data_stored has_ft None bs \<longleftrightarrow> 8 \<le> length bs \<and> length bs < 2 ^ 16 \<and>
     (\<exists>rest. bs = [0xff, 0xff] @ be_bytes 2 (length bs) @ rest)"

lemma be_u16_high:
  assumes "unat v < 0xffff * 2 ^ 48"
  shows "be_u16 (p @ be_bytes 8 (unat (v :: u64)) @ q) (length p) \<noteq> DATA_FREE_TAG"
proof -
  have d: "unat v div 256 ^ 6 < 0xffff" using assms by (simp add: less_mult_imp_div_less)
  have "be_bytes 8 (unat v) = be_bytes 2 (unat v div 256 ^ 6) @ be_bytes 6 (unat v)"
    using be_bytes_add [of 2 6 "unat v"] by simp
  then have "be_u16 (p @ be_bytes 8 (unat v) @ q) (length p) = word_of_nat (unat v div 256 ^ 6)"
    using be_u16_bytes [of "unat v div 256 ^ 6" "length p" p "be_bytes 6 (unat v) @ q"] d by simp
  moreover have "unat (word_of_nat (unat v div 256 ^ 6) :: u16) \<noteq> 0xffff"
    using d unat_level [of "unat v div 256 ^ 6"] by simp
  ultimately show ?thesis by (auto simp: DATA_FREE_TAG_def)
qed

lemma walk_data_free:
  assumes "data_stored has_ft None bs" and "length p + length bs \<le> end'" and "end' \<le> USIZE_MAX"
  shows "walk_data_entries (p @ bs @ q) (length p) end' has_ft =
    walk_data_entries (p @ bs @ q) (length p + length bs) end' has_ft"
proof -
  obtain rest where bs: "bs = [0xff, 0xff] @ be_bytes 2 (length bs) @ rest" using assms(1) by auto
  have l: "8 \<le> length bs" "length bs < 2 ^ 16" using assms(1) by auto
  have "be_u16 (p @ bs @ q) (length p) = DATA_FREE_TAG"
    using be_shift(1) [of p "bs @ q" 0] by (subst (asm) (2) bs)
      (simp add: DATA_FREE_TAG_def be_u16_def get_range_def be_word_def be_nat_def)
  moreover have "be_u16 (p @ bs @ q) (length p + 2) = word_of_nat (length bs)"
    using be_u16_bytes [OF l(2), of "length p + 2" "p @ [0xff, 0xff]" "rest @ q"]
    by (subst bs) (simp del: be_bytes.simps)
  ultimately show ?thesis
    using l assms(2,3) unat_level [OF l(2)]
    by (subst walk_data_entries.simps) (simp add: Let_def usat_add_exact max_absorb1)
qed

lemma walk_data_used:
  assumes st: "data_stored has_ft (Some e) bs" and "length p + length bs \<le> end'" and "end' \<le> USIZE_MAX"
  shows "walk_data_entries (p @ bs @ q) (length p) end' has_ft =
    e # walk_data_entries (p @ bs @ q) (length p + length bs) end' has_ft"
proof -
  let ?n = "length (de_name e)"
  obtain rest where bs: "bs = be_bytes 8 (unat (de_inode e)) @ [word_of_nat ?n] @ de_name e @ ftype_bytes e @ rest"
    using st by auto
  have n: "0 < ?n" "?n < 256" and flag: "has_ft \<longleftrightarrow> de_ftype e \<noteq> None"
    and len: "length bs = align8 (11 + ?n + (if has_ft then 1 else 0))"
    using st by auto
  have tag: "be_u16 (p @ bs @ q) (length p) \<noteq> DATA_FREE_TAG"
    using be_u16_high [of "de_inode e" p] st by (simp add: bs del: be_bytes.simps)
  have ino: "be_u64 (p @ bs @ q) (length p) = de_inode e"
    using be_read_stored(3) [of "length p" p "de_inode e"] by (simp add: bs del: be_bytes.simps)
  have nl: "unat (u8_at (p @ bs @ q) (length p + 8)) = ?n"
    using u8_at_shift [of "p @ be_bytes 8 (unat (de_inode e))" "[word_of_nat ?n] @ de_name e @ ftype_bytes e @ rest @ q" 0] n
    by (simp add: bs u8_at_nth unat_len_byte del: be_bytes.simps)
  have name: "get_range (p @ bs @ q) (length p + 9) (length p + 9 + ?n) = Some (de_name e)"
    using get_range_mid [of "length p + 9" "p @ be_bytes 8 (unat (de_inode e)) @ [word_of_nat ?n]" "length p + 9 + ?n"
        "de_name e" "ftype_bytes e @ rest @ q"]
    by (simp add: bs del: be_bytes.simps)
  have "u8_at (p @ bs @ q) (length p + 9 + ?n) = t" if "de_ftype e = Some t" for t
    using u8_at_shift [of "p @ be_bytes 8 (unat (de_inode e)) @ [word_of_nat ?n] @ de_name e" "[t] @ rest @ q" 0] that
    by (simp add: bs ftype_bytes_def u8_at_nth add.assoc del: be_bytes.simps)
  then have ft: "(if has_ft then Some (u8_at (p @ bs @ q) (length p + 9 + ?n)) else None) = de_ftype e"
    using flag by auto
  have raw1: "align8 (8 + 1 + ?n + (if has_ft then 1 else 0) + 2) = length bs"
    by (simp add: len add.commute)
  have raw2: "3 \<le> length bs" by (simp add: bs)
  note raw = raw1 raw2
  have "usat_add (length p) (length bs) = length p + length bs"
    using assms(2,3) by (simp add: usat_add_exact)
  then show ?thesis
    using assms(2,3) raw(2) n(1)
    by (subst walk_data_entries.simps)
      (simp only: tag ino nl name ft raw(1) Let_def option.case if_False if_True simp_thms
        neq0_conv [symmetric] add_le_mono1 dir_entry.surjective [symmetric], simp)
qed

lemma walk_data_step:
  assumes "data_stored has_ft r bs" and "length p + length bs \<le> end'" and "end' \<le> USIZE_MAX"
  shows "walk_data_entries (p @ bs @ q) (length p) end' has_ft =
    (case r of None \<Rightarrow> [] | Some e \<Rightarrow> [e]) @ walk_data_entries (p @ bs @ q) (length p + length bs) end' has_ft"
  using assms by (cases r) (simp_all add: walk_data_free walk_data_used del: data_stored.simps)

definition used_entries :: "dir_entry option list \<Rightarrow> dir_entry list" where
  "used_entries rs = concat (map (\<lambda>r. case r of None \<Rightarrow> [] | Some e \<Rightarrow> [e]) rs)"

lemma walk_data_end: "end' < off + 3 \<Longrightarrow> walk_data_entries block off end' has_ft = []"
  by (subst walk_data_entries.simps) simp

lemma walk_data_stored:
  assumes "list_all2 (data_stored has_ft) rs bss" and "length p + length (concat bss) \<le> USIZE_MAX"
  shows "walk_data_entries (p @ concat bss @ q) (length p) (length p + length (concat bss)) has_ft = used_entries rs"
  using assms
proof (induction rs bss arbitrary: p rule: list_all2_induct)
  case Nil
  then show ?case by (simp add: walk_data_end used_entries_def)
next
  case (Cons r rs bs bss)
  let ?e = "length p + length (concat (bs # bss))"
  have "walk_data_entries (p @ bs @ concat bss @ q) (length p) ?e has_ft =
    (case r of None \<Rightarrow> [] | Some e \<Rightarrow> [e]) @ walk_data_entries (p @ bs @ concat bss @ q) (length p + length bs) ?e has_ft"
    using Cons.hyps(1) Cons.prems by (intro walk_data_step) auto
  then show ?case
    using Cons.IH [of "p @ bs"] Cons.prems by (simp add: used_entries_def add.assoc)
qed

lemma sixteen_per_step:
  fixes l e x off :: nat
  assumes "l * 16 \<le> e - x + 13" "off + 16 \<le> x \<or> e \<le> x" "off + 3 \<le> e"
  shows "Suc l * 16 \<le> e - off + 13"
proof (cases "e \<le> x")
  case True
  with assms show ?thesis by (cases l) auto
next
  case False
  with assms show ?thesis by simp
qed

text \<open>
  Whatever the block holds, the records returned lie in \<open>[start..end)\<close> and take at least sixteen bytes
  each; only the last may reach past the end.
\<close>

lemma walk_data_bound: "length (walk_data_entries block off end' has_ft) * 16 \<le> end' - off + 13"
proof (induction block off end' has_ft rule: walk_data_entries.induct)
  case (1 block off end' has_ft)
  show ?case
  proof (cases "off + 3 \<le> end' \<and> end' \<le> USIZE_MAX")
    case True
    show ?thesis
    proof (cases "be_u16 block off = DATA_FREE_TAG")
      case free: True
      have "off \<le> usat_add off (max (unat (be_u16 block (off + 2))) (align8 1))"
        using True by (intro usat_add_ge) simp
      then show ?thesis
        using 1(1) [OF True free refl] True free
        by (subst walk_data_entries.simps) (simp add: Let_def, linarith)
    next
      case False
      let ?w = "u8_at block (off + 8)"
      let ?raw = "8 + 1 + unat ?w + (if has_ft then 1 else 0) + 2"
      show ?thesis
      proof (cases "unat ?w = 0 \<or> get_range block (off + 9) (off + 9 + unat ?w) = None")
        case True
        with False \<open>off + 3 \<le> end' \<and> end' \<le> USIZE_MAX\<close> show ?thesis
          by (subst walk_data_entries.simps) (auto simp: Let_def)
      next
        case go: False
        then obtain name where name: "get_range block (off + 9) (off + 9 + unat ?w) = Some name" by auto
        have "?raw + 7 \<le> USIZE_MAX" using unat_u8 [of ?w] by (simp add: USIZE_MAX_def)
        moreover have "12 \<le> ?raw" using go by (simp add: Suc_le_eq)
        ultimately have a: "16 \<le> align8 ?raw" by (intro align8_ge_16)
        let ?next = "usat_add off (align8 ?raw)"
        let ?es = "walk_data_entries block ?next end' has_ft"
        have adv: "off + 16 \<le> ?next \<or> end' \<le> ?next"
          using a True by (simp add: usat_add_def min_def)
        have ih: "length ?es * 16 \<le> end' - ?next + 13"
          by (rule 1(2) [OF True False refl refl _ refl refl name refl refl refl]) (use go in simp)
        have "walk_data_entries block off end' has_ft =
            \<lparr>de_name = name, de_inode = be_u64 block off,
              de_ftype = if has_ft then Some (u8_at block (off + 9 + unat ?w)) else None\<rparr> # ?es"
          using go by (subst walk_data_entries.simps, subst if_P [OF True], subst if_not_P [OF False])
            (simp only: Let_def name option.case de_Morgan_disj if_False)
        then have "length (walk_data_entries block off end' has_ft) = Suc (length ?es)"
          by (simp only: list.size)
        then show ?thesis using sixteen_per_step [OF ih adv] True by simp
      qed
    qed
  next
    case False
    show ?thesis by (subst walk_data_entries.simps, subst if_not_P [OF False]) simp
  qed
qed

section \<open>Multi-block directories\<close>

text \<open>
  A data block at file-system block \<open>n\<close> of the image: header, v5 or v4, and records that fill the block.
\<close>

definition dir_data_at :: "superblock \<Rightarrow> bytes \<Rightarrow> nat \<Rightarrow> dir_entry option list \<Rightarrow> bool" where
  "dir_data_at sb img n rs \<longleftrightarrow>
    (\<exists>hdr bss. get_range img (n * unat (sb_blocksize sb)) (n * unat (sb_blocksize sb) + unat (sb_blocksize sb))
        = Some (hdr @ concat bss) \<and>
      (be_u32 hdr 0 = XFS_DIR3_DATA_MAGIC \<and> length hdr = 64 \<or> be_u32 hdr 0 = XFS_DIR2_DATA_MAGIC \<and> length hdr = 16) \<and>
      list_all2 (data_stored (has_ftype sb)) rs bss)"

lemma dir_data_atI:
  assumes "get_range img (n * unat (sb_blocksize sb)) (n * unat (sb_blocksize sb) + unat (sb_blocksize sb)) = Some (hdr @ concat bss)"
    and "be_u32 hdr 0 = XFS_DIR3_DATA_MAGIC \<and> length hdr = 64 \<or> be_u32 hdr 0 = XFS_DIR2_DATA_MAGIC \<and> length hdr = 16"
    and "list_all2 (data_stored (has_ftype sb)) rs bss"
  shows "dir_data_at sb img n rs"
  using assms unfolding dir_data_at_def by blast

text \<open>The data blocks are those that begin below 32 GiB of the directory's address space; above is the index.\<close>

definition dir_data_blocks :: "superblock \<Rightarrow> bmbt_rec list \<Rightarrow> nat list" where
  "dir_data_blocks sb recs =
    concat (map (\<lambda>r. [unat (startblock r)..<unat (startblock r) + unat (blockcount r)])
      (filter (\<lambda>r. (unat (startoff r) + 1) * unat (sb_blocksize sb) \<le> 2 ^ 35) recs))"

lemma below_leaf_boundary:
  assumes "0 < unat (sb_blocksize sb)"
  shows "startoff r < leaf_boundary_block sb \<longleftrightarrow> (unat (startoff r) + 1) * unat (sb_blocksize sb) \<le> 2 ^ 35"
proof -
  have "max (ucast (sb_blocksize sb)) 1 = (ucast (sb_blocksize sb) :: u64)"
    using assms by (intro max_absorb1) (simp add: word_le_nat_alt unat_ucast_widen Suc_le_eq)
  then have "unat (leaf_boundary_block sb) = 2 ^ 35 div unat (sb_blocksize sb)"
    by (simp add: leaf_boundary_block_def XFS_DIR2_LEAF_OFFSET_def unat_div unat_ucast_widen)
  then show ?thesis
    using assms by (simp add: word_less_nat_alt Suc_le_eq [symmetric] less_eq_div_iff_mult_less_eq)
qed

lemma dir_data_blocks_boundary:
  assumes "0 < unat (sb_blocksize sb)"
  shows "dir_data_blocks sb recs =
    concat (map (\<lambda>r. [unat (startblock r)..<unat (startblock r) + unat (blockcount r)])
      (filter (\<lambda>r. startoff r < leaf_boundary_block sb) recs))"
  by (simp only: dir_data_blocks_def below_leaf_boundary [OF assms])

lemma read_data_dir_block_stored:
  assumes "list_all2 (data_stored has_ft) rs bss"
    and "be_u32 hdr 0 = XFS_DIR3_DATA_MAGIC \<and> length hdr = 64 \<or> be_u32 hdr 0 = XFS_DIR2_DATA_MAGIC \<and> length hdr = 16"
    and "length (hdr @ concat bss) \<le> USIZE_MAX"
  shows "read_data_dir_block (hdr @ concat bss) has_ft = Inr (used_entries rs)"
proof -
  have magic: "be_u32 (hdr @ concat bss) 0 = be_u32 hdr 0" using assms(2) by (intro be_append(2)) auto
  have "walk_data_entries (hdr @ concat bss) (length hdr) (length (hdr @ concat bss)) has_ft = used_entries rs"
    using walk_data_stored [OF assms(1), of hdr "[]"] assms(3) by simp
  moreover have "XFS_DIR2_DATA_MAGIC \<noteq> XFS_DIR3_DATA_MAGIC" by (simp add: dir_magic_defs)
  ultimately show ?thesis
    using assms(2) unfolding read_data_dir_block_def Let_def magic
    by (auto simp: dir_len_defs simp del: length_append)
qed

lemma dir_block_entries_stored:
  assumes "dir_data_at sb img (unat (startblock r) + b) rs" and "rec_ok r" and "b < unat (blockcount r)"
    and "length img < USIZE_MAX"
  shows "dir_block_entries sb img r b = used_entries rs"
proof -
  let ?n = "unat (startblock r) + b" and ?bs = "unat (sb_blocksize sb)"
  obtain hdr bss where blk: "get_range img (?n * ?bs) (?n * ?bs + ?bs) = Some (hdr @ concat bss)"
    and st: "be_u32 hdr 0 = XFS_DIR3_DATA_MAGIC \<and> length hdr = 64 \<or> be_u32 hdr 0 = XFS_DIR2_DATA_MAGIC \<and> length hdr = 16"
      "list_all2 (data_stored (has_ftype sb)) rs bss"
    using assms(1) by (auto simp: dir_data_at_def)
  have le: "?n * ?bs + ?bs \<le> length img" using blk by (simp add: get_range_Some_iff)
  have len: "length (hdr @ concat bss) = ?bs" using get_range_length [OF blk] by simp
  have "unat (startblock r) < 2 ^ 52" "b < 2 ^ 21" using assms(2,3) by (auto simp: rec_ok_def)
  then have "unat (wsat_add (startblock r) (word_of_nat b)) = ?n"
    by (simp add: unat_wsat_add unat_of_nat)
  moreover have "uchecked_mul ?n ?bs = Some (?n * ?bs)" "usat_add (?n * ?bs) ?bs = ?n * ?bs + ?bs"
    using le assms(4) by (simp_all add: uchecked_mul_def usat_add_def)
  moreover have "read_data_dir_block (hdr @ concat bss) (has_ftype sb) = Inr (used_entries rs)"
    using read_data_dir_block_stored [OF st(2,1)] len le assms(4) by simp
  ultimately show ?thesis by (simp add: dir_block_entries_def Let_def blk)
qed

lemma read_multiblock_dir_stored:
  assumes "list_all rec_ok recs" and "length img < USIZE_MAX"
    and "\<forall>n \<in> set (dir_data_blocks sb recs). dir_data_at sb img n (content n)" and "0 < unat (sb_blocksize sb)"
  shows "read_multiblock_dir sb img recs = concat (map (\<lambda>n. used_entries (content n)) (dir_data_blocks sb recs))"
  using assms(1,3)
proof (induction recs)
  case (Cons r recs)
  have "concat (map (dir_block_entries sb img r) [0..<unat (blockcount r)]) =
      concat (map (\<lambda>n. used_entries (content n)) [unat (startblock r)..<unat (startblock r) + unat (blockcount r)])"
    if "startoff r < leaf_boundary_block sb"
  proof -
    have "dir_block_entries sb img r b = used_entries (content (unat (startblock r) + b))"
      if "b < unat (blockcount r)" for b
      using that Cons.prems \<open>startoff r < leaf_boundary_block sb\<close> assms(2)
      by (intro dir_block_entries_stored) (auto simp: dir_data_blocks_boundary [OF assms(4)])
    then have "map (dir_block_entries sb img r) [0..<unat (blockcount r)] =
        map (\<lambda>n. used_entries (content n)) [unat (startblock r)..<unat (startblock r) + unat (blockcount r)]"
      by (intro nth_equalityI) simp_all
    then show ?thesis by simp
  qed
  moreover have "read_multiblock_dir sb img recs = concat (map (\<lambda>n. used_entries (content n)) (dir_data_blocks sb recs))"
    using Cons by (auto simp: dir_data_blocks_boundary [OF assms(4)])
  ultimately show ?case
    by (auto simp: read_multiblock_dir_def dir_data_blocks_boundary [OF assms(4)] not_le)
qed (simp add: read_multiblock_dir_def dir_data_blocks_def)

section \<open>Listing: outcomes\<close>

lemma read_data_dir_block_length: "read_data_dir_block block has_ft = Inr es \<Longrightarrow> length es * 16 \<le> length block"
proof -
  have "length (walk_data_entries block k (length block) has_ft) * 16 \<le> length block" if "13 \<le> k" for k
    using walk_data_bound [of block k "length block" has_ft] that
    by (cases "k \<le> length block"; cases "walk_data_entries block k (length block) has_ft") auto
  then show "read_data_dir_block block has_ft = Inr es \<Longrightarrow> length es * 16 \<le> length block"
    by (auto simp: read_data_dir_block_def Let_def dir_len_defs split: if_splits)
qed

text \<open>The specification of path resolution: which inode a list of names leads to.\<close>

inductive resolves :: "(bytes \<Rightarrow> u32) \<Rightarrow> bytes \<Rightarrow> superblock \<Rightarrow> inode \<Rightarrow> bytes list \<Rightarrow> inode \<Rightarrow> bool"
  for crcf img sb where
  resolves_here: "resolves crcf img sb d [] d"
| resolves_down: "resolves crcf img sb d (c # cs) i"
    if "sb_read_dir sb img d = Inr es" and "find (\<lambda>e. de_name e = c) es = Some e"
      and "read_inode crcf sb img (de_inode e) = Inr n" and "cs = [] \<or> inode_is_dir n"
      and "resolves crcf img sb n cs i"

inductive_cases resolves_NilE: "resolves crcf img sb d [] i"
inductive_cases resolves_ConsE: "resolves crcf img sb d (c # cs) i"
inductive_simps resolves_Nil [simp]: "resolves crcf img sb d [] i"

lemma resolves_fun: "resolves crcf img sb d cs i \<Longrightarrow> resolves crcf img sb d cs j \<Longrightarrow> i = j"
proof (induction rule: resolves.induct)
  case (resolves_down d es c e n cs i)
  from resolves_down.prems resolves_down.hyps resolves_down.IH show ?case
    by (auto elim: resolves_ConsE)
qed simp

lemma resolve_loop_iff:
  assumes "cs \<noteq> []"
  shows "resolve_loop crcf img sb path d cs = Inr data \<longleftrightarrow>
    (\<exists>i. resolves crcf img sb d cs i \<and> read_file sb img i = Inr data)"
  using assms
proof (induction cs arbitrary: d)
  case (Cons c cs)
  show ?case
  proof
    assume "resolve_loop crcf img sb path d (c # cs) = Inr data"
    then obtain es e n where *: "sb_read_dir sb img d = Inr es" "find (\<lambda>e. de_name e = c) es = Some e"
      "read_inode crcf sb img (de_inode e) = Inr n" "cs = [] \<or> inode_is_dir n"
      "if cs = [] then read_file sb img n = Inr data else resolve_loop crcf img sb path n cs = Inr data"
      by (auto simp: and_then_Inr_iff split: option.splits if_splits)
    then have "\<exists>i. resolves crcf img sb n cs i \<and> read_file sb img i = Inr data"
      using Cons.IH by (cases "cs = []") auto
    with * show "\<exists>i. resolves crcf img sb d (c # cs) i \<and> read_file sb img i = Inr data"
      by (blast intro: resolves_down)
  next
    assume "\<exists>i. resolves crcf img sb d (c # cs) i \<and> read_file sb img i = Inr data"
    then show "resolve_loop crcf img sb path d (c # cs) = Inr data"
      using Cons.IH by (cases "cs = []") (auto elim!: resolves_ConsE)
  qed
qed simp

text \<open>
  A failed lookup names the first component that does not resolve: after the components before it, the
  inode reached lists no such name, or the name leads to no directory while more components follow.
\<close>

definition stops_at :: "(bytes \<Rightarrow> u32) \<Rightarrow> bytes \<Rightarrow> superblock \<Rightarrow> inode \<Rightarrow> bytes \<Rightarrow> bytes list \<Rightarrow> bool" where
  "stops_at crcf img sb d c post \<longleftrightarrow> (\<exists>es. sb_read_dir sb img d = Inr es \<and>
     (find (\<lambda>e. de_name e = c) es = None \<or>
      (\<exists>e n. find (\<lambda>e. de_name e = c) es = Some e \<and> read_inode crcf sb img (de_inode e) = Inr n \<and>
         post \<noteq> [] \<and> \<not> inode_is_dir n)))"

lemma no_path_errors:
  "sb_read_dir sb img i \<noteq> Inl (PathNotFound p c)" "read_inode crcf sb img ino \<noteq> Inl (PathNotFound p c)"
  "read_file sb img i \<noteq> Inl (PathNotFound p c)"
  by (auto simp: sb_read_dir_def read_inode_def inode_parse_def read_file_def read_file_from_fork_def Let_def
      assemble_extents_def size_error_def read_btree_extents_def walk_btree_def and_then_Inl_iff read_block_dir_def
      split: inode_format.splits if_splits option.splits)

lemma resolve_loop_not_found:
  assumes "cs \<noteq> []"
  shows "resolve_loop crcf img sb path d cs = Inl (PathNotFound p c) \<longleftrightarrow> p = path \<and>
    (\<exists>pre post i. cs = pre @ c # post \<and> resolves crcf img sb d pre i \<and> (pre = [] \<or> inode_is_dir i) \<and>
       stops_at crcf img sb i c post)"
  using assms
proof (induction cs arbitrary: d)
  case (Cons k cs)
  let ?stop = "\<lambda>d cs. \<exists>pre post i. cs = pre @ c # post \<and> resolves crcf img sb d pre i \<and> (pre = [] \<or> inode_is_dir i) \<and>
     stops_at crcf img sb i c post"
  have split: "?stop d (k # cs) \<longleftrightarrow> k = c \<and> stops_at crcf img sb d c cs \<or>
    (\<exists>es e n. sb_read_dir sb img d = Inr es \<and> find (\<lambda>e. de_name e = k) es = Some e \<and>
       read_inode crcf sb img (de_inode e) = Inr n \<and> inode_is_dir n \<and> ?stop n cs)" (is "?l \<longleftrightarrow> ?r")
  proof
    assume ?l
    then obtain pre post i where *: "k # cs = pre @ c # post" "resolves crcf img sb d pre i"
      "pre = [] \<or> inode_is_dir i" "stops_at crcf img sb i c post" by blast
    show ?r
    proof (cases pre)
      case Nil
      with * show ?thesis by simp
    next
      case (Cons a pre')
      with *(1,2) obtain es e n where "sb_read_dir sb img d = Inr es" "find (\<lambda>e. de_name e = k) es = Some e"
        "read_inode crcf sb img (de_inode e) = Inr n" "pre' = [] \<or> inode_is_dir n" "resolves crcf img sb n pre' i"
        by (auto elim: resolves_ConsE)
      with * Cons show ?thesis by fastforce
    qed
  next
    assume ?r
    then consider (here) "k = c" "stops_at crcf img sb d c cs"
      | (down) es e n pre post i where "sb_read_dir sb img d = Inr es" "find (\<lambda>e. de_name e = k) es = Some e"
        "read_inode crcf sb img (de_inode e) = Inr n" "inode_is_dir n" "cs = pre @ c # post"
        "resolves crcf img sb n pre i" "pre = [] \<or> inode_is_dir i" "stops_at crcf img sb i c post"
      by blast
    then show ?l
    proof cases
      case here
      then show ?thesis by - (rule exI [of _ "[]"], simp)
    next
      case down
      then have "resolves crcf img sb d (k # pre) i" "inode_is_dir i" by (auto intro: resolves_down)
      with down(5,8) show ?thesis by - (rule exI [of _ "k # pre"], simp, blast)
    qed
  qed
  show ?case
  proof (cases "cs = []")
    case True
    then show ?thesis
      unfolding split by (auto simp: and_then_Inl_iff no_path_errors stops_at_def split: option.splits)
  next
    case False
    define F where "F n \<longleftrightarrow> ?stop n cs" for n
    have IH: "resolve_loop crcf img sb path n cs = Inl (PathNotFound p c) \<longleftrightarrow> p = path \<and> F n" for n
      unfolding F_def by (rule Cons.IH [OF False])
    show ?thesis
    proof (cases "sb_read_dir sb img d")
      case (Inl e)
      then show ?thesis
        using no_path_errors(1) [of sb img d p c] unfolding split F_def [symmetric] by (auto simp: stops_at_def)
    next
      case (Inr es)
      show ?thesis
      proof (cases "find (\<lambda>e. de_name e = k) es")
        case None
        then show ?thesis using Inr unfolding split F_def [symmetric] by (auto simp: stops_at_def)
      next
        case (Some e)
        note found = Inr this
        show ?thesis
        proof (cases "read_inode crcf sb img (de_inode e)")
          case (Inl err)
          then show ?thesis
            using found no_path_errors(2) [of crcf sb img "de_inode e" p c]
            unfolding split F_def [symmetric] by (auto simp: stops_at_def)
        next
          case (Inr n)
          have "resolve_loop crcf img sb path d (k # cs) =
              (if inode_is_dir n then resolve_loop crcf img sb path n cs else Inl (PathNotFound path k))"
            using found Inr False by simp
          moreover have "stops_at crcf img sb d c cs \<longleftrightarrow> \<not> inode_is_dir n" if "k = c"
            using found Inr False that by (simp add: stops_at_def)
          moreover have "(\<exists>es e n. sb_read_dir sb img d = Inr es \<and> find (\<lambda>e. de_name e = k) es = Some e \<and>
              read_inode crcf sb img (de_inode e) = Inr n \<and> inode_is_dir n \<and> F n) \<longleftrightarrow> inode_is_dir n \<and> F n"
            using found Inr by simp
          ultimately show ?thesis
            unfolding split F_def [symmetric] by (cases "inode_is_dir n") (simp_all only: IH if_True if_False, auto)
        qed
      qed
    qed
  qed
qed simp

section \<open>Paths\<close>

lemma split_on_append: "split_on c (xs @ c # ys) = split_on c xs @ split_on c ys"
proof (induction xs)
  case (Cons x xs)
  have "split_on c xs \<noteq> []" for xs by (cases xs) (auto split: list.splits)
  with Cons show ?case by (auto split: list.splits)
qed simp

lemma split_on_name: "c \<notin> set n \<Longrightarrow> split_on c n = [n]"
  by (induction n) auto

lemma path_components_join:
  "path_components (a @ 0x2f # b) = path_components a @ path_components b"
  by (simp add: path_components_def split_on_append)

lemma path_components_name: "0x2f \<notin> set n \<Longrightarrow> n \<noteq> [] \<Longrightarrow> path_components n = [n]"
  by (simp add: path_components_def split_on_name)

lemma path_components_Nil [simp]: "path_components [] = []"
  by (simp add: path_components_def)

section \<open>Properties\<close>

lemma shortform_dir_read:
  assumes "list_all2 (sf_stored has_ft w) es bss" and "length es < 256" and "length parent = w"
    and "w = (if i8count = 0 then 4 else 8)"
  shows "read_shortform_dir ([word_of_nat (length es), i8count] @ parent @ concat bss @ rest) has_ft = es"
proof -
  let ?h = "[word_of_nat (length es), i8count] @ parent"
  have "length ?h = 2 + w" using assms(3) by simp
  then have "shortform_loop (?h @ concat bss @ rest) has_ft w (2 + w) (length es) = es"
    using sf.walk_stored [OF assms(1), of ?h rest] by simp
  moreover have "u8_at (?h @ concat bss @ rest) 0 = word_of_nat (length es)" "u8_at (?h @ concat bss @ rest) 1 = i8count"
    by (simp_all add: u8_at_nth)
  ultimately show ?thesis
    using assms(4) unat_len_byte [OF assms(2)] by (simp add: read_shortform_dir_def Let_def)
qed

text \<open>
  C24: A stored short-form directory is listed exactly: names, inode numbers of either width and type
  bytes come back in order, whatever follows the entries in the inode.
\<close>

theorem shortform_dir_roundtrip:
  assumes "list_all2 (sf_stored has_ft w) es bss" and "length es < 256" and "length parent = w"
    and "w = (if i8count = 0 then 4 else 8)"
  shows "read_shortform_dir ([word_of_nat (length es), i8count] @ parent @ concat bss @ rest) has_ft = es"
  by (rule shortform_dir_read [OF assms])

theorem shortform_dir_roundtrip_witness:
  "read_shortform_dir ([word_of_nat 1, 0] @ [0, 0, 0, 128] @ concat [[1, 0, 0x60, 0x61, 2, 0, 0, 0, 131]] @ [9, 9]) True
    = [\<lparr>de_name = [0x61], de_inode = 131, de_ftype = Some 2\<rparr>]"
  using shortform_dir_roundtrip [of True 4 "[\<lparr>de_name = [0x61], de_inode = 131, de_ftype = Some 2\<rparr>]"
      "[[1, 0, 0x60, 0x61, 2, 0, 0, 0, 131]]" "[0, 0, 0, 128]" 0 "[9, 9]"]
  by (simp add: sf_stored_def be_bytes_numeral)

lemma block_dir_read:
  assumes "list_all2 (data_stored has_ft) rs bss"
    and "be_u32 hdr 0 = XFS_DIR3_BLOCK_MAGIC \<and> length hdr = 64 \<or> be_u32 hdr 0 = XFS_DIR2_BLOCK_MAGIC \<and> length hdr = 16"
    and "length leaf_array = 8 * count" and "count < 2 ^ 32" and "length stale = 4"
    and "length (hdr @ concat bss @ leaf_array @ be_bytes 4 count @ stale) \<le> USIZE_MAX"
  shows "read_block_dir (hdr @ concat bss @ leaf_array @ be_bytes 4 count @ stale) has_ft = Inr (used_entries rs)"
proof -
  let ?b = "hdr @ concat bss @ leaf_array @ be_bytes 4 count @ stale"
  let ?n = "length hdr + length (concat bss)"
  have len: "length ?b = ?n + 8 * count + 8" using assms(3,5) by simp
  have magic: "be_u32 ?b 0 = be_u32 hdr 0" using assms(2) by (intro be_append(2)) auto
  have "unat (word_of_nat count :: u32) = count" using assms(4) by (simp add: unat_of_nat)
  then have cnt: "unat (be_u32 ?b (?n + 8 * count)) = count"
    using be_read_stored(2) [of "?n + 8 * count" "hdr @ concat bss @ leaf_array" "word_of_nat count" stale] assms(3)
    by simp
  have l8: "length ?b - 8 = ?n + 8 * count" unfolding len by simp
  have m: "usat_mul count 8 = 8 * count"
    using assms(6) unfolding len by (simp add: usat_mul_exact)
  have end': "min (max (length ?b - 8 - usat_mul (unat (be_u32 ?b (length ?b - 8))) 8) (length hdr)) (length ?b) = ?n"
    unfolding l8 cnt m unfolding len by simp
  have "walk_data_entries ?b (length hdr) ?n has_ft = used_entries rs"
    using walk_data_stored [OF assms(1), of hdr "leaf_array @ be_bytes 4 count @ stale"] assms(6) by simp
  moreover have "XFS_DIR2_BLOCK_MAGIC \<noteq> XFS_DIR3_BLOCK_MAGIC" by (simp add: dir_magic_defs)
  moreover have "8 \<le> length ?b" unfolding len by simp
  ultimately show ?thesis
    using assms(2) end' unfolding read_block_dir_def Let_def magic
    by (auto simp: dir_len_defs simp del: length_append)
qed

text \<open>
  C22: A stored single-block directory, v5 or v4, is listed exactly: the entries of its data records in
  order, the free records between them skipped, and the leaf array and tail never misread as entries.
\<close>

theorem block_dir_roundtrip:
  assumes "list_all2 (data_stored has_ft) rs bss"
    and "be_u32 hdr 0 = XFS_DIR3_BLOCK_MAGIC \<and> length hdr = 64 \<or> be_u32 hdr 0 = XFS_DIR2_BLOCK_MAGIC \<and> length hdr = 16"
    and "length leaf_array = 8 * count" and "count < 2 ^ 32" and "length stale = 4"
    and "length (hdr @ concat bss @ leaf_array @ be_bytes 4 count @ stale) \<le> USIZE_MAX"
  shows "read_block_dir (hdr @ concat bss @ leaf_array @ be_bytes 4 count @ stale) has_ft = Inr (used_entries rs)"
  by (rule block_dir_read [OF assms])

theorem block_dir_roundtrip_witness:
  "read_block_dir (([0x58, 0x44, 0x32, 0x42] @ replicate 12 0) @
      concat [[0, 0, 0, 0, 0, 0, 0, 131, 1, 0x61, 0, 0, 0, 0, 0, 0], [0xff, 0xff] @ be_bytes 2 8 @ [0, 0, 0, 0]]
      @ [0, 0, 0, 0, 0, 0, 0, 0] @ be_bytes 4 1 @ [0, 0, 0, 0]) False
    = Inr (used_entries [Some \<lparr>de_name = [0x61], de_inode = 131, de_ftype = None\<rparr>, None])"
  by (rule block_dir_roundtrip)
    (simp_all add: align8_def usat_add_def USIZE_MAX_def ftype_bytes_def be_bytes_numeral be_u32_def be_word_def
      be_nat_def get_range_def XFS_DIR2_BLOCK_MAGIC_def)

lemma dir_block_entries_length:
  "length (dir_block_entries sb img r b) * 16 \<le> unat (sb_blocksize sb)"
proof (cases "uchecked_mul (unat (wsat_add (startblock r) (word_of_nat b))) (unat (sb_blocksize sb))")
  case (Some start)
  have "length blk \<le> unat (sb_blocksize sb)"
    if "get_range img start (usat_add start (unat (sb_blocksize sb))) = Some blk" for blk
    using that usat_add_le_sum [of start "unat (sb_blocksize sb)"] by (auto dest!: get_range_length)
  then show ?thesis
    using Some read_data_dir_block_length
    by (fastforce simp: dir_block_entries_def Let_def split: option.splits sum.splits intro: order_trans)
qed (simp add: dir_block_entries_def Let_def)

text \<open>
  C23: A stored multi-block directory is listed exactly, whether its extents are packed in the inode or in
  a B+tree: the entries of its data blocks, extent by extent and block by block, v5 or v4, the free records
  skipped; extents at or above 32 GiB of the directory, which hold the index, contribute nothing.
\<close>

theorem multiblock_dir_roundtrip:
  assumes "extents_stored sb img (di_format ino = Extents) (unat (di_nextents ino)) (di_data_fork ino) recs"
    and "di_format ino = Extents \<and> di_size ino \<noteq> ucast (sb_blocksize sb) \<or> di_format ino = Btree"
    and "\<forall>n \<in> set (dir_data_blocks sb recs). dir_data_at sb img n (content n)"
    and "length img < USIZE_MAX" and "0 < unat (sb_blocksize sb)"
  shows "read_dir img sb ino = Inr (concat (map (\<lambda>n. used_entries (content n)) (dir_data_blocks sb recs)))"
proof -
  have "list_all rec_ok recs" using assms(1) by (simp add: extents_stored_def)
  then show ?thesis
    using read_multiblock_dir_stored [OF _ assms(4,3,5)] extents_stored_read [OF assms(1)] assms(2)
    by (auto simp: read_dir_def sb_read_dir_def)
qed

text \<open>
  A directory of two data blocks, and an index block in the image that could be taken for a third.
\<close>

definition multi_sb :: superblock where
  "multi_sb = two_slots\<lparr>sb_blocksize := 32\<rparr>"

definition multi_block :: "u8 \<Rightarrow> bytes" where
  "multi_block c = ([0x58, 0x44, 0x32, 0x44] @ replicate 12 0) @ concat [[0, 0, 0, 0, 0, 0, 0, 131, 1, c, 0, 0, 0, 0, 0, 0]]"

definition multi_entry :: "u8 \<Rightarrow> dir_entry" where
  "multi_entry c = \<lparr>de_name = [c], de_inode = 131, de_ftype = None\<rparr>"

definition multi_image :: bytes where
  "multi_image = multi_block 0x61 @ multi_block 0x62 @ multi_block 0x63"

definition multi_recs :: "bmbt_rec list" where
  "multi_recs = map (\<lambda>(l, b). \<lparr>startoff = l, startblock = b, blockcount = 1, unwritten = False\<rparr>) [(0, 1), (1, 0), (2 ^ 30, 2)]"

lemma length_multi_block [simp]: "length (multi_block c) = 32"
  by (simp add: multi_block_def)

lemma multi_data_at:
  assumes "get_range multi_image (n * 32) (n * 32 + 32) = Some (multi_block c)"
  shows "dir_data_at multi_sb multi_image n [Some (multi_entry c)]"
proof -
  let ?hdr = "[0x58, 0x44, 0x32, 0x44] @ replicate 12 0 :: bytes"
  let ?rec = "[0, 0, 0, 0, 0, 0, 0, 131, 1, c, 0, 0, 0, 0, 0, 0] :: bytes"
  have "\<not> has_ftype multi_sb"
    by (simp add: has_ftype_def sb_is_v5_def sb_version_def two_slots_def multi_sb_def)
  then have l: "list_all2 (data_stored (has_ftype multi_sb)) [Some (multi_entry c)] [?rec]"
    by (simp add: multi_entry_def align8_def usat_add_def USIZE_MAX_def ftype_bytes_def be_bytes_numeral)
  have h: "be_u32 ?hdr 0 = XFS_DIR2_DATA_MAGIC"
    by (simp add: be_u32_def be_word_def be_nat_def XFS_DIR2_DATA_MAGIC_def get_range_def)
  show ?thesis
    by (intro dir_data_atI [OF _ _ l, where hdr = ?hdr]) (use assms h in \<open>simp_all add: multi_sb_def multi_block_def\<close>)
qed

theorem multiblock_dir_roundtrip_witness:
  "read_dir multi_image multi_sb (undefined\<lparr>di_format := Extents, di_size := 64, di_nextents := 3,
      di_data_fork := concat (map pack multi_recs) @ [0, 0]\<rparr>) = Inr [multi_entry 0x62, multi_entry 0x61]"
proof -
  have blocks: "dir_data_blocks multi_sb multi_recs = [1, 0]"
    by (simp add: dir_data_blocks_def multi_recs_def multi_sb_def two_slots_def upt_rec)
  have at: "dir_data_at multi_sb multi_image 0 [Some (multi_entry 0x61)]" "dir_data_at multi_sb multi_image 1 [Some (multi_entry 0x62)]"
    by (rule multi_data_at; simp add: multi_image_def get_range_def)+
  have all: "\<forall>n \<in> set (dir_data_blocks multi_sb multi_recs).
      dir_data_at multi_sb multi_image n ([[Some (multi_entry 0x61)], [Some (multi_entry 0x62)]] ! n)"
    unfolding blocks using at by simp
  have st: "extents_stored multi_sb multi_image True 3 (concat (map pack multi_recs) @ [0, 0]) multi_recs"
    by (simp add: extents_stored_def) (simp add: multi_recs_def rec_ok_def)
  have "length multi_image < USIZE_MAX" "unat (sb_blocksize multi_sb) = 32" "sb_blocksize multi_sb = 32"
    by (simp_all add: multi_image_def USIZE_MAX_def multi_sb_def)
  then show ?thesis
    using multiblock_dir_roundtrip [OF _ _ all, of "undefined\<lparr>di_format := Extents, di_size := 64, di_nextents := 3,
      di_data_fork := concat (map pack multi_recs) @ [0, 0]\<rparr>"] st
    by (simp add: blocks used_entries_def)
qed

text \<open>
  Every entry of a multi-block listing comes from a data block of an extent below the leaf
  boundary, and no extent map, however hostile, yields more than one entry per sixteen bytes of the
  blocks it names.
\<close>

lemma multiblock_dir_bounded:
  "set (read_multiblock_dir sb img recs) =
     (\<Union>r \<in> {r \<in> set recs. startoff r < leaf_boundary_block sb}. \<Union>b < unat (blockcount r).
        set (dir_block_entries sb img r b)) \<and>
   length (read_multiblock_dir sb img recs) * 16 \<le> sum_list (map (\<lambda>r. unat (blockcount r)) recs) * unat (sb_blocksize sb)"
proof
  show "set (read_multiblock_dir sb img recs) =
     (\<Union>r \<in> {r \<in> set recs. startoff r < leaf_boundary_block sb}. \<Union>b < unat (blockcount r).
        set (dir_block_entries sb img r b))"
    by (auto simp: read_multiblock_dir_def not_le atLeast0LessThan split: if_splits)
  have one: "length (concat (map (dir_block_entries sb img r) [0..<n])) * 16 \<le> n * unat (sb_blocksize sb)" for r n
  proof (induction n)
    case (Suc n)
    then show ?case using dir_block_entries_length [of sb img r n] by simp
  qed simp
  show "length (read_multiblock_dir sb img recs) * 16 \<le> sum_list (map (\<lambda>r. unat (blockcount r)) recs) * unat (sb_blocksize sb)"
  proof (induction recs)
    case (Cons r recs)
    then show ?case
      using one [of r "unat (blockcount r)"] by (simp add: read_multiblock_dir_def add_mult_distrib)
  qed (simp add: read_multiblock_dir_def)
qed

lemma read_dir_error_cases:
  assumes "length img < USIZE_MAX" and "read_dir img sb ino = Inl err"
  shows "(\<exists>detail. err = UnsupportedDir detail \<and> (di_format ino = Dev \<or> (\<exists>v. di_format ino = OtherFormat v))) \<or>
    di_format ino = Extents \<and> di_size ino = ucast (sb_blocksize sb) \<and>
      (err = size_error (unat (di_size ino)) (length img) \<and> length img < unat (di_size ino) \<or>
       (\<exists>block detail. read_file sb img ino = Inr block \<and> err = UnsupportedDir detail \<and>
          be_u32 block 0 \<notin> {XFS_DIR3_BLOCK_MAGIC, XFS_DIR2_BLOCK_MAGIC}))"
proof (cases "di_format ino")
  case Btree
  obtain recs b where "read_btree_extents img sb (di_data_fork ino) = Inr recs"
    by (rule read_btree_extents_Inr)
  with Btree assms(2) show ?thesis by (simp add: read_dir_def sb_read_dir_def)
next
  case Extents
  have "read_file sb img ino = Inl e \<Longrightarrow> e = size_error (unat (di_size ino)) (length img) \<and> length img < unat (di_size ino)" for e
    using Extents by (auto simp: read_file_def read_file_from_fork_def Let_def assemble_extents_def split: if_splits)
  moreover have "read_block_dir block f = Inl err \<Longrightarrow> (\<exists>detail. err = UnsupportedDir detail) \<and>
      be_u32 block 0 \<notin> {XFS_DIR3_BLOCK_MAGIC, XFS_DIR2_BLOCK_MAGIC}" for block f
    by (auto simp: read_block_dir_def Let_def split: if_splits)
  ultimately show ?thesis
    using Extents assms(2) by (fastforce simp: read_dir_def sb_read_dir_def Let_def and_then_Inl_iff split: if_splits)
qed (use assms(2) in \<open>auto simp: read_dir_def sb_read_dir_def\<close>)

lemma be_zeros: "be_u32 (replicate n 0) 0 = 0"
  by (cases "4 \<le> n") (simp_all add: be_u32_def be_word_def get_range_def be_nat_zeros)

text \<open>
  C36: Listing a directory fails in three ways only: the format is none of the directory formats, the
  one block of a single-block directory has a foreign magic, or the size of that block exceeds the image.
  A block that lies outside an image of at least its size is not reported as such: it reads as zeros, and
  the listing fails over their magic.
\<close>

theorem read_dir_errors:
  assumes "length img < USIZE_MAX"
  shows "(\<forall>err. read_dir img sb ino = Inl err \<longrightarrow>
      (\<exists>detail. err = UnsupportedDir detail \<and> (di_format ino = Dev \<or> (\<exists>v. di_format ino = OtherFormat v))) \<or>
      di_format ino = Extents \<and> di_size ino = ucast (sb_blocksize sb) \<and>
        (err = size_error (unat (di_size ino)) (length img) \<and> length img < unat (di_size ino) \<or>
         (\<exists>block detail. read_file sb img ino = Inr block \<and> err = UnsupportedDir detail \<and>
            be_u32 block 0 \<notin> {XFS_DIR3_BLOCK_MAGIC, XFS_DIR2_BLOCK_MAGIC}))) \<and>
    (di_format ino = Extents \<longrightarrow> di_size ino = ucast (sb_blocksize sb) \<longrightarrow> unat (di_size ino) \<le> length img \<longrightarrow>
      (\<forall>r \<in> set (read_extents (di_data_fork ino) (di_nextents ino)).
        length img \<le> unat (startblock r) * unat (sb_blocksize sb)) \<longrightarrow>
      (\<exists>detail. read_dir img sb ino = Inl (UnsupportedDir detail)))"
proof (intro conjI allI impI)
  show "(\<exists>detail. err = UnsupportedDir detail \<and> (di_format ino = Dev \<or> (\<exists>v. di_format ino = OtherFormat v))) \<or>
      di_format ino = Extents \<and> di_size ino = ucast (sb_blocksize sb) \<and>
        (err = size_error (unat (di_size ino)) (length img) \<and> length img < unat (di_size ino) \<or>
         (\<exists>block detail. read_file sb img ino = Inr block \<and> err = UnsupportedDir detail \<and>
            be_u32 block 0 \<notin> {XFS_DIR3_BLOCK_MAGIC, XFS_DIR2_BLOCK_MAGIC}))"
    if "read_dir img sb ino = Inl err" for err
    by (rule read_dir_error_cases [OF assms that])
next
  assume fmt: "di_format ino = Extents" and sz: "di_size ino = ucast (sb_blocksize sb)"
    and le: "unat (di_size ino) \<le> length img"
    and out: "\<forall>r \<in> set (read_extents (di_data_fork ino) (di_nextents ino)).
      length img \<le> unat (startblock r) * unat (sb_blocksize sb)"
  have "\<not> ext_covers (length img) (unat (sb_blocksize sb)) (unat (di_size ino)) r p"
    if "r \<in> set (read_extents (di_data_fork ino) (di_nextents ino))" "p < unat (di_size ino)" for r p
    using bspec [OF out that(1)] that(2) by (auto simp: ext_covers_def Let_def add_mult_distrib)
  then have "map (file_byte img (unat (sb_blocksize sb)) (unat (di_size ino)) (read_extents (di_data_fork ino) (di_nextents ino)))
      [0..<unat (di_size ino)] = replicate (unat (di_size ino)) 0"
    by (intro nth_equalityI) (auto simp: file_byte_hole)
  then have "read_file sb img ino = Inr (replicate (unat (di_size ino)) 0)"
    using le fmt by (simp add: read_file_outcome [OF assms])
  then show "\<exists>detail. read_dir img sb ino = Inl (UnsupportedDir detail)"
    using fmt sz be_zeros [of "unat (di_size ino)"]
    by (simp add: read_dir_def sb_read_dir_def Let_def read_block_dir_def dir_magic_defs)
qed

text \<open>A block directory whose only extent is block 7 of an image of one block.\<close>

theorem read_dir_errors_witness:
  "\<exists>detail. read_dir (replicate 512 1) two_slots (undefined\<lparr>di_format := Extents, di_size := 512, di_nextents := 1,
      di_data_fork := pack \<lparr>startoff = 0, startblock = 7, blockcount = 1, unwritten = False\<rparr>\<rparr>) = Inl (UnsupportedDir detail)"
proof -
  let ?r = "\<lparr>startoff = 0, startblock = 7, blockcount = 1, unwritten = False\<rparr>"
  have "read_extents (pack ?r) 1 = [?r]"
    using read_extents_roundtrip [of "[?r]" 1] by (simp add: rec_ok_def)
  then show ?thesis
    using read_dir_errors [of "replicate 512 1" two_slots "undefined\<lparr>di_format := Extents, di_size := 512, di_nextents := 1,
      di_data_fork := pack ?r\<rparr>"]
    by (simp add: USIZE_MAX_def two_slots_def)
qed

text \<open>
  C4: Reading a file by path implements path resolution: it returns data exactly when the path has a
  component, the components lead from the root inode through directories to an inode, and that inode's
  file is the data.
\<close>

theorem read_by_path_resolves:
  "read_by_path crcf img sb path = Inr data \<longleftrightarrow>
    (\<exists>root i. path_components path \<noteq> [] \<and> read_inode crcf sb img (sb_rootino sb) = Inr root \<and>
       resolves crcf img sb root (path_components path) i \<and> read_file sb img i = Inr data)"
  by (cases "path_components path = []")
    (auto simp: read_by_path_def Let_def and_then_Inr_iff resolve_loop_iff)

text \<open>
  C37: A lookup fails with \<open>PathNotFound\<close> exactly when the root inode is read and the path has no component,
  or one of its components is the first that does not resolve: all before it lead to a directory, and it
  is not listed there, or leads to something that is no directory while components follow. The error
  carries the path asked for and this component.
\<close>

theorem read_by_path_not_found:
  "read_by_path crcf img sb path = Inl (PathNotFound p c) \<longleftrightarrow> p = path \<and>
    (\<exists>root. read_inode crcf sb img (sb_rootino sb) = Inr root \<and>
       (path_components path = [] \<and> c = [] \<or>
        (\<exists>pre post i. path_components path = pre @ c # post \<and> resolves crcf img sb root pre i \<and>
           (pre = [] \<or> inode_is_dir i) \<and> stops_at crcf img sb i c post)))"
  by (cases "path_components path = []")
    (auto simp: read_by_path_def Let_def and_then_Inl_iff no_path_errors resolve_loop_not_found)

text \<open>
  Splitting a path gives back the names it was joined from, in order, for every list of names that
  are not empty and hold no slash.
\<close>

lemma path_components_roundtrip:
  assumes "\<forall>n \<in> set names. n \<noteq> [] \<and> 0x2f \<notin> set n"
  shows "path_components (concat (map (\<lambda>n. 0x2f # n) names)) = names"
proof -
  have "path_components (a @ concat (map (\<lambda>n. 0x2f # n) names)) = path_components a @ names" for a
    using assms
  proof (induction names arbitrary: a)
    case (Cons n names)
    then show ?case
      using Cons.IH [of n] by (simp add: path_components_join path_components_name)
  qed simp
  from this [of "[]"] show ?thesis by simp
qed

end
