(* ===== verification/Xfs_Xattr.thy ===== *)
theory Xfs_Xattr
  imports Xfs_Btree
begin

text \<open>
  Extended attributes, \<open>core/src/xattr.rs\<close>: namespaces, the short-form attribute fork, leaf blocks
  with local and remote values, and the mapping of a logical block of the attribute fork.

  The lemmas show that stored short-form attributes are read back, that a remote value stored over
  blocks is reassembled, that the loop over its blocks ends, that stored leaf blocks with local and remote
  values are listed exactly, which attribute forks are refused, and how much a hostile leaf can make the
  reader return.
\<close>

section \<open>Constants\<close>

definition ATTR_LOCAL :: u8 where "ATTR_LOCAL = 0x01"
definition ATTR_ROOT :: u8 where "ATTR_ROOT = 0x02"
definition ATTR_SECURE :: u8 where "ATTR_SECURE = 0x04"
definition ATTR_INCOMPLETE :: u8 where "ATTR_INCOMPLETE = 0x80"
definition AFORMAT_LOCAL :: u8 where "AFORMAT_LOCAL = 1"
definition AFORMAT_EXTENTS :: u8 where "AFORMAT_EXTENTS = 2"
definition AFORMAT_BTREE :: u8 where "AFORMAT_BTREE = 3"
definition ATTR3_LEAF_MAGIC :: u16 where "ATTR3_LEAF_MAGIC = 0x3BEE"
definition ATTR_LEAF_MAGIC :: u16 where "ATTR_LEAF_MAGIC = 0xFBEE"
definition LEAF_MAGIC_OFF :: nat where "LEAF_MAGIC_OFF = 8"
definition LEAF_HDR_LEN :: nat where "LEAF_HDR_LEN = 80"
definition LEAF_HDR_LEN_V4 :: nat where "LEAF_HDR_LEN_V4 = 32"
definition LEAF_COUNT_OFF :: nat where "LEAF_COUNT_OFF = 56"
definition LEAF_COUNT_OFF_V4 :: nat where "LEAF_COUNT_OFF_V4 = 12"
definition ATTR_LEAF_ENTRY_LEN :: nat where "ATTR_LEAF_ENTRY_LEN = 8"
definition RMT_HDR_LEN :: nat where "RMT_HDR_LEN = 56"
definition RMT_MAGIC :: u32 where "RMT_MAGIC = 0x5841524D"
definition MAX_VALUE_LEN :: nat where "MAX_VALUE_LEN = 16 * 1024 * 1024"

lemmas aformat_defs = AFORMAT_LOCAL_def AFORMAT_EXTENTS_def AFORMAT_BTREE_def
lemmas attr_flag_defs = ATTR_LOCAL_def ATTR_ROOT_def ATTR_SECURE_def ATTR_INCOMPLETE_def

section \<open>Attributes\<close>

datatype xattr_namespace = User | Trusted | Security

definition namespace_from_flags :: "u8 \<Rightarrow> xattr_namespace" where
  "namespace_from_flags flags =
     (if flags AND ATTR_ROOT \<noteq> 0 then Trusted
      else if flags AND ATTR_SECURE \<noteq> 0 then Security else User)"

text \<open>\<open>"user."\<close>, \<open>"trusted."\<close> and \<open>"security."\<close> as UTF-8.\<close>

fun namespace_prefix :: "xattr_namespace \<Rightarrow> bytes" where
  "namespace_prefix User = [0x75, 0x73, 0x65, 0x72, 0x2e]"
| "namespace_prefix Trusted = [0x74, 0x72, 0x75, 0x73, 0x74, 0x65, 0x64, 0x2e]"
| "namespace_prefix Security = [0x73, 0x65, 0x63, 0x75, 0x72, 0x69, 0x74, 0x79, 0x2e]"

datatype xattr_storage = Shortform | LeafLocal | LeafRemote u32

record xattr =
  xa_name :: bytes
  xa_namespace :: xattr_namespace
  xa_value :: bytes
  xa_storage :: xattr_storage
  xa_incomplete :: bool

text \<open>
  \<open>String::from_utf8_lossy\<close>: every maximal invalid part becomes U+FFFD. \<open>utf8_chunk\<close> says how many
  bytes the first character or invalid part of a string takes, and whether it is a character.
\<close>

definition is_cont :: "u8 \<Rightarrow> bool" where
  "is_cont b \<longleftrightarrow> 0x80 \<le> b \<and> b \<le> 0xBF"

definition utf8_second_ok :: "u8 \<Rightarrow> u8 \<Rightarrow> bool" where
  "utf8_second_ok a b \<longleftrightarrow>
     (if a = 0xE0 then 0xA0 \<le> b \<and> b \<le> 0xBF
      else if a = 0xED then 0x80 \<le> b \<and> b \<le> 0x9F
      else if a = 0xF0 then 0x90 \<le> b \<and> b \<le> 0xBF
      else if a = 0xF4 then 0x80 \<le> b \<and> b \<le> 0x8F
      else is_cont b)"

definition utf8_chunk :: "bytes \<Rightarrow> nat \<times> bool" where
  "utf8_chunk s =
     (let a = u8_at s 0; b = u8_at s 1; c = u8_at s 2; d = u8_at s 3 in
      if a < 0x80 then (1, True)
      else if 0xC2 \<le> a \<and> a \<le> 0xDF then (if is_cont b then (2, True) else (1, False))
      else if 0xE0 \<le> a \<and> a \<le> 0xEF then
        (if \<not> utf8_second_ok a b then (1, False)
         else if \<not> is_cont c then (2, False) else (3, True))
      else if 0xF0 \<le> a \<and> a \<le> 0xF4 then
        (if \<not> utf8_second_ok a b then (1, False)
         else if \<not> is_cont c then (2, False)
         else if \<not> is_cont d then (3, False) else (4, True))
      else (1, False))"

lemma utf8_chunk_pos [simp]: "0 < fst (utf8_chunk s)"
  by (simp add: utf8_chunk_def Let_def)

function from_utf8_lossy :: "bytes \<Rightarrow> bytes" where
  "from_utf8_lossy s =
     (if s = [] then []
      else let (n, valid) = utf8_chunk s
           in (if valid then take n s else [0xEF, 0xBF, 0xBD]) @ from_utf8_lossy (drop n s))"
  by pat_completeness auto

termination
proof (relation "measure length")
  fix s :: bytes and p n valid
  assume "s \<noteq> []" "p = utf8_chunk s" "(n, valid) = p"
  then show "(drop n s, s) \<in> measure length"
    using utf8_chunk_pos [of s] by (cases "utf8_chunk s") (auto simp: length_greater_0_conv)
qed simp

declare from_utf8_lossy.simps [simp del]

definition full_name :: "xattr \<Rightarrow> bytes" where
  "full_name x = namespace_prefix (xa_namespace x) @ from_utf8_lossy (xa_name x)"

lemma from_utf8_lossy_ascii: "\<forall>b \<in> set s. b < 0x80 \<Longrightarrow> from_utf8_lossy s = s"
proof (induction s)
  case (Cons b s)
  then have "utf8_chunk (b # s) = (1, True)" by (simp add: utf8_chunk_def u8_at_nth)
  with Cons show ?case by (subst from_utf8_lossy.simps) simp
qed (simp add: from_utf8_lossy.simps)

section \<open>Short form\<close>

definition attr_fork :: "inode \<Rightarrow> bytes" where
  "attr_fork ino =
     (let off = usat_mul (unat (di_forkoff ino)) 8 in unwrap_or [] (get_from (di_data_fork ino) off))"

fun xattr_sf_loop :: "bytes \<Rightarrow> nat \<Rightarrow> nat \<Rightarrow> xattr list" where
  "xattr_sf_loop fork off 0 = []"
| "xattr_sf_loop fork off (Suc k) =
    (case get_range fork off (off + 3) of
       None \<Rightarrow> []
     | Some hdr \<Rightarrow>
       let namelen = unat (hdr ! 0);
           valuelen = unat (hdr ! 1);
           flags = hdr ! 2;
           name_start = off + 3
       in case get_range fork name_start (name_start + namelen) of
            None \<Rightarrow> []
          | Some name \<Rightarrow>
            let value_start = name_start + namelen
            in case get_range fork value_start (value_start + valuelen) of
                 None \<Rightarrow> []
               | Some val \<Rightarrow>
                 \<lparr>xa_name = name, xa_namespace = namespace_from_flags flags, xa_value = val,
                  xa_storage = Shortform, xa_incomplete = (flags AND ATTR_INCOMPLETE \<noteq> 0)\<rparr>
                 # xattr_sf_loop fork (value_start + valuelen) k)"

definition parse_shortform :: "bytes \<Rightarrow> xattr list" where
  "parse_shortform fork =
     (if length fork < 4 then []
      else let count = unat (u8_at fork 2) in xattr_sf_loop fork 4 count)"

section \<open>Leaf blocks and remote values\<close>

definition leaf_kind :: "bytes \<Rightarrow> bool option" where
  "leaf_kind block =
     (let m = be_u16 block LEAF_MAGIC_OFF in
      if m = ATTR3_LEAF_MAGIC then Some True else if m = ATTR_LEAF_MAGIC then Some False else None)"

definition block_bytes :: "bytes \<Rightarrow> nat \<Rightarrow> u64 \<Rightarrow> bytes option" where
  "block_bytes img blocksize fsblock =
     Option.bind (uchecked_mul (unat fsblock) blocksize) (\<lambda>start.
     Option.bind (uchecked_add start blocksize) (\<lambda>end'.
     get_range img start end'))"

interpretation ablk: block_reader block_bytes
  by unfold_locales (auto simp: block_bytes_def uchecked_mul_def uchecked_add_def get_range_def)

definition map_logical :: "bmbt_rec list \<Rightarrow> u64 \<Rightarrow> u64 option" where
  "map_logical recs logical =
     map_option (\<lambda>r. wsat_add (startblock r) (logical - startoff r))
       (find (\<lambda>r. startoff r \<le> logical \<and> logical < wsat_add (startoff r) (blockcount r)) recs)"

text \<open>
  The loop that assembles a value. \<open>fuel\<close> bounds the iterations, \<open>None\<close> is running out of it:
  \<open>remote_loop_total\<close> shows that the length of the value is always enough.
\<close>

fun remote_loop :: "nat \<Rightarrow> bytes \<Rightarrow> nat \<Rightarrow> bmbt_rec list \<Rightarrow> nat \<Rightarrow> bool \<Rightarrow> u64 \<Rightarrow> bytes \<Rightarrow> bytes option" where
  "remote_loop fuel img bs recs valuelen v5 logical out =
    (if length out < valuelen then
       case map_logical recs logical of
         None \<Rightarrow> Some out
       | Some fsb \<Rightarrow>
         (case block_bytes img bs fsb of
            None \<Rightarrow> Some out
          | Some block \<Rightarrow>
            if v5 \<and> be_u32 block 0 \<noteq> RMT_MAGIC then Some out
            else
              let body = (if v5 then unwrap_or [] (get_from block RMT_HDR_LEN) else block);
                  want = min (valuelen - length out) (length body)
              in case fuel of
                   0 \<Rightarrow> None
                 | Suc n \<Rightarrow>
                   remote_loop n img bs recs valuelen v5 (logical + 1) (out @ take want body))
     else Some out)"

declare remote_loop.simps [simp del]

definition read_remote_value :: "bytes \<Rightarrow> superblock \<Rightarrow> bmbt_rec list \<Rightarrow> u32 \<Rightarrow> nat \<Rightarrow> bool \<Rightarrow> bytes" where
  "read_remote_value img sb recs valueblk valuelen v5 =
    (if MAX_VALUE_LEN < valuelen then []
     else
       let bs = unat (sb_blocksize sb);
           payload = (if v5 then bs - RMT_HDR_LEN else bs)
       in if payload = 0 then []
          else unwrap_or [] (remote_loop valuelen img bs recs valuelen v5 (ucast valueblk) []))"

text \<open>The loop body of \<open>parse_leaf_block\<close>; \<open>None\<close> is \<open>continue\<close>.\<close>

definition leaf_entry :: "bytes \<Rightarrow> superblock \<Rightarrow> bytes \<Rightarrow> bmbt_rec list \<Rightarrow> bool \<Rightarrow> nat \<Rightarrow> nat \<Rightarrow> xattr option" where
  "leaf_entry img sb block recs v5 hdr_len i =
    (let eo = hdr_len + i * ATTR_LEAF_ENTRY_LEN;
         nameidx = unat (be_u16 block (eo + 4));
         flags = u8_at block (eo + 6);
         namespace = namespace_from_flags flags;
         incomplete = (flags AND ATTR_INCOMPLETE \<noteq> 0)
     in if flags AND ATTR_LOCAL \<noteq> 0 then
          let valuelen = unat (be_u16 block nameidx);
              namelen = unat (u8_at block (nameidx + 2));
              ns = nameidx + 3
          in case (get_range block ns (ns + namelen),
                   get_range block (ns + namelen) (ns + namelen + valuelen)) of
               (Some name, Some val) \<Rightarrow>
                 Some \<lparr>xa_name = name, xa_namespace = namespace, xa_value = val,
                       xa_storage = LeafLocal, xa_incomplete = incomplete\<rparr>
             | _ \<Rightarrow> None
        else
          let valueblk = be_u32 block nameidx;
              valuelen = unat (be_u32 block (nameidx + 4));
              namelen = unat (u8_at block (nameidx + 8));
              ns = nameidx + 9
          in case get_range block ns (ns + namelen) of
               None \<Rightarrow> None
             | Some name \<Rightarrow>
               let val = read_remote_value img sb recs valueblk valuelen v5
               in Some \<lparr>xa_name = name, xa_namespace = namespace, xa_value = val,
                        xa_storage = LeafRemote valueblk, xa_incomplete = incomplete\<rparr>)"

definition parse_leaf_block :: "bytes \<Rightarrow> superblock \<Rightarrow> bytes \<Rightarrow> bmbt_rec list \<Rightarrow> bool \<Rightarrow> xattr list \<Rightarrow> xattr list" where
  "parse_leaf_block img sb block recs v5 out =
    (let (hdr_len, count_off) = (if v5 then (LEAF_HDR_LEN, LEAF_COUNT_OFF)
                                 else (LEAF_HDR_LEN_V4, LEAF_COUNT_OFF_V4));
         count = unat (be_u16 block count_off);
         max' = (length block - hdr_len) div ATTR_LEAF_ENTRY_LEN
     in out @ List.map_filter (leaf_entry img sb block recs v5 hdr_len) [0..<min count max'])"

text \<open>The loop body of \<open>parse_leaf_fork\<close>: what block \<open>i\<close> of an extent adds.\<close>

definition leaf_fork_block :: "bytes \<Rightarrow> superblock \<Rightarrow> bmbt_rec list \<Rightarrow> bmbt_rec \<Rightarrow> nat \<Rightarrow> xattr list \<Rightarrow> xattr list" where
  "leaf_fork_block img sb recs r i out =
    (case block_bytes img (unat (sb_blocksize sb)) (wsat_add (startblock r) (word_of_nat i)) of
       None \<Rightarrow> out
     | Some block \<Rightarrow>
       (case leaf_kind block of
          None \<Rightarrow> out
        | Some v5 \<Rightarrow> parse_leaf_block img sb block recs v5 out))"

definition parse_leaf_fork :: "bytes \<Rightarrow> superblock \<Rightarrow> inode \<Rightarrow> xattr list" where
  "parse_leaf_fork img sb ino =
    (let recs = read_extents (attr_fork ino) (ucast (di_aextents ino))
     in fold (\<lambda>r out. fold (leaf_fork_block img sb recs r) [0..<unat (blockcount r)] out) recs [])"

definition list_xattrs :: "bytes \<Rightarrow> superblock \<Rightarrow> inode \<Rightarrow> xattr list xfs_result" where
  "list_xattrs img sb ino =
    (if di_forkoff ino = 0 then Inr []
     else
       let af = di_aformat ino in
       if af = 0 then Inr []
       else if af = AFORMAT_LOCAL then Inr (parse_shortform (attr_fork ino))
       else if af = AFORMAT_EXTENTS then Inr (parse_leaf_fork img sb ino)
       else Inl (UnsupportedAttrFork af
              (if af = AFORMAT_BTREE then ''btree attribute fork (di_aformat = 3)''
               else ''unrecognised di_aformat'')))"

section \<open>Short-form round trip\<close>

definition xattr_sf_step :: "bytes \<Rightarrow> nat \<Rightarrow> (xattr \<times> nat) option" where
  "xattr_sf_step fork off =
    (let n = unat (u8_at fork off); v = unat (u8_at fork (off + 1)); flags = u8_at fork (off + 2) in
     if off + 3 + n + v \<le> length fork then
       Some (\<lparr>xa_name = take n (drop (off + 3) fork), xa_namespace = namespace_from_flags flags,
              xa_value = take v (drop (off + 3 + n) fork), xa_storage = Shortform,
              xa_incomplete = (flags AND ATTR_INCOMPLETE \<noteq> 0)\<rparr>, off + 3 + n + v)
     else None)"

definition xattr_sf_stored :: "xattr \<Rightarrow> bytes \<Rightarrow> bool" where
  "xattr_sf_stored x bs \<longleftrightarrow> length (xa_name x) < 256 \<and> length (xa_value x) < 256 \<and> xa_storage x = Shortform \<and>
     (\<exists>flags. xa_namespace x = namespace_from_flags flags \<and> xa_incomplete x = (flags AND ATTR_INCOMPLETE \<noteq> 0) \<and>
        bs = [word_of_nat (length (xa_name x)), word_of_nat (length (xa_value x)), flags] @ xa_name x @ xa_value x)"

lemma xattr_sf_loop_step:
  "xattr_sf_loop fork off (Suc k) = (case xattr_sf_step fork off of
     None \<Rightarrow> [] | Some (x, next') \<Rightarrow> x # xattr_sf_loop fork next' k)"
  by (auto simp: xattr_sf_step_def Let_def get_range_def u8_at_nth split: option.splits)

lemma xattr_sf_step_stored:
  assumes "xattr_sf_stored x bs"
  shows "xattr_sf_step (p @ bs @ q) (length p) = Some (x, length p + length bs)"
proof -
  let ?n = "length (xa_name x)" and ?v = "length (xa_value x)"
  obtain flags where fl: "xa_namespace x = namespace_from_flags flags"
      "xa_incomplete x = (flags AND ATTR_INCOMPLETE \<noteq> 0)"
    and bs: "bs = [word_of_nat ?n, word_of_nat ?v, flags] @ xa_name x @ xa_value x"
    using assms by (auto simp: xattr_sf_stored_def)
  have len: "unat (word_of_nat ?n :: u8) = ?n" "unat (word_of_nat ?v :: u8) = ?v" "xa_storage x = Shortform"
    using assms by (auto simp: xattr_sf_stored_def unat_of_nat)
  have u: "u8_at (p @ bs @ q) (length p) = word_of_nat ?n" "u8_at (p @ bs @ q) (length p + 1) = word_of_nat ?v"
    "u8_at (p @ bs @ q) (length p + 2) = flags"
    using u8_at_shift [of p "bs @ q" 0] u8_at_shift [of p "bs @ q" 1] u8_at_shift [of p "bs @ q" 2]
    by (simp_all add: bs u8_at_nth)
  have name: "take ?n (drop (length p + 3) (p @ bs @ q)) = xa_name x"
    by (simp add: bs)
  have val: "take ?v (drop (length p + 3 + ?n) (p @ bs @ q)) = xa_value x"
    using take_drop_mid [of "length p + 3 + ?n" "p @ [word_of_nat ?n, word_of_nat ?v, flags] @ xa_name x" ?v
        "xa_value x" q]
    by (simp_all add: bs del: drop_append)
  have "length bs = 3 + ?n + ?v" by (simp add: bs)
  then show ?thesis
    unfolding xattr_sf_step_def Let_def u len(1,2) name val using fl len(3) by simp
qed

interpretation xsf: packed_walk xattr_sf_step xattr_sf_loop xattr_sf_stored 3
proof unfold_locales
  fix d e :: bytes and off x
  assume "xattr_sf_step d off = Some x"
  then show "xattr_sf_step (d @ e) off = Some x"
    by (auto simp: xattr_sf_step_def Let_def u8_at_append split: if_splits)
qed (auto simp: xattr_sf_loop_step xattr_sf_step_stored simp del: xattr_sf_loop.simps(2),
     auto simp: xattr_sf_step_def Let_def split: if_splits)

section \<open>Remote values\<close>

definition rmt_body :: "bool \<Rightarrow> bytes \<Rightarrow> bytes" where
  "rmt_body v5 block = (if v5 then drop 56 block else block)"

definition rmt_payload :: "bool \<Rightarrow> nat \<Rightarrow> nat" where
  "rmt_payload v5 bs = (if v5 then bs - 56 else bs)"

lemma block_bytes_length: "block_bytes img bs b = Some blk \<Longrightarrow> length blk = bs"
  by (auto simp: block_bytes_def uchecked_mul_def uchecked_add_def bind_eq_Some_conv get_range_Some_iff
      split: if_splits)

text \<open>The value block a logical block leads to, when it is one.\<close>

definition rmt_block :: "bytes \<Rightarrow> nat \<Rightarrow> bmbt_rec list \<Rightarrow> bool \<Rightarrow> u64 \<Rightarrow> bytes option" where
  "rmt_block img bs recs v5 logical =
    Option.bind (map_logical recs logical) (\<lambda>fsb. Option.bind (block_bytes img bs fsb) (\<lambda>block.
      if v5 \<and> be_u32 block 0 \<noteq> RMT_MAGIC then None else Some (rmt_body v5 block)))"

lemma rmt_block_length: "rmt_block img bs recs v5 l = Some body \<Longrightarrow> length body = rmt_payload v5 bs"
  by (auto simp: rmt_block_def bind_eq_Some_conv rmt_body_def rmt_payload_def dest: block_bytes_length
      split: if_splits)

lemma remote_loop_unfold:
  "remote_loop fuel img bs recs valuelen v5 l out =
    (if length out < valuelen then
       case rmt_block img bs recs v5 l of
         None \<Rightarrow> Some out
       | Some body \<Rightarrow> (case fuel of
           0 \<Rightarrow> None
         | Suc n \<Rightarrow> remote_loop n img bs recs valuelen v5 (l + 1) (out @ take (valuelen - length out) body))
     else Some out)"
proof -
  have body: "(if v5 then unwrap_or [] (get_from blk RMT_HDR_LEN) else blk) = rmt_body v5 blk" for blk
    by (auto simp: rmt_body_def get_from_def RMT_HDR_LEN_def)
  show ?thesis
    by (subst remote_loop.simps) (simp add: body rmt_block_def Let_def min_def take_all split: option.split nat.split)
qed

lemma remote_loop_total:
  assumes "0 < rmt_payload v5 bs" and "valuelen \<le> length out + fuel"
  shows "\<exists>v. remote_loop fuel img bs recs valuelen v5 l out = Some (out @ v) \<and> length v \<le> valuelen - length out"
  using assms(2)
proof (induction fuel arbitrary: l out)
  case 0
  then show ?case by (subst remote_loop_unfold) simp
next
  case (Suc n)
  show ?case
  proof (cases "length out < valuelen")
    case True
    show ?thesis
    proof (cases "rmt_block img bs recs v5 l")
      case None
      with True show ?thesis by (subst remote_loop_unfold) simp
    next
      case (Some body)
      let ?t = "take (valuelen - length out) body"
      have "0 < length ?t" "length ?t \<le> valuelen - length out"
        using rmt_block_length [OF Some] assms(1) True by auto
      then have "valuelen \<le> length (out @ ?t) + n"
        using Suc.prems by (simp only: length_append)
      from Suc.IH [OF this, of "l + 1"] obtain v
        where v: "remote_loop n img bs recs valuelen v5 (l + 1) (out @ ?t) = Some ((out @ ?t) @ v)"
          "length v \<le> valuelen - length (out @ ?t)" by blast
      have "remote_loop (Suc n) img bs recs valuelen v5 l out = Some (out @ ?t @ v)"
        using v(1) True Some by (subst remote_loop_unfold) simp
      moreover have "length (?t @ v) \<le> valuelen - length out"
        using v(2) True by auto
      ultimately show ?thesis by blast
    qed
  next
    case False
    then show ?thesis by (subst remote_loop_unfold) simp
  qed
qed

lemma concat_const_length: "\<forall>b \<in> set bodies. length b = k \<Longrightarrow> length (concat bodies) = length bodies * k"
  by (induction bodies) auto

lemma remote_loop_stored:
  assumes "\<And>j. j < length bodies \<Longrightarrow> rmt_block img bs recs v5 (l + word_of_nat j) = Some (bodies ! j)"
    and "0 < rmt_payload v5 bs" and "valuelen \<le> length out + fuel"
    and "valuelen \<le> length out + length (concat bodies)" 
  shows "remote_loop fuel img bs recs valuelen v5 l out = Some (out @ take (valuelen - length out) (concat bodies))"
  using assms(1,3,4)
proof (induction bodies arbitrary: l out fuel)
  case Nil
  then show ?case by (subst remote_loop_unfold) simp
next
  case (Cons b bodies)
  show ?case
  proof (cases "length out < valuelen")
    case True
    then obtain n where n: "fuel = Suc n" using Cons.prems(2) by (cases fuel) auto
    have b: "rmt_block img bs recs v5 l = Some b" using Cons.prems(1) [of 0] by simp
    have pos: "0 < length b" using rmt_block_length [OF b] assms(2) by simp
    let ?t = "take (valuelen - length out) b"
    have "remote_loop n img bs recs valuelen v5 (l + 1) (out @ ?t) =
      Some ((out @ ?t) @ take (valuelen - length (out @ ?t)) (concat bodies))"
    proof (rule Cons.IH)
      show "rmt_block img bs recs v5 (l + 1 + word_of_nat j) = Some (bodies ! j)" if "j < length bodies" for j
        using Cons.prems(1) [of "Suc j"] that by (simp add: add.assoc)
      have "0 < length ?t" using pos True by simp
      then show "valuelen \<le> length (out @ ?t) + n"
        using Cons.prems(2) n by (simp only: length_append)
      show "valuelen \<le> length (out @ ?t) + length (concat bodies)" using Cons.prems(3) by auto
    qed
    moreover have "valuelen - (length out + min (length b) (valuelen - length out)) = valuelen - length out - length b"
      by auto
    ultimately show ?thesis
      using True b n by (subst remote_loop_unfold) simp
  next
    case False
    then show ?thesis by (subst remote_loop_unfold) simp
  qed
qed

section \<open>Mapping logical blocks\<close>

definition rec_covers :: "bmbt_rec \<Rightarrow> nat \<Rightarrow> bool" where
  "rec_covers r l \<longleftrightarrow> unat (startoff r) \<le> l \<and> l < unat (startoff r) + unat (blockcount r)"

lemma rec_covers_iff:
  assumes "rec_ok r"
  shows "startoff r \<le> l \<and> l < wsat_add (startoff r) (blockcount r) \<longleftrightarrow> rec_covers r (unat l)"
  using assms by (auto simp: rec_covers_def rec_ok_def word_le_nat_alt word_less_nat_alt unat_wsat_add min_def)

lemma rec_covers_unique:
  assumes "recs_disjoint recs" "r \<in> set recs" "s \<in> set recs" "rec_covers r l" "rec_covers s l"
  shows "r = s"
proof (rule ccontr)
  assume "r \<noteq> s"
  then have "unat (startoff r) + unat (blockcount r) \<le> unat (startoff s) \<or>
     unat (startoff s) + unat (blockcount s) \<le> unat (startoff r)"
    using assms(1-3) by (auto simp: recs_disjoint_def)
  then show False using assms(4,5) by (auto simp: rec_covers_def)
qed

lemma map_logical_covered:
  assumes ok: "list_all rec_ok recs" and "recs_disjoint recs" "r \<in> set recs" "rec_covers r (unat l)"
  shows "\<exists>fsb. map_logical recs l = Some fsb \<and>
    unat fsb = unat (startblock r) + (unat l - unat (startoff r))"
proof -
  let ?p = "\<lambda>r. startoff r \<le> l \<and> l < wsat_add (startoff r) (blockcount r)"
  have p: "?p s \<longleftrightarrow> rec_covers s (unat l)" if "s \<in> set recs" for s
    using ok that by (intro rec_covers_iff) (auto simp: list_all_iff)
  then have "find ?p recs \<noteq> None" using assms(3,4) unfolding find_None_iff by blast
  then obtain s where s: "find ?p recs = Some s" by blast
  then have "s \<in> set recs" "?p s" by (auto simp: find_Some_iff)
  then have "s = r" using rec_covers_unique [OF assms(2)] assms(3,4) p by blast
  have "rec_ok r" using ok assms(3) by (auto simp: list_all_iff)
  then have "unat (startblock r) + (unat l - unat (startoff r)) < 2 ^ 64"
    using assms(4) by (clarsimp simp: rec_ok_def rec_covers_def) linarith
  moreover have "unat (l - startoff r) = unat l - unat (startoff r)"
    using assms(4) by (intro unat_sub) (simp add: rec_covers_def word_le_nat_alt)
  ultimately show ?thesis
    using s \<open>s = r\<close> by (simp add: map_logical_def unat_wsat_add)
qed

lemma map_logical_uncovered:
  "list_all rec_ok recs \<Longrightarrow> map_logical recs l = None \<longleftrightarrow> (\<forall>r \<in> set recs. \<not> rec_covers r (unat l))"
  using rec_covers_iff [of _ l] by (auto simp: map_logical_def find_None_iff list_all_iff)

section \<open>What a leaf can make the reader return\<close>

lemma read_remote_value_length:
  "length (read_remote_value img sb recs vb valuelen v5) \<le> min valuelen MAX_VALUE_LEN"
proof (cases "MAX_VALUE_LEN < valuelen \<or> rmt_payload v5 (unat (sb_blocksize sb)) = 0")
  case True
  then show ?thesis by (auto simp: read_remote_value_def rmt_payload_def RMT_HDR_LEN_def Let_def)
next
  case False
  then obtain v where "remote_loop valuelen img (unat (sb_blocksize sb)) recs valuelen v5 (ucast vb) [] = Some v"
    "length v \<le> valuelen"
    using remote_loop_total [of v5 "unat (sb_blocksize sb)" valuelen "[]" valuelen img recs "ucast vb"] by auto
  with False show ?thesis by (auto simp: read_remote_value_def Let_def)
qed

lemma leaf_entry_bounds:
  assumes "leaf_entry img sb block recs v5 h i = Some x"
  shows "length (xa_name x) < 256"
    and "xa_storage x = LeafLocal \<and> length (xa_value x) < 2 ^ 16 \<and>
          length (xa_name x) + length (xa_value x) \<le> length block \<or>
         (\<exists>vb. xa_storage x = LeafRemote vb) \<and> length (xa_value x) \<le> MAX_VALUE_LEN"
proof -
  have b8: "unat (u :: u8) < 256" for u using unat_u8 [of u] by simp
  have b16: "unat (u :: u16) < 2 ^ 16" for u using unat_less_pow [of u] by simp
  have rm: "length (read_remote_value img sb recs vb n v5) \<le> MAX_VALUE_LEN" for vb n
    using read_remote_value_length [of img sb recs vb n v5] by simp
  show "length (xa_name x) < 256"
    using assms b8 by (auto simp: leaf_entry_def Let_def split: if_splits option.splits dest!: get_range_length)
  show "xa_storage x = LeafLocal \<and> length (xa_value x) < 2 ^ 16 \<and>
          length (xa_name x) + length (xa_value x) \<le> length block \<or>
         (\<exists>vb. xa_storage x = LeafRemote vb) \<and> length (xa_value x) \<le> MAX_VALUE_LEN"
    using assms b16 rm
    by (auto simp: leaf_entry_def Let_def get_range_Some_iff split: if_splits option.splits)
qed

lemma parse_leaf_block_parts:
  "\<exists>xs. parse_leaf_block img sb block recs v5 out = out @ xs \<and> length xs * 8 \<le> length block \<and>
     (\<forall>x \<in> set xs. \<exists>h i. leaf_entry img sb block recs v5 h i = Some x)"
proof -
  let ?h = "if v5 then LEAF_HDR_LEN else LEAF_HDR_LEN_V4"
  let ?c = "unat (be_u16 block (if v5 then LEAF_COUNT_OFF else LEAF_COUNT_OFF_V4))"
  let ?n = "min ?c ((length block - ?h) div 8)"
  let ?xs = "List.map_filter (leaf_entry img sb block recs v5 ?h) [0..<?n]"
  have "length ?xs \<le> ?n"
    by (simp only: map_filter_def length_map) (metis length_filter_le length_upt diff_zero)
  moreover have "min c (m div 8) * 8 \<le> m" for c m :: nat by arith
  then have "?n * 8 \<le> length block - ?h" .
  ultimately have "length ?xs * 8 \<le> length block" by linarith
  moreover have "parse_leaf_block img sb block recs v5 out = out @ ?xs"
    by (simp add: parse_leaf_block_def Let_def ATTR_LEAF_ENTRY_LEN_def)
  moreover have "\<forall>x \<in> set ?xs. \<exists>h i. leaf_entry img sb block recs v5 h i = Some x"
    by (auto simp: map_filter_def)
  ultimately show ?thesis by blast
qed

section \<open>Leaf blocks round trip\<close>

text \<open>
  A remote value as stored: cut into pieces, each of which fills the block behind the header of a value
  block, v4 blocks having none. Piece \<open>j\<close> is in logical block \<open>vb + j\<close> of the fork, that is, in the block of the
  image that an extent of the fork gives for it.
\<close>

definition value_block :: "bool \<Rightarrow> bytes \<Rightarrow> bytes \<Rightarrow> bool" where
  "value_block v5 block piece \<longleftrightarrow>
    (if v5 then \<exists>rest. length rest = 52 \<and> block = [0x58, 0x41, 0x52, 0x4d] @ rest @ piece else block = piece)"

definition remote_stored :: "bytes \<Rightarrow> superblock \<Rightarrow> bmbt_rec list \<Rightarrow> bool \<Rightarrow> u32 \<Rightarrow> bytes \<Rightarrow> bool" where
  "remote_stored img sb recs v5 vb val \<longleftrightarrow> length val \<le> 2 ^ 24 \<and> (if v5 then 56 else 0) < unat (sb_blocksize sb) \<and>
    recs_disjoint recs \<and>
    (\<exists>pieces slack. concat pieces = val @ slack \<and> length pieces < 2 ^ 32 \<and>
      (\<forall>j < length pieces. \<exists>r \<in> set recs. \<exists>block. rec_covers r (unat vb + j) \<and>
         value_block v5 block (pieces ! j) \<and> length block = unat (sb_blocksize sb) \<and>
         bytes_at img ((unat (startblock r) + (unat vb + j - unat (startoff r))) * unat (sb_blocksize sb)) block))"

text \<open>The name structure of an attribute in the heap of a leaf block, local or remote.\<close>

definition leaf_name_bytes :: "xattr \<Rightarrow> bytes" where
  "leaf_name_bytes x = (case xa_storage x of
     LeafRemote vb \<Rightarrow> be_bytes 4 (unat vb) @ be_bytes 4 (length (xa_value x))
       @ [word_of_nat (length (xa_name x))] @ xa_name x
   | _ \<Rightarrow> be_bytes 2 (length (xa_value x)) @ [word_of_nat (length (xa_name x))] @ xa_name x @ xa_value x)"

definition leaf_value_ok :: "bytes \<Rightarrow> superblock \<Rightarrow> bmbt_rec list \<Rightarrow> bool \<Rightarrow> xattr \<Rightarrow> bool" where
  "leaf_value_ok img sb recs v5 x \<longleftrightarrow> (case xa_storage x of
     Shortform \<Rightarrow> False
   | LeafLocal \<Rightarrow> length (xa_value x) < 2 ^ 16
   | LeafRemote vb \<Rightarrow> remote_stored img sb recs v5 vb (xa_value x))"

text \<open>
  Entry \<open>i\<close> of the entry array, behind a header of \<open>h\<close> bytes: hash, index of the name structure, flags,
  padding. The name structures may lie anywhere in the block, in any order.
\<close>

definition leaf_entry_stored :: "bytes \<Rightarrow> superblock \<Rightarrow> bmbt_rec list \<Rightarrow> bool \<Rightarrow> bytes \<Rightarrow> nat \<Rightarrow> nat \<Rightarrow> xattr \<Rightarrow> bool" where
  "leaf_entry_stored img sb recs v5 block h i x \<longleftrightarrow>
    length (xa_name x) < 256 \<and> leaf_value_ok img sb recs v5 x \<and>
    (\<exists>hash nameidx flags pad. length hash = 4 \<and> nameidx < 2 ^ 16 \<and>
       bytes_at block (h + i * 8) (hash @ be_bytes 2 nameidx @ [flags, pad]) \<and>
       bytes_at block nameidx (leaf_name_bytes x) \<and>
       (xa_namespace x = Trusted \<longleftrightarrow> flags AND 2 \<noteq> 0) \<and> (xa_namespace x = Security \<longleftrightarrow> flags AND 2 = 0 \<and> flags AND 4 \<noteq> 0) \<and>
       (xa_incomplete x \<longleftrightarrow> flags AND 0x80 \<noteq> 0) \<and> (xa_storage x = LeafLocal \<longleftrightarrow> flags AND 1 \<noteq> 0))"

lemma leaf_flags:
  assumes "(ns = Trusted) = (flags AND 2 \<noteq> 0)" and "(ns = Security) = (flags AND 2 = 0 \<and> flags AND 4 \<noteq> 0)"
  shows "namespace_from_flags flags = ns"
  using assms by (cases ns) (auto simp: namespace_from_flags_def attr_flag_defs)

lemma value_block_body:
  assumes "value_block v5 block piece"
  shows "v5 \<Longrightarrow> be_u32 block 0 = RMT_MAGIC" and "rmt_body v5 block = piece"
  using assms
  by (auto simp: value_block_def rmt_body_def be_u32_def get_range_def be_word_def be_nat_def RMT_MAGIC_def split: if_splits)

lemma remote_stored_read:
  assumes "remote_stored img sb recs v5 vb val" and "list_all rec_ok recs" and "length img \<le> USIZE_MAX"
  shows "read_remote_value img sb recs vb (length val) v5 = val"
proof -
  let ?bs = "unat (sb_blocksize sb)"
  obtain pieces slack where pieces: "concat pieces = val @ slack" "length pieces < 2 ^ 32"
    and at: "\<And>j. j < length pieces \<Longrightarrow> \<exists>r \<in> set recs. \<exists>block. rec_covers r (unat vb + j) \<and>
         value_block v5 block (pieces ! j) \<and> length block = ?bs \<and>
         bytes_at img ((unat (startblock r) + (unat vb + j - unat (startoff r))) * ?bs) block"
    using assms(1) unfolding remote_stored_def by blast
  have pos: "length val \<le> MAX_VALUE_LEN" "0 < rmt_payload v5 ?bs" and disj: "recs_disjoint recs"
    using assms(1) by (simp_all add: remote_stored_def MAX_VALUE_LEN_def rmt_payload_def split: if_splits)
  have "rmt_block img ?bs recs v5 (ucast vb + word_of_nat j) = Some (pieces ! j)" if j: "j < length pieces" for j
  proof -
    obtain r block where r: "r \<in> set recs" "rec_covers r (unat vb + j)" "value_block v5 block (pieces ! j)" "length block = ?bs"
      "bytes_at img ((unat (startblock r) + (unat vb + j - unat (startoff r))) * ?bs) block"
      using at [OF j] by blast
    have l: "unat (ucast vb + word_of_nat j :: u64) = unat vb + j"
      using unat_less_pow [of vb] j pieces(2) by (subst unat_add_exact) (simp_all add: unat_ucast_widen unat_of_nat)
    obtain fsb where fsb: "map_logical recs (ucast vb + word_of_nat j) = Some fsb"
      "unat fsb = unat (startblock r) + (unat vb + j - unat (startoff r))"
      using map_logical_covered [OF assms(2) disj r(1)] r(2) unfolding l [symmetric] by blast
    have "unat fsb * ?bs + ?bs \<le> USIZE_MAX"
      using r(4,5) assms(3) by (simp add: fsb(2) bytes_at_iff)
    then have "block_bytes img ?bs fsb = Some block"
      using r(4,5) by (simp add: block_bytes_def uchecked_mul_def uchecked_add_def fsb(2) [symmetric] bytes_at_range)
    then show ?thesis
      using fsb(1) value_block_body [OF r(3)] by (auto simp: rmt_block_def)
  qed
  note loop = remote_loop_stored [OF this pos(2), where out = "[]" and fuel = "length val" and valuelen = "length val"]
  then have "remote_loop (length val) img ?bs recs (length val) v5 (ucast vb) [] = Some val"
    using pieces(1) by simp
  then show ?thesis
    using pos by (simp add: read_remote_value_def Let_def rmt_payload_def RMT_HDR_LEN_def split: if_splits)
qed

lemma leaf_entry_read:
  assumes "leaf_entry_stored img sb recs v5 block h i x" and "list_all rec_ok recs" and "length img \<le> USIZE_MAX"
  shows "leaf_entry img sb block recs v5 h i = Some x"
proof -
  let ?n = "length (xa_name x)" and ?v = "length (xa_value x)"
  obtain hash nameidx flags pad where hash: "length hash = 4" and ni: "nameidx < 2 ^ 16"
    and e: "bytes_at block (h + i * 8) (hash @ be_bytes 2 nameidx @ [flags, pad])"
    and nm: "bytes_at block nameidx (leaf_name_bytes x)"
    and ns: "(xa_namespace x = Trusted) = (flags AND 2 \<noteq> 0)" "(xa_namespace x = Security) = (flags AND 2 = 0 \<and> flags AND 4 \<noteq> 0)"
    and inc: "xa_incomplete x = (flags AND ATTR_INCOMPLETE \<noteq> 0)" "flags AND ATTR_LOCAL \<noteq> 0 \<longleftrightarrow> xa_storage x = LeafLocal"
    using assms(1) by (auto simp: leaf_entry_stored_def attr_flag_defs)
  note fl = leaf_flags [OF ns, symmetric] inc
  have n: "unat (word_of_nat ?n :: u8) = ?n" using assms(1) by (simp add: leaf_entry_stored_def unat_of_nat)
  have idx: "unat (be_u16 block (h + i * 8 + 4)) = nameidx" "u8_at block (h + i * 8 + 6) = flags"
    using e ni hash bytes_at_be_nat(1) [of block "h + i * 8 + 4" nameidx] bytes_at_u8 [of block "h + i * 8 + 6" flags "[pad]"]
    by (simp_all add: bytes_at_append add.commute del: be_bytes.simps)
  have ok: "leaf_value_ok img sb recs v5 x" using assms(1) by (simp add: leaf_entry_stored_def)
  show ?thesis
  proof (cases "xa_storage x")
    case Shortform
    then show ?thesis using ok by (simp add: leaf_value_ok_def)
  next
    case LeafLocal
    then have v: "?v < 2 ^ 16" using ok by (simp add: leaf_value_ok_def)
    have "bytes_at block nameidx (be_bytes 2 ?v)" "bytes_at block (nameidx + 2) [word_of_nat ?n]"
      "bytes_at block (nameidx + 3) (xa_name x)" "bytes_at block (nameidx + 3 + ?n) (xa_value x)"
      using nm LeafLocal bytes_at_append [of block "nameidx + 2" "[word_of_nat ?n]" "xa_name x @ xa_value x"]
      by (simp_all add: leaf_name_bytes_def bytes_at_append numeral_3_eq_3 del: be_bytes.simps)
    then show ?thesis
      using LeafLocal fl n idx bytes_at_be_nat(1) [of block nameidx ?v] v bytes_at_u8 [of block "nameidx + 2"]
      by (simp add: leaf_entry_def Let_def ATTR_LEAF_ENTRY_LEN_def bytes_at_range del: be_bytes.simps)
  next
    case (LeafRemote vb)
    then have rem: "remote_stored img sb recs v5 vb (xa_value x)" using ok by (simp add: leaf_value_ok_def)
    then have v: "?v < 2 ^ 32" by (simp add: remote_stored_def)
    have "bytes_at block nameidx (be_bytes 4 (unat vb))" "bytes_at block (nameidx + 4) (be_bytes 4 ?v)"
      "bytes_at block (nameidx + 8) [word_of_nat ?n]" "bytes_at block (nameidx + 9) (xa_name x)"
      using nm LeafRemote bytes_at_append [of block "nameidx + 8" "[word_of_nat ?n]" "xa_name x"]
      by (simp_all add: leaf_name_bytes_def bytes_at_append add.commute del: be_bytes.simps)
    then show ?thesis
      using LeafRemote fl n idx bytes_at_be(2) [of block nameidx vb] bytes_at_be_nat(2) [of block "nameidx + 4" ?v] v
        bytes_at_u8 [of block "nameidx + 8"] remote_stored_read [OF rem assms(2,3)]
      by (simp add: leaf_entry_def Let_def ATTR_LEAF_ENTRY_LEN_def bytes_at_range del: be_bytes.simps)
  qed
qed

text \<open>
  A leaf block that lists exactly the attributes \<open>xs\<close>, v5 or v4: magic, number of entries, and the entry
  array behind a header of 80 or 32 bytes; and what a block of the fork contributes.
\<close>

definition leaf_stored :: "bytes \<Rightarrow> superblock \<Rightarrow> bmbt_rec list \<Rightarrow> bool \<Rightarrow> bytes \<Rightarrow> xattr list \<Rightarrow> bool" where
  "leaf_stored img sb recs v5 block xs \<longleftrightarrow>
    bytes_at block 8 (if v5 then [0x3b, 0xee] else [0xfb, 0xee]) \<and> length xs < 2 ^ 16 \<and>
    bytes_at block (if v5 then 56 else 12) (be_bytes 2 (length xs)) \<and>
    (\<forall>i < length xs. leaf_entry_stored img sb recs v5 block (if v5 then 80 else 32) i (xs ! i))"

definition attr_block_at :: "bytes \<Rightarrow> superblock \<Rightarrow> bmbt_rec list \<Rightarrow> nat \<Rightarrow> xattr list \<Rightarrow> bool" where
  "attr_block_at img sb recs n xs \<longleftrightarrow>
    (\<exists>block. get_range img (n * unat (sb_blocksize sb)) (n * unat (sb_blocksize sb) + unat (sb_blocksize sb)) = Some block \<and>
      (\<not> bytes_at block 8 [0x3b, 0xee] \<and> \<not> bytes_at block 8 [0xfb, 0xee] \<and> xs = [] \<or>
       (\<exists>v5. leaf_stored img sb recs v5 block xs)))"

lemma leaf_kind_bytes:
  "bytes_at block 8 (if v5 then [0x3b, 0xee] else [0xfb, 0xee]) \<Longrightarrow> leaf_kind block = Some v5"
  "\<not> bytes_at block 8 [0x3b, 0xee] \<Longrightarrow> \<not> bytes_at block 8 [0xfb, 0xee] \<Longrightarrow> leaf_kind block = None"
proof -
  have m: "be_bytes 2 (unat ATTR3_LEAF_MAGIC) = [0x3b, 0xee]" "be_bytes 2 (unat ATTR_LEAF_MAGIC) = [0xfb, 0xee]"
    by (simp_all add: ATTR3_LEAF_MAGIC_def ATTR_LEAF_MAGIC_def be_bytes_numeral)
  have ne: "ATTR_LEAF_MAGIC \<noteq> ATTR3_LEAF_MAGIC" "ATTR3_LEAF_MAGIC \<noteq> 0" "ATTR_LEAF_MAGIC \<noteq> 0"
    by (simp_all add: ATTR3_LEAF_MAGIC_def ATTR_LEAF_MAGIC_def)
  show "leaf_kind block = Some v5" if "bytes_at block 8 (if v5 then [0x3b, 0xee] else [0xfb, 0xee])"
    using that bytes_at_be(1) [of block 8 ATTR3_LEAF_MAGIC] bytes_at_be(1) [of block 8 ATTR_LEAF_MAGIC] ne(1)
    unfolding m by (simp add: leaf_kind_def Let_def LEAF_MAGIC_OFF_def split: if_splits)
  show "leaf_kind block = None" if "\<not> bytes_at block 8 [0x3b, 0xee]" "\<not> bytes_at block 8 [0xfb, 0xee]"
  proof (cases "10 \<le> length block")
    case True
    then have "be_u16 block 8 \<noteq> ATTR3_LEAF_MAGIC" "be_u16 block 8 \<noteq> ATTR_LEAF_MAGIC"
      using bytes_at_be_u16 [of 8 block] that unfolding m [symmetric] by auto
    then show ?thesis by (simp add: leaf_kind_def Let_def LEAF_MAGIC_OFF_def)
  next
    case False
    then have "be_u16 block 8 = 0" by (simp add: be_oob)
    then show ?thesis using ne by (simp add: leaf_kind_def Let_def LEAF_MAGIC_OFF_def)
  qed
qed

definition attr_blocks :: "bmbt_rec list \<Rightarrow> nat list" where
  "attr_blocks recs = concat (map (\<lambda>r. [unat (startblock r)..<unat (startblock r) + unat (blockcount r)]) recs)"

lemma map_filter_all: "(\<And>i. i < n \<Longrightarrow> f i = Some (g i)) \<Longrightarrow> List.map_filter f [0..<n] = map g [0..<n]"
  by (induction n) (simp_all add: map_filter_def)

lemma parse_leaf_block_stored:
  assumes "leaf_stored img sb recs v5 block xs" and "list_all rec_ok recs" and "length img \<le> USIZE_MAX"
  shows "parse_leaf_block img sb block recs v5 out = out @ xs"
proof -
  let ?h = "if v5 then LEAF_HDR_LEN else LEAF_HDR_LEN_V4"
  let ?c = "if v5 then LEAF_COUNT_OFF else LEAF_COUNT_OFF_V4"
  have e: "leaf_entry_stored img sb recs v5 block ?h i (xs ! i)" if "i < length xs" for i
    using assms(1) that by (cases v5) (simp_all add: leaf_stored_def LEAF_HDR_LEN_def LEAF_HDR_LEN_V4_def)
  have c: "unat (be_u16 block ?c) = length xs"
    using assms(1) bytes_at_be_nat(1) [of block ?c "length xs"]
    by (simp add: leaf_stored_def LEAF_COUNT_OFF_def LEAF_COUNT_OFF_V4_def del: be_bytes.simps split: if_splits)
  have "?h + length xs * 8 \<le> length block" if "0 < length xs"
  proof -
    have "?h + (length xs - 1) * 8 + 8 \<le> length block"
      using e [of "length xs - 1"] that by (auto simp: leaf_entry_stored_def bytes_at_iff)
    then show ?thesis using that by (cases "length xs") auto
  qed
  then have m: "min (length xs) ((length block - ?h) div 8) = length xs"
    by (cases "length xs = 0") (auto simp: min_def not_le less_eq_div_iff_mult_less_eq)
  have "List.map_filter (leaf_entry img sb block recs v5 ?h) [0..<length xs] = xs"
    using map_filter_all [of "length xs" _ "\<lambda>i. xs ! i"] leaf_entry_read [OF e assms(2,3)] by (simp add: map_nth)
  then show ?thesis
    using c m by (cases v5) (simp_all add: parse_leaf_block_def ATTR_LEAF_ENTRY_LEN_def)
qed

lemma leaf_fork_block_stored:
  assumes "attr_block_at img sb recs (unat (startblock r) + i) xs" and "rec_ok r" and "i < unat (blockcount r)"
    and "length img \<le> USIZE_MAX" and "list_all rec_ok recs"
  shows "leaf_fork_block img sb recs r i out = out @ xs"
proof -
  let ?n = "unat (startblock r) + i" and ?bs = "unat (sb_blocksize sb)"
  obtain block where blk: "get_range img (?n * ?bs) (?n * ?bs + ?bs) = Some block"
    and kind: "leaf_kind block = None \<and> xs = [] \<or> (\<exists>v5. leaf_kind block = Some v5 \<and> leaf_stored img sb recs v5 block xs)"
    using assms(1) leaf_kind_bytes unfolding attr_block_at_def leaf_stored_def by meson
  have "?n * ?bs + ?bs \<le> USIZE_MAX" using blk assms(4) by (simp add: get_range_Some_iff)
  moreover have "unat (startblock r) < 2 ^ 52" "i < 2 ^ 21" using assms(2,3) by (auto simp: rec_ok_def)
  then have "unat (wsat_add (startblock r) (word_of_nat i)) = ?n" by (simp add: unat_wsat_add unat_of_nat)
  ultimately have "block_bytes img ?bs (wsat_add (startblock r) (word_of_nat i)) = Some block"
    using blk by (simp add: block_bytes_def uchecked_mul_def uchecked_add_def)
  then show ?thesis
    using kind assms(4,5) by (auto simp: leaf_fork_block_def parse_leaf_block_stored)
qed

lemma parse_leaf_fork_stored:
  assumes "list_all rec_ok rs" and "length img \<le> USIZE_MAX"
    and "\<forall>n \<in> set (attr_blocks rs). attr_block_at img sb recs n (content n)" and "list_all rec_ok recs"
  shows "fold (\<lambda>r out. fold (leaf_fork_block img sb recs r) [0..<unat (blockcount r)] out) rs out =
    out @ concat (map content (attr_blocks rs))"
  using assms(1,3)
proof (induction rs arbitrary: out)
  case (Cons r rs)
  have "fold (leaf_fork_block img sb recs r) [0..<k] out =
      out @ concat (map content [unat (startblock r)..<unat (startblock r) + k])" if "k \<le> unat (blockcount r)" for k
    using that
  proof (induction k)
    case (Suc k)
    then have "leaf_fork_block img sb recs r k out = out @ content (unat (startblock r) + k)" for out
      using Cons.prems assms(2,4) by (intro leaf_fork_block_stored) (auto simp: attr_blocks_def)
    with Suc show ?case by simp
  qed simp
  then show ?case
    using Cons by (simp add: attr_blocks_def)
qed (simp add: attr_blocks_def)

section \<open>Properties\<close>

text \<open>
  C25: A stored short-form attribute fork is read back exactly: names, values, namespaces and the
  incomplete flag, for every flag byte that encodes them.
\<close>

theorem xattr_shortform_roundtrip:
  assumes "list_all2 xattr_sf_stored xs bss" and "length xs < 256"
  shows "parse_shortform ([t1, t2, word_of_nat (length xs), pad] @ concat bss @ rest) = xs"
proof -
  let ?h = "[t1, t2, word_of_nat (length xs), pad]"
  have "length ?h = 4" by simp
  then have "xattr_sf_loop (?h @ concat bss @ rest) 4 (length xs) = xs"
    using xsf.walk_stored [OF assms(1), of ?h rest] by (simp only:)
  moreover have "unat (u8_at (?h @ concat bss @ rest) 2) = length xs"
    using assms(2) by (simp add: u8_at_nth unat_of_nat)
  ultimately show ?thesis by (simp add: parse_shortform_def)
qed

theorem xattr_shortform_roundtrip_witness:
  "parse_shortform ([0, 9, word_of_nat 1, 0] @ concat [[1, 2, 0x82, 0x61, 7, 8]] @ [0]) =
    [\<lparr>xa_name = [0x61], xa_namespace = Trusted, xa_value = [7, 8], xa_storage = Shortform, xa_incomplete = True\<rparr>]"
  using xattr_shortform_roundtrip [of "[\<lparr>xa_name = [0x61], xa_namespace = Trusted, xa_value = [7, 8],
      xa_storage = Shortform, xa_incomplete = True\<rparr>]" "[[1, 2, 0x82, 0x61, 7, 8]]" 0 9 0 "[0]"]
  by (simp add: xattr_sf_stored_def namespace_from_flags_def attr_flag_defs)

text \<open>
  A remote value is reassembled: when consecutive logical blocks lead to value blocks whose bodies
  hold at least the value, the result is the value, without the block headers.
\<close>

lemma remote_value_roundtrip:
  assumes "\<And>j. j < length bodies \<Longrightarrow>
      rmt_block img (unat (sb_blocksize sb)) recs v5 (ucast valueblk + word_of_nat j) = Some (bodies ! j)"
    and "0 < rmt_payload v5 (unat (sb_blocksize sb))"
    and "valuelen \<le> MAX_VALUE_LEN" and "valuelen \<le> length (concat bodies)"
  shows "read_remote_value img sb recs valueblk valuelen v5 = take valuelen (concat bodies)"
proof -
  have "remote_loop valuelen img (unat (sb_blocksize sb)) recs valuelen v5 (ucast valueblk) [] =
      Some (take valuelen (concat bodies))"
    using remote_loop_stored [OF assms(1,2), where out = "[]" and fuel = valuelen and valuelen = valuelen] assms(4)
    by simp
  then show ?thesis
    using assms(2,3) by (simp add: read_remote_value_def Let_def rmt_payload_def RMT_HDR_LEN_def split: if_splits)
qed

text \<open>
  The logical blocks of a fork whose extents do not overlap are mapped exactly: a covered block to
  its place in the extent that covers it, any other to nothing.
\<close>

lemma map_logical_exact:
  assumes "list_all rec_ok recs" and "recs_disjoint recs"
  shows "(map_logical recs l = None \<longleftrightarrow> (\<forall>r \<in> set recs. \<not> rec_covers r (unat l))) \<and>
    (\<forall>r \<in> set recs. rec_covers r (unat l) \<longrightarrow> (\<exists>fsb. map_logical recs l = Some fsb \<and>
      unat fsb = unat (startblock r) + (unat l - unat (startoff r))))"
  using map_logical_uncovered [OF assms(1), of l] map_logical_covered [OF assms, of _ l] by blast

text \<open>
  An attribute fork is refused exactly when the inode has one and its format is neither absent,
  inline nor extents; the error names the format.
\<close>

lemma list_xattrs_refused:
  "list_xattrs img sb ino = Inl e \<longleftrightarrow> di_forkoff ino \<noteq> 0 \<and> 3 \<le> di_aformat ino \<and>
     e = UnsupportedAttrFork (di_aformat ino)
       (if di_aformat ino = 3 then ''btree attribute fork (di_aformat = 3)'' else ''unrecognised di_aformat'')"
proof -
  have "3 \<le> a \<longleftrightarrow> a \<noteq> 0 \<and> a \<noteq> 1 \<and> a \<noteq> 2" for a :: u8
    by (auto simp: word_le_nat_alt word_unat_eq_iff)
  then show ?thesis
    by (auto simp: list_xattrs_def aformat_defs Let_def)
qed

text \<open>
  No leaf block, however hostile, adds more than one attribute per eight bytes; every name is
  shorter than 256 bytes, a local value lies in the block with its name, and a remote value stays under
  the ceiling.
\<close>

lemma leaf_block_bounded:
  "\<exists>xs. parse_leaf_block img sb block recs v5 out = out @ xs \<and> length xs * 8 \<le> length block \<and>
     list_all (\<lambda>x. length (xa_name x) < 256 \<and>
       (case xa_storage x of
          Shortform \<Rightarrow> False
        | LeafLocal \<Rightarrow> length (xa_name x) + length (xa_value x) \<le> length block
        | LeafRemote vb \<Rightarrow> length (xa_value x) \<le> MAX_VALUE_LEN)) xs"
proof -
  obtain xs where xs: "parse_leaf_block img sb block recs v5 out = out @ xs" "length xs * 8 \<le> length block"
    "\<forall>x \<in> set xs. \<exists>h i. leaf_entry img sb block recs v5 h i = Some x"
    using parse_leaf_block_parts by blast
  then show ?thesis
    using leaf_entry_bounds [of img sb block recs v5] by (fastforce simp: list_all_iff)
qed

text \<open>
  C26: A stored attribute fork of leaf blocks is listed exactly: block by block of its packed extents and
  entry by entry of each leaf, v5 or v4, local values from the heap of the leaf and remote values from the
  blocks the extents give for the logical blocks they are spread over; blocks of the fork that are not
  leaves contribute nothing.
\<close>

theorem xattr_leaf_roundtrip:
  assumes "list_all rec_ok recs" and "length img \<le> USIZE_MAX"
    and "\<forall>n \<in> set (attr_blocks recs). attr_block_at img sb recs n (content n)"
    and "di_forkoff ino \<noteq> 0" and "di_aformat ino = 2" and "unat (di_aextents ino) = length recs"
    and "di_data_fork ino = data @ concat (map pack recs) @ slack" and "length data = 8 * unat (di_forkoff ino)"
  shows "list_xattrs img sb ino = Inr (concat (map content (attr_blocks recs)))"
proof -
  have "8 * unat (di_forkoff ino) < USIZE_MAX" using unat_u8 [of "di_forkoff ino"] by (simp add: USIZE_MAX_def)
  then have "attr_fork ino = concat (map pack recs) @ slack"
    using assms(7,8) by (simp add: attr_fork_def usat_mul_def get_from_def mult.commute)
  then have "read_extents (attr_fork ino) (ucast (di_aextents ino)) = recs"
    using recs.walk_stored [OF packs_stored [OF assms(1)], of "[]" slack] assms(6)
    by (simp add: read_extents_def unat_ucast_widen)
  then show ?thesis
    using parse_leaf_fork_stored [OF assms(1-3,1), of "[]"] assms(4,5)
    by (simp add: list_xattrs_def parse_leaf_fork_def aformat_defs)
qed

text \<open>
  A v5 fork of two blocks of 128 bytes: a leaf with a local and a remote attribute in block 1, and the
  remote value, the logical block 5 of the fork, in block 0.
\<close>

definition xattr_demo_leaf :: bytes where
  "xattr_demo_leaf = replicate 8 0 @ [0x3b, 0xee] @ replicate 46 0 @ [0, 2] @ replicate 22 0 @
     [0, 0, 0, 0, 0, 96, 3, 0] @ [0, 0, 0, 0, 0, 101, 0x84, 0] @ [0, 1, 1, 0x61, 7] @ [0, 0, 0, 5, 0, 0, 0, 2, 1, 0x62] @ replicate 17 0"

definition xattr_demo_piece :: bytes where
  "xattr_demo_piece = [5, 6] @ replicate 70 0"

definition xattr_demo_value :: bytes where
  "xattr_demo_value = [0x58, 0x41, 0x52, 0x4d] @ replicate 52 0 @ xattr_demo_piece"

definition xattr_demo_image :: bytes where
  "xattr_demo_image = xattr_demo_value @ xattr_demo_leaf"

definition xattr_demo_sb :: superblock where
  "xattr_demo_sb = two_slots\<lparr>sb_blocksize := 128\<rparr>"

definition xattr_demo_recs :: "bmbt_rec list" where
  "xattr_demo_recs = [\<lparr>startoff = 0, startblock = 1, blockcount = 1, unwritten = False\<rparr>,
     \<lparr>startoff = 5, startblock = 0, blockcount = 1, unwritten = False\<rparr>]"

definition xattr_demo_attrs :: "xattr list" where
  "xattr_demo_attrs =
     [\<lparr>xa_name = [0x61], xa_namespace = Trusted, xa_value = [7], xa_storage = LeafLocal, xa_incomplete = False\<rparr>,
      \<lparr>xa_name = [0x62], xa_namespace = Security, xa_value = [5, 6], xa_storage = LeafRemote 5, xa_incomplete = True\<rparr>]"

lemma xattr_demo_lengths: "length xattr_demo_leaf = 128" "length xattr_demo_value = 128" "length xattr_demo_piece = 72"
  by (simp_all add: xattr_demo_leaf_def xattr_demo_value_def xattr_demo_piece_def)

lemma xattr_demo_blocks:
  "get_range xattr_demo_image 0 128 = Some xattr_demo_value" "get_range xattr_demo_image 128 256 = Some xattr_demo_leaf"
  "attr_blocks xattr_demo_recs = [1, 0]" "unat (sb_blocksize xattr_demo_sb) = 128"
  by (simp_all add: get_range_def xattr_demo_image_def xattr_demo_lengths attr_blocks_def xattr_demo_recs_def upt_rec
      xattr_demo_sb_def)

lemma xattr_demo_remote: "remote_stored xattr_demo_image xattr_demo_sb xattr_demo_recs True 5 [5, 6]"
proof -
  have "value_block True xattr_demo_value xattr_demo_piece"
    unfolding value_block_def by (simp add: xattr_demo_value_def exI [of _ "replicate 52 0"])
  moreover have "bytes_at xattr_demo_image 0 xattr_demo_value"
    using xattr_demo_blocks(1) by (simp add: bytes_at_def xattr_demo_lengths)
  moreover have "recs_disjoint xattr_demo_recs" by (auto simp: recs_disjoint_def xattr_demo_recs_def)
  moreover have "concat [xattr_demo_piece] = [5, 6] @ replicate 70 0" by (simp add: xattr_demo_piece_def)
  ultimately show ?thesis
    unfolding remote_stored_def xattr_demo_blocks(4)
    by (intro conjI exI [of _ "[xattr_demo_piece]"] exI [of _ "replicate 70 0"])
      (auto simp: xattr_demo_recs_def rec_covers_def xattr_demo_lengths)
qed

lemma xattr_demo_stored:
  "leaf_stored xattr_demo_image xattr_demo_sb xattr_demo_recs True xattr_demo_leaf xattr_demo_attrs"
proof -
  let ?st = "leaf_entry_stored xattr_demo_image xattr_demo_sb xattr_demo_recs True xattr_demo_leaf 80"
  have "?st 0 (xattr_demo_attrs ! 0)"
    unfolding leaf_entry_stored_def
    by (intro conjI exI [of _ "[0, 0, 0, 0]"] exI [of _ 96] exI [of _ 3] exI [of _ 0])
      (simp_all add: xattr_demo_attrs_def leaf_value_ok_def leaf_name_bytes_def bytes_at_iff xattr_demo_leaf_def
        be_bytes_numeral)
  moreover have "?st 1 (xattr_demo_attrs ! 1)"
    unfolding leaf_entry_stored_def
    by (intro conjI exI [of _ "[0, 0, 0, 0]"] exI [of _ 101] exI [of _ "0x84"] exI [of _ 0])
      (simp_all add: xattr_demo_attrs_def leaf_value_ok_def leaf_name_bytes_def bytes_at_iff xattr_demo_remote,
       simp_all add: xattr_demo_leaf_def be_bytes_numeral)
  moreover have "length xattr_demo_attrs = 2" by (simp add: xattr_demo_attrs_def)
  moreover have "bytes_at xattr_demo_leaf 8 [0x3b, 0xee]" "bytes_at xattr_demo_leaf 56 (be_bytes 2 2)"
    by (simp_all add: bytes_at_iff xattr_demo_leaf_def be_bytes_numeral)
  ultimately show ?thesis by (auto simp: leaf_stored_def less_2_cases_iff)
qed

theorem xattr_leaf_roundtrip_witness:
  "list_xattrs xattr_demo_image xattr_demo_sb
     (undefined\<lparr>di_forkoff := 1, di_aformat := 2, di_aextents := 2,
        di_data_fork := replicate 8 0 @ concat (map pack xattr_demo_recs) @ [0]\<rparr>) = Inr xattr_demo_attrs"
proof -
  let ?ino = "undefined\<lparr>di_forkoff := 1, di_aformat := 2, di_aextents := 2,
        di_data_fork := replicate 8 0 @ concat (map pack xattr_demo_recs) @ [0]\<rparr>"
  let ?content = "\<lambda>n. if n = 1 then xattr_demo_attrs else []"
  have "attr_block_at xattr_demo_image xattr_demo_sb xattr_demo_recs 1 xattr_demo_attrs"
    using xattr_demo_stored xattr_demo_blocks by (auto simp: attr_block_at_def)
  moreover have "\<not> bytes_at xattr_demo_value 8 [0x3b, 0xee]" "\<not> bytes_at xattr_demo_value 8 [0xfb, 0xee]"
    by (simp_all add: bytes_at_iff xattr_demo_value_def)
  then have "attr_block_at xattr_demo_image xattr_demo_sb xattr_demo_recs 0 []"
    using xattr_demo_blocks by (auto simp: attr_block_at_def)
  ultimately have *: "\<forall>n \<in> set (attr_blocks xattr_demo_recs).
      attr_block_at xattr_demo_image xattr_demo_sb xattr_demo_recs n (?content n)"
    using xattr_demo_blocks(3) by simp
  have "list_xattrs xattr_demo_image xattr_demo_sb ?ino = Inr (concat (map ?content (attr_blocks xattr_demo_recs)))"
    by (rule xattr_leaf_roundtrip [OF _ _ *, where data = "replicate 8 0" and slack = "[0]"])
      (simp_all add: xattr_demo_image_def xattr_demo_lengths USIZE_MAX_def, simp_all add: rec_ok_def xattr_demo_recs_def)
  then show ?thesis by (simp add: xattr_demo_blocks(3))
qed

end
