(* ===== verification/Xfs_Vfs.thy ===== *)
theory Xfs_Vfs
  imports Xfs_Dir Xfs_Xattr
begin

text \<open>
  The mount adapter of \<open>core/src/vfs.rs\<close>: the operations of \<open>impl FileSystem for XfsFs\<close> over the
  reader. The types it exchanges belong to the \<open>forensic_vfs\<close> crate: the constructors and fields the
  adapter uses are the datatypes and records below, everything else of an identity or a stream is the
  parameter of \<open>OtherId\<close> and \<open>OtherStream\<close>. Parameters of the operations are the debug texts of an
  identity (\<open>dbg_id\<close>), of a stream (\<open>dbg_stream\<close>) and of bytes (\<open>dbg\<close>), the sniff window
  (\<open>has_magic\<close>) and the source that is mounted (\<open>src_len\<close>, \<open>src_read\<close>). A stream of results is the
  list of its results. The flags of a run are the default of the crate and are not represented.

  The lemmas show that consecutive reads put the file or the attribute together, which attribute a
  stream stands for, that stepwise lookups resolve what the path reader resolves, and how the errors
  of the reader come out.
\<close>

section \<open>The contract types\<close>

datatype 'i file_id = Opaque u64 | OtherId 'i
datatype 's stream_id = DefaultStream | XattrStream u16 | OtherStream 's

datatype 'e vfs_error =
    Unsupported string string
  | OutOfRange string u64 u64 u64
  | Decode string u64 string bytes
  | SourceError 'e

datatype confidence = ConfYes string | ConfNo
datatype node_kind = NodeFile | NodeDir | NodeSymlink | NodeDevice | NodeOther
datatype residency = Resident u32 | NonResident
datatype stream_kind = DataKind | XattrKind
datatype allocation = Allocated
datatype time_source = InodeTable
datatype time_resolution = Nanos
datatype zone_policy = ZoneUtc
datatype fs_kind = KindXfs

record time_stamp =
  unix_nanos :: int
  ts_source :: time_source
  ts_resolution :: time_resolution

record macb_times =
  tm_modified :: "time_stamp option"
  tm_accessed :: "time_stamp option"
  tm_changed :: "time_stamp option"
  tm_born :: "time_stamp option"

record 'i vfs_dir_entry =
  vd_name :: bytes
  vd_id :: "'i file_id"
  vd_kind :: node_kind

record run_info =
  ri_image_offset :: u64
  ri_len :: u64
  ri_alloc :: allocation

record 's stream_info =
  si_id :: "'s stream_id"
  si_name :: "bytes option"
  si_size :: u64
  si_residency :: residency
  si_kind :: stream_kind

record 's fs_meta =
  fm_ino :: u64
  fm_kind :: node_kind
  fm_allocated :: allocation
  fm_size :: u64
  fm_nlink :: u32
  fm_uid :: "u32 option"
  fm_gid :: "u32 option"
  fm_mode :: "u32 option"
  fm_times :: macb_times
  fm_streams :: "'s stream_info list"
  fm_residency :: residency
  fm_link_target :: "bytes option"

record sector_sizes =
  ss_logical :: u32
  ss_physical :: u32
  ss_cluster_or_block :: u32

record xfs_fs =
  fs_image :: bytes
  fs_sb :: superblock

section \<open>Opening\<close>

definition XFSB_MAGIC :: bytes where "XFSB_MAGIC = [0x58, 0x46, 0x53, 0x42]"

definition xfs_probe :: "(nat \<Rightarrow> bytes \<Rightarrow> bool) \<Rightarrow> confidence" where
  "xfs_probe has_magic =
     (if has_magic 0 XFSB_MAGIC then ConfYes ''XFS XFSB superblock magic'' else ConfNo)"

definition map_err :: "(bytes \<Rightarrow> string) \<Rightarrow> xfs_error \<Rightarrow> 'e vfs_error" where
  "map_err dbg e = (case e of
     Truncated s need have \<Rightarrow> OutOfRange ''xfs image slice'' (word_of_nat need) 1 (word_of_nat have)
   | other \<Rightarrow> Decode ''xfs'' 0 (error_display dbg other) [])"

text \<open>
  \<open>src_read off buf\<close> is the result of the source for a buffer holding \<open>buf\<close>: the count it returns and
  the buffer afterwards. \<open>u64\<close> and \<open>usize\<close> have the same width, so the capacity is the length.
\<close>

definition fs_open :: "(bytes \<Rightarrow> string) \<Rightarrow> (bytes \<Rightarrow> u32) \<Rightarrow> u64 \<Rightarrow> (u64 \<Rightarrow> bytes \<Rightarrow> 'e vfs_error + (nat \<times> bytes))
    \<Rightarrow> 'e vfs_error + xfs_fs" where
  "fs_open dbg crcf src_len src_read =
    (let cap = unat src_len;
         buf = replicate cap 0
     in and_then (src_read 0 buf) (\<lambda>(n, buf').
          let img = take n buf' in
          and_then (result_map_err (map_err dbg) (superblock_parse crcf img)) (\<lambda>sb.
            Inr \<lparr>fs_image = img, fs_sb = sb\<rparr>)))"

section \<open>Helpers\<close>

definition ino_of :: "('i file_id \<Rightarrow> string) \<Rightarrow> 'i file_id \<Rightarrow> 'e vfs_error + u64" where
  "ino_of dbg_id i = (case i of Opaque ino \<Rightarrow> Inr ino | other \<Rightarrow> Inl (Unsupported ''xfs file-id'' (dbg_id other)))"

definition require_default_stream :: "('s stream_id \<Rightarrow> string) \<Rightarrow> 's stream_id \<Rightarrow> 'e vfs_error + unit" where
  "require_default_stream dbg_stream s =
     (case s of DefaultStream \<Rightarrow> Inr () | other \<Rightarrow> Inl (Unsupported ''xfs stream'' (dbg_stream other)))"

definition fs_inode :: "(bytes \<Rightarrow> string) \<Rightarrow> (bytes \<Rightarrow> u32) \<Rightarrow> ('i file_id \<Rightarrow> string) \<Rightarrow> xfs_fs \<Rightarrow> 'i file_id \<Rightarrow> 'e vfs_error + inode" where
  "fs_inode dbg crcf dbg_id fs i =
     and_then (ino_of dbg_id i) (\<lambda>ino.
       result_map_err (map_err dbg) (read_inode crcf (fs_sb fs) (fs_image fs) ino))"

fun node_kind_of :: "file_type \<Rightarrow> node_kind" where
  "node_kind_of Regular = NodeFile"
| "node_kind_of Directory = NodeDir"
| "node_kind_of Symlink = NodeSymlink"
| "node_kind_of CharDevice = NodeDevice"
| "node_kind_of BlockDevice = NodeDevice"
| "node_kind_of Fifo = NodeOther"
| "node_kind_of Socket = NodeOther"
| "node_kind_of (OtherType t) = NodeOther"

text \<open>The \<open>i128\<close> of the code holds every value: the seconds are an \<open>i64\<close>.\<close>

definition to_ts :: "xfs_timestamp \<Rightarrow> time_stamp" where
  "to_ts ts = \<lparr>unix_nanos = secs ts * 1000000000 + uint (nsecs ts), ts_source = InodeTable, ts_resolution = Nanos\<rparr>"

text \<open>\<open>u32::try_from(len).unwrap_or(u32::MAX)\<close> and \<open>u16::try_from(i).unwrap_or(u16::MAX)\<close>.\<close>

definition len_u32 :: "nat \<Rightarrow> u32" where
  "len_u32 n = (if n < 2 ^ 32 then word_of_nat n else - 1)"

definition index_u16 :: "nat \<Rightarrow> u16" where
  "index_u16 n = (if n < 2 ^ 16 then word_of_nat n else - 1)"

definition entry_kind :: "(bytes \<Rightarrow> u32) \<Rightarrow> xfs_fs \<Rightarrow> u64 \<Rightarrow> node_kind" where
  "entry_kind crcf fs ino = (case read_inode crcf (fs_sb fs) (fs_image fs) ino of
     Inl e \<Rightarrow> NodeOther | Inr i \<Rightarrow> node_kind_of (inode_file_type i))"

text \<open>Copying the part of a value from \<open>off\<close> on into a buffer: the count and the buffer afterwards.\<close>

definition copy_window :: "bytes \<Rightarrow> u64 \<Rightarrow> bytes \<Rightarrow> nat \<times> bytes" where
  "copy_window val off buf =
    (let start = unat off in
     case get_from val start of
       None \<Rightarrow> (0, buf)
     | Some s \<Rightarrow> let n = min (length s) (length buf) in (n, take n s @ drop n buf))"

section \<open>The file system operations\<close>

definition fs_kind_of :: "xfs_fs \<Rightarrow> fs_kind" where "fs_kind_of fs = KindXfs"
definition fs_root :: "xfs_fs \<Rightarrow> 'i file_id" where "fs_root fs = Opaque (sb_rootino (fs_sb fs))"
definition fs_timestamp_zone :: "xfs_fs \<Rightarrow> zone_policy" where "fs_timestamp_zone fs = ZoneUtc"

definition fs_sector_sizes :: "xfs_fs \<Rightarrow> sector_sizes" where
  "fs_sector_sizes fs = \<lparr>ss_logical = 512, ss_physical = 512, ss_cluster_or_block = sb_blocksize (fs_sb fs)\<rparr>"

definition fs_read_dir :: "(bytes \<Rightarrow> string) \<Rightarrow> (bytes \<Rightarrow> u32) \<Rightarrow> ('i file_id \<Rightarrow> string) \<Rightarrow> xfs_fs \<Rightarrow> 'i file_id
    \<Rightarrow> 'e vfs_error + ('e vfs_error + 'i vfs_dir_entry) list" where
  "fs_read_dir dbg crcf dbg_id fs i =
    and_then (fs_inode dbg crcf dbg_id fs i) (\<lambda>inode.
    and_then (result_map_err (map_err dbg) (sb_read_dir (fs_sb fs) (fs_image fs) inode)) (\<lambda>entries.
      Inr (map (\<lambda>e. Inr \<lparr>vd_name = de_name e, vd_id = Opaque (de_inode e), vd_kind = entry_kind crcf fs (de_inode e)\<rparr>) entries)))"

definition fs_extents :: "(bytes \<Rightarrow> string) \<Rightarrow> (bytes \<Rightarrow> u32) \<Rightarrow> ('i file_id \<Rightarrow> string) \<Rightarrow> ('s stream_id \<Rightarrow> string)
    \<Rightarrow> xfs_fs \<Rightarrow> 'i file_id \<Rightarrow> 's stream_id \<Rightarrow> 'e vfs_error + ('e vfs_error + run_info) list" where
  "fs_extents dbg crcf dbg_id dbg_stream fs i stream =
    and_then (require_default_stream dbg_stream stream) (\<lambda>_.
    and_then (fs_inode dbg crcf dbg_id fs i) (\<lambda>inode.
      let blocksize = ucast (sb_blocksize (fs_sb fs));
          recs = (if di_format inode = Extents then read_extents (di_data_fork inode) (di_nextents inode) else [])
      in Inr (map (\<lambda>r. Inr \<lparr>ri_image_offset = wsat_mul (startblock r) blocksize,
                           ri_len = wsat_mul (blockcount r) blocksize, ri_alloc = Allocated\<rparr>) recs)))"

definition fs_lookup :: "(bytes \<Rightarrow> string) \<Rightarrow> (bytes \<Rightarrow> u32) \<Rightarrow> ('i file_id \<Rightarrow> string) \<Rightarrow> xfs_fs \<Rightarrow> 'i file_id \<Rightarrow> bytes
    \<Rightarrow> 'e vfs_error + 'i file_id option" where
  "fs_lookup dbg crcf dbg_id fs parent name =
    and_then (fs_inode dbg crcf dbg_id fs parent) (\<lambda>inode.
    and_then (result_map_err (map_err dbg) (sb_read_dir (fs_sb fs) (fs_image fs) inode)) (\<lambda>entries.
      Inr (map_option (\<lambda>e. Opaque (de_inode e)) (find (\<lambda>e. de_name e = name) entries))))"

definition fs_meta_of :: "(bytes \<Rightarrow> string) \<Rightarrow> (bytes \<Rightarrow> u32) \<Rightarrow> ('i file_id \<Rightarrow> string) \<Rightarrow> xfs_fs \<Rightarrow> 'i file_id
    \<Rightarrow> 'e vfs_error + 's fs_meta" where
  "fs_meta_of dbg crcf dbg_id fs i =
    and_then (ino_of dbg_id i) (\<lambda>inode_no.
    and_then (result_map_err (map_err dbg) (read_inode crcf (fs_sb fs) (fs_image fs) inode_no)) (\<lambda>inode.
      let resid = (if di_format inode = Local then Resident (len_u32 (length (di_data_fork inode))) else NonResident)
      in Inr \<lparr>fm_ino = inode_no, fm_kind = node_kind_of (inode_file_type inode), fm_allocated = Allocated,
           fm_size = di_size inode, fm_nlink = 1, fm_uid = None, fm_gid = None, fm_mode = Some (ucast (di_mode inode)),
           fm_times = \<lparr>tm_modified = Some (to_ts (di_mtime inode)), tm_accessed = Some (to_ts (di_atime inode)),
             tm_changed = Some (to_ts (di_ctime inode)), tm_born = map_option to_ts (di_crtime inode)\<rparr>,
           fm_streams = [], fm_residency = resid, fm_link_target = None\<rparr>))"

text \<open>The entry pushed for the attribute at index \<open>k\<close>.\<close>

definition xattr_stream :: "nat \<Rightarrow> xattr \<Rightarrow> 's stream_info" where
  "xattr_stream k x =
    (let resid = (case xa_storage x of
           Shortform \<Rightarrow> Resident (len_u32 (length (xa_value x)))
         | LeafLocal \<Rightarrow> Resident (len_u32 (length (xa_value x)))
         | LeafRemote b \<Rightarrow> NonResident)
     in \<lparr>si_id = XattrStream (index_u16 k), si_name = Some (full_name x),
         si_size = word_of_nat (length (xa_value x)), si_residency = resid, si_kind = XattrKind\<rparr>)"

definition fs_data_streams :: "(bytes \<Rightarrow> string) \<Rightarrow> (bytes \<Rightarrow> u32) \<Rightarrow> ('i file_id \<Rightarrow> string) \<Rightarrow> xfs_fs \<Rightarrow> 'i file_id
    \<Rightarrow> 'e vfs_error + 's stream_info list" where
  "fs_data_streams dbg crcf dbg_id fs i =
    and_then (fs_inode dbg crcf dbg_id fs i) (\<lambda>inode.
      let out = [\<lparr>si_id = DefaultStream, si_name = None, si_size = di_size inode,
                  si_residency = NonResident, si_kind = DataKind\<rparr>]
      in and_then (result_map_err (map_err dbg) (list_xattrs (fs_image fs) (fs_sb fs) inode)) (\<lambda>attrs.
           Inr (out @ map (\<lambda>(k, x). xattr_stream k x) (enumerate 0 attrs))))"

definition fs_read_at :: "(bytes \<Rightarrow> string) \<Rightarrow> (bytes \<Rightarrow> u32) \<Rightarrow> ('i file_id \<Rightarrow> string) \<Rightarrow> ('s stream_id \<Rightarrow> string)
    \<Rightarrow> xfs_fs \<Rightarrow> 'i file_id \<Rightarrow> 's stream_id \<Rightarrow> u64 \<Rightarrow> bytes \<Rightarrow> 'e vfs_error + (nat \<times> bytes)" where
  "fs_read_at dbg crcf dbg_id dbg_stream fs i stream off buf =
    and_then (fs_inode dbg crcf dbg_id fs i) (\<lambda>inode.
      case stream of
        XattrStream idx \<Rightarrow>
          and_then (result_map_err (map_err dbg) (list_xattrs (fs_image fs) (fs_sb fs) inode)) (\<lambda>all'.
            case get_at all' (unat idx) of
              None \<Rightarrow> Inl (Unsupported ''xfs xattr index''
                         (''attribute '' @ dec_digits (unat idx) @ '' of '' @ dec_digits (length all')))
            | Some x \<Rightarrow> Inr (copy_window (xa_value x) off buf))
      | _ \<Rightarrow>
          and_then (require_default_stream dbg_stream stream) (\<lambda>_.
          and_then (result_map_err (map_err dbg) (read_file (fs_sb fs) (fs_image fs) inode)) (\<lambda>file.
            Inr (copy_window file off buf))))"

definition fs_read_link :: "(bytes \<Rightarrow> string) \<Rightarrow> (bytes \<Rightarrow> u32) \<Rightarrow> ('i file_id \<Rightarrow> string) \<Rightarrow> xfs_fs \<Rightarrow> 'i file_id \<Rightarrow> nat
    \<Rightarrow> 'e vfs_error + bytes" where
  "fs_read_link dbg crcf dbg_id fs i cap =
    and_then (fs_inode dbg crcf dbg_id fs i) (\<lambda>inode.
      if inode_file_type inode \<noteq> Symlink then Inr []
      else
        and_then
          (if di_format inode = Local then
             let size' = unat (di_size inode);
                 n = min size' (length (di_data_fork inode))
             in Inr (unwrap_or [] (get_range (di_data_fork inode) 0 n))
           else result_map_err (map_err dbg) (read_file (fs_sb fs) (fs_image fs) inode))
          (\<lambda>target. Inr (take cap target)))"

definition fs_deleted :: "xfs_fs \<Rightarrow> 'e vfs_error + 'n list" where "fs_deleted fs = Inr []"
definition fs_unallocated :: "xfs_fs \<Rightarrow> 'e vfs_error + run_info list" where "fs_unallocated fs = Inr []"


section \<open>Positional reads\<close>

text \<open>
  The contract of a positional reader over fixed contents: what a read returns and leaves in the
  buffer. Consecutive reads of any buffer size put the contents together.
\<close>

definition window_of :: "nat \<times> bytes \<Rightarrow> bytes" where
  "window_of r = take (fst r) (snd r)"

locale window_reader =
  fixes contents :: bytes and read :: "u64 \<Rightarrow> bytes \<Rightarrow> nat \<times> bytes"
  assumes read_window: "window_of (read off buf) = take (length buf) (drop (unat off) contents)"
    and read_count: "fst (read off buf) = min (length buf) (length contents - unat off)"
    and read_rest: "drop (fst (read off buf)) (snd (read off buf)) = drop (fst (read off buf)) buf"
begin

lemma read_length: "length (snd (read off buf)) = length buf"
proof -
  have "length (window_of (read off buf)) = fst (read off buf)"
    by (simp add: read_window read_count)
  then have "fst (read off buf) \<le> length (snd (read off buf))"
    by (simp add: window_of_def)
  moreover have "length (snd (read off buf)) - fst (read off buf) = length buf - fst (read off buf)"
    using arg_cong [OF read_rest, of length] by simp
  moreover have "fst (read off buf) \<le> length buf" by (simp add: read_count)
  ultimately show ?thesis by linarith
qed

lemma read_zero_iff: "fst (read off buf) = 0 \<longleftrightarrow> buf = [] \<or> length contents \<le> unat off"
  by (auto simp: read_count min_def)

lemma reads_concat:
  "k * c \<le> 2 ^ 64 \<Longrightarrow>
     concat (map (\<lambda>j. window_of (read (word_of_nat (j * c)) (replicate c 0))) [0..<k]) = take (k * c) contents"
proof (induction k)
  case (Suc k)
  have w: "window_of (read (word_of_nat (k * c)) (replicate c 0)) = take c (drop (k * c) contents)"
  proof (cases "c = 0")
    case False
    then have "k * c < 2 ^ 64" using Suc.prems by simp
    then have "unat (word_of_nat (k * c) :: u64) = k * c" by (simp add: unat_of_nat del: of_nat_mult)
    then show ?thesis by (simp add: read_window)
  qed (simp add: read_window)
  have "take (Suc k * c) contents = take (k * c) contents @ take c (drop (k * c) contents)"
    by (metis add.commute mult_Suc take_add)
  then show ?case using Suc by (simp add: w del: of_nat_mult)
qed simp

end

interpretation window: window_reader val "copy_window val" for val
proof unfold_locales
  fix off buf
  show "window_of (copy_window val off buf) = take (length buf) (drop (unat off) val)"
    by (auto simp: window_of_def copy_window_def get_from_def Let_def min_def)
qed (auto simp: copy_window_def get_from_def Let_def min_def)

section \<open>Lookups and paths\<close>

text \<open>A client that resolves names one at a time.\<close>

fun fs_walk :: "(bytes \<Rightarrow> string) \<Rightarrow> (bytes \<Rightarrow> u32) \<Rightarrow> ('i file_id \<Rightarrow> string) \<Rightarrow> xfs_fs \<Rightarrow> 'i file_id \<Rightarrow> bytes list
    \<Rightarrow> 'e vfs_error + 'i file_id option" where
  "fs_walk dbg crcf dbg_id fs i [] = Inr (Some i)"
| "fs_walk dbg crcf dbg_id fs i (n # ns) =
     and_then (fs_lookup dbg crcf dbg_id fs i n) (\<lambda>r. case r of
       None \<Rightarrow> Inr None | Some j \<Rightarrow> fs_walk dbg crcf dbg_id fs j ns)"

lemma fs_inode_Opaque:
  "fs_inode dbg crcf dbg_id fs (Opaque ino) = result_map_err (map_err dbg) (read_inode crcf (fs_sb fs) (fs_image fs) ino)"
  by (simp add: fs_inode_def ino_of_def)

lemma fs_walk_resolves:
  assumes "resolves crcf (fs_image fs) (fs_sb fs) d cs i"
    and "read_inode crcf (fs_sb fs) (fs_image fs) p = Inr d"
  shows "\<exists>ino. fs_walk dbg crcf dbg_id fs (Opaque p) cs = Inr (Some (Opaque ino)) \<and>
    read_inode crcf (fs_sb fs) (fs_image fs) ino = Inr i"
  using assms
proof (induction arbitrary: p rule: resolves.induct)
  case (resolves_down d es c e n cs i)
  then show ?case by (simp add: fs_lookup_def fs_inode_Opaque)
qed simp

lemma fs_read_default:
  assumes "read_inode crcf (fs_sb fs) (fs_image fs) ino = Inr inode"
    and "read_file (fs_sb fs) (fs_image fs) inode = Inr file"
  shows "fs_read_at dbg crcf dbg_id dbg_stream fs (Opaque ino) DefaultStream off buf = Inr (copy_window file off buf)"
  using assms by (simp add: fs_read_at_def fs_inode_Opaque require_default_stream_def)


section \<open>A small volume\<close>

text \<open>
  Three blocks of 208 bytes: the root directory inode 0 with one short-form entry, the file inode 1
  with one extent and one short-form attribute, and the file's block.
\<close>

definition vol_sb :: superblock where
  "vol_sb = \<lparr>sb_magic = XFS_SB_MAGIC, sb_blocksize = 208, sb_rootino = 0, sb_agblocks = 4, sb_agcount = 1,
     sb_versionnum = 4, sb_inodesize = 208, sb_inopblock = 1, sb_blocklog = 0, sb_inodelog = 0,
     sb_inopblog = 0, sb_agblklog = 2, sb_features2 = 0, sb_features_incompat = 0, sb_crc_valid = None\<rparr>"

definition vol_dir :: bytes where
  "vol_dir = [0x49, 0x4e, 0x41, 0xed, 3, 1] @ replicate 170 0 @ [1, 0, 0, 0, 0, 0, 1, 0, 0, 0x61, 0, 0, 0, 1] @ replicate 18 0"

definition vol_file :: bytes where
  "vol_file = [0x49, 0x4e, 0x81, 0xa4, 3, 2] @ replicate 57 0 @ [3] @ replicate 15 0 @ [1, 0, 0, 2, 1]
     @ replicate 92 0 @ [0, 0, 0, 0, 0, 0, 0, 0, 0, 0, 0, 0, 0, 0x40, 0, 1]
     @ [0, 9, 1, 0, 1, 2, 0, 0x6e, 0x76, 0x77] @ replicate 6 0"

definition vol_attr :: xattr where
  "vol_attr = \<lparr>xa_name = [0x6e], xa_namespace = User, xa_value = [0x76, 0x77], xa_storage = Shortform, xa_incomplete = False\<rparr>"

definition vol_image :: bytes where
  "vol_image = vol_dir @ vol_file @ [7, 8, 9] @ replicate 205 0"

definition vol :: xfs_fs where
  "vol = \<lparr>fs_image = vol_image, fs_sb = vol_sb\<rparr>"

lemma vol_lengths: "length vol_dir = 208" "length vol_file = 208" "length vol_image = 624"
  by (simp_all add: vol_dir_def vol_file_def vol_image_def)

lemma vol_windows:
  "read_inode crcf vol_sb vol_image 0 = inode_parse crcf vol_dir False"
  "read_inode crcf vol_sb vol_image 1 = inode_parse crcf vol_file False"
proof -
  have l: "loc_byte_offset (inode_to_location vol_sb 0) = 0" "loc_byte_offset (inode_to_location vol_sb 1) = 208"
    by (simp_all add: vol_sb_def inode_to_location_def shr_def wsat_mul_def wsat_add_def low_mask_def)
  have "\<not> has_nrext64 vol_sb" "unat (sb_inodesize vol_sb) = 208"
    by (simp_all add: vol_sb_def has_nrext64_def sb_is_v5_def sb_version_def)
  moreover have "get_range vol_image 0 208 = Some vol_dir" "get_range vol_image 208 416 = Some vol_file"
    by (simp_all add: get_range_def vol_image_def vol_lengths)
  ultimately show "read_inode crcf vol_sb vol_image 0 = inode_parse crcf vol_dir False"
    "read_inode crcf vol_sb vol_image 1 = inode_parse crcf vol_file False"
    by (simp_all add: read_inode_def Let_def l usat_add_def USIZE_MAX_def)
qed


lemma vol_parse:
  "\<exists>d f. read_inode crcf vol_sb vol_image 0 = Inr d \<and> read_inode crcf vol_sb vol_image 1 = Inr f \<and>
     di_format d = Local \<and> di_data_fork d = drop 176 vol_dir \<and>
     di_format f = Extents \<and> di_mode f = 0x81a4 \<and> di_size f = 3 \<and> di_nextents f = 1 \<and> di_forkoff f = 2 \<and> di_aformat f = 1 \<and>
     di_data_fork f = drop 176 vol_file"
proof -
  have m: "inode_magic_ok vol_dir" "inode_need vol_dir = 176" "u8_at vol_dir 5 = 1"
    by (simp_all add: vol_dir_def inode_contract_defs be_u16_def get_range_def be_word_def be_nat_def
        XFS_DINODE_MAGIC_def u8_at_def get_at_def litino_defs)
  have n: "inode_magic_ok vol_file" "inode_need vol_file = 176" "u8_at vol_file 5 = 2" "u8_at vol_file 83 = 1"
    "be_u64 vol_file 56 = 3" "be_u32 vol_file 76 = 1" "u8_at vol_file 82 = 2" "be_u16 vol_file 2 = 0x81a4"
    by (simp_all add: vol_file_def inode_contract_defs be_u16_def be_u32_def be_u64_def get_range_def be_word_def be_nat_Cons
        XFS_DINODE_MAGIC_def u8_at_def get_at_def litino_defs be_nat_append nth_append)
  obtain d where d: "inode_parse crcf vol_dir False = Inr d"
    using inode_parse_cases(1) [of vol_dir crcf False] m vol_lengths by auto
  obtain f where f: "inode_parse crcf vol_file False = Inr f"
    using inode_parse_cases(1) [of vol_file crcf False] n vol_lengths by auto
  show ?thesis
    using inode_parse_Inr_D [OF d] inode_parse_Inr_D [OF f] d f m n
    by (simp add: vol_windows format_from_raw_def)
qed


lemma vol_contents:
  assumes "read_inode crcf vol_sb vol_image 0 = Inr d" and "read_inode crcf vol_sb vol_image 1 = Inr f"
  shows "sb_read_dir vol_sb vol_image d = Inr [\<lparr>de_name = [0x61], de_inode = 1, de_ftype = None\<rparr>]"
    and "read_file vol_sb vol_image f = Inr [7, 8, 9]"
    and "list_xattrs vol_image vol_sb f = Inr [vol_attr]"
    and "inode_file_type f = Regular"
proof -
  have d: "di_format d = Local" "di_data_fork d = drop 176 vol_dir"
    and f: "di_format f = Extents" "di_mode f = 0x81a4" "di_size f = 3" "di_nextents f = 1" "di_forkoff f = 2"
      "di_aformat f = 1" "di_data_fork f = drop 176 vol_file"
    using vol_parse [of crcf] assms by auto
  have "\<not> has_ftype vol_sb" by (simp add: has_ftype_def vol_sb_def sb_is_v5_def sb_version_def)
  then show "sb_read_dir vol_sb vol_image d = Inr [\<lparr>de_name = [0x61], de_inode = 1, de_ftype = None\<rparr>]"
    by (simp add: sb_read_dir_def d vol_dir_def read_shortform_dir_def u8_at_def get_at_def get_range_def
        read_inum_def be_u32_def be_word_def be_nat_def)
  have r: "read_extents (drop 176 vol_file) 1 = [\<lparr>startoff = 0, startblock = 2, blockcount = 1, unwritten = False\<rparr>]"
    (is "_ = [?r]")
  proof -
    have "unpack [0, 0, 0, 0, 0, 0, 0, 0, 0, 0, 0, 0, 0, 0x40, 0, 1] = ?r"
      by (intro bmbt_rec.equality) (simp_all add: word_unat_eq_iff unpack_fields be_nat_def)
    then show ?thesis
      by (simp add: read_extents_def vol_file_def get_range_def)
  qed
  show "read_file vol_sb vol_image f = Inr [7, 8, 9]"
  proof -
    have "assemble_extents vol_image vol_sb [?r] 3 =
        Inr (map (file_byte vol_image 208 3 [?r]) [0..<3])"
      using assemble_ok [of 3 vol_image vol_sb "[?r]"] by (simp add: vol_lengths USIZE_MAX_def vol_sb_def)
    also have "map (file_byte vol_image 208 3 [?r]) [0..<3] = [7, 8, 9]"
      by (simp add: upt_rec file_byte_def ext_covers_def ext_byte_def Let_def vol_lengths vol_image_def nth_append)
    finally show ?thesis
      by (simp add: read_file_def f read_file_from_fork_def r)
  qed
  show "list_xattrs vol_image vol_sb f = Inr [vol_attr]"
    by (simp add: vol_attr_def list_xattrs_def f aformat_defs attr_fork_def usat_mul_def USIZE_MAX_def get_from_def vol_file_def
        parse_shortform_def u8_at_def get_at_def get_range_def namespace_from_flags_def attr_flag_defs)
  show "inode_file_type f = Regular"
    by (simp add: inode_file_type_def f file_type_from_mode_def s_if_defs)
qed


section \<open>Properties\<close>

text \<open>
  C30: Reading a file with consecutive reads of any buffer size yields the reconstructed file, from the
  start and without a gap, up to the bytes asked for.
\<close>

theorem vfs_reads_file:
  assumes "read_inode crcf (fs_sb fs) (fs_image fs) ino = Inr inode"
    and "read_file (fs_sb fs) (fs_image fs) inode = Inr file"
    and "k * c \<le> 2 ^ 64"
  shows "\<exists>ws. (\<forall>j. fs_read_at dbg crcf dbg_id dbg_stream fs (Opaque ino) DefaultStream (word_of_nat (j * c)) (replicate c 0) = Inr (ws j))
    \<and> concat (map (\<lambda>j. window_of (ws j)) [0..<k]) = take (k * c) file"
  using fs_read_default [OF assms(1,2)] window.reads_concat [where val = "file", OF assms(3)]
  by (intro exI [of _ "\<lambda>j. copy_window file (word_of_nat (j * c)) (replicate c 0)"] conjI allI)

theorem vfs_reads_file_witness:
  "\<exists>ws. (\<forall>j. fs_read_at (\<lambda>_. []) (\<lambda>_. 0) (\<lambda>_. []) (\<lambda>_. []) vol (Opaque 1 :: unit file_id) (DefaultStream :: unit stream_id)
        (word_of_nat (j * 2)) (replicate 2 0) = (Inr (ws j) :: unit vfs_error + nat \<times> bytes))
     \<and> concat (map (\<lambda>j. window_of (ws j)) [0..<2]) = take (2 * 2) [7, 8, 9]"
proof -
  obtain d f where i: "read_inode (\<lambda>_. 0) vol_sb vol_image 0 = Inr d" "read_inode (\<lambda>_. 0) vol_sb vol_image 1 = Inr f"
    using vol_parse by blast
  show ?thesis
    using i vol_contents(2) [OF i] by (intro vfs_reads_file) (simp_all add: vol_def)
qed

text \<open>
  C32: The attribute streams of a node follow its data stream in the order of the attribute list, each
  under its full name, and reading the stream of attribute \<open>k\<close> reads the value of attribute
  \<open>min k 65535\<close>: exactly the listed one up to index 65535, and for every later one the attribute at
  index 65535.
\<close>

theorem vfs_xattr_streams:
  assumes "read_inode crcf (fs_sb fs) (fs_image fs) ino = Inr inode"
    and "list_xattrs (fs_image fs) (fs_sb fs) inode = Inr attrs"
    and "k < length attrs"
  shows "\<exists>out. fs_data_streams dbg crcf dbg_id fs (Opaque ino) = Inr out \<and> length out = Suc (length attrs) \<and>
    si_name (out ! Suc k) = Some (full_name (attrs ! k)) \<and>
    fs_read_at dbg crcf dbg_id dbg_stream fs (Opaque ino) (si_id (out ! Suc k)) off buf =
      Inr (copy_window (xa_value (attrs ! min k 65535)) off buf)"
proof -
  have "unat (index_u16 k) = min k 65535"
    by (simp add: index_u16_def unat_of_nat unat_neg_one min_def)
  then have "get_at attrs (unat (index_u16 k)) = Some (attrs ! min k 65535)"
    using assms(3) by (auto simp: get_at_def min_def)
  then show ?thesis
    using assms by (simp add: fs_data_streams_def fs_read_at_def fs_inode_Opaque xattr_stream_def Let_def nth_enumerate_eq)
qed

theorem vfs_xattr_streams_witness:
  "\<exists>out. fs_data_streams (\<lambda>_. []) (\<lambda>_. 0) (\<lambda>_. []) vol (Opaque 1 :: unit file_id)
        = (Inr out :: unit vfs_error + unit stream_info list) \<and> length out = Suc (length [vol_attr]) \<and>
    si_name (out ! Suc 0) = Some (full_name ([vol_attr] ! 0)) \<and>
    fs_read_at (\<lambda>_. []) (\<lambda>_. 0) (\<lambda>_. []) (\<lambda>_. []) vol (Opaque 1 :: unit file_id) (si_id (out ! Suc 0)) 1 [0, 0, 0]
      = (Inr (copy_window (xa_value ([vol_attr] ! min 0 65535)) 1 [0, 0, 0]) :: unit vfs_error + nat \<times> bytes)"
proof -
  obtain d f where i: "read_inode (\<lambda>_. 0) vol_sb vol_image 0 = Inr d" "read_inode (\<lambda>_. 0) vol_sb vol_image 1 = Inr f"
    using vol_parse by blast
  show ?thesis
    using i vol_contents(3) [OF i] by (intro vfs_xattr_streams) (simp_all add: vol_def)
qed

text \<open>
  C12: What \<open>read_by_path\<close> returns for a path is what a client of the adapter reads that looks the
  components up one at a time from the root.
\<close>

theorem vfs_path_agrees:
  assumes "read_by_path crcf (fs_image fs) (fs_sb fs) path = Inr data"
  shows "\<exists>ino. fs_walk dbg crcf dbg_id fs (fs_root fs) (path_components path) = Inr (Some (Opaque ino)) \<and>
    fs_read_at dbg crcf dbg_id dbg_stream fs (Opaque ino) DefaultStream off buf = Inr (copy_window data off buf)"
proof -
  from assms obtain d where d: "read_inode crcf (fs_sb fs) (fs_image fs) (sb_rootino (fs_sb fs)) = Inr d"
    and r: "resolve_loop crcf (fs_image fs) (fs_sb fs) path d (path_components path) = Inr data"
    by (auto simp: read_by_path_def and_then_Inr_iff)
  from r have "path_components path \<noteq> []" by auto
  with r obtain i where i: "resolves crcf (fs_image fs) (fs_sb fs) d (path_components path) i"
    "read_file (fs_sb fs) (fs_image fs) i = Inr data"
    by (auto simp: resolve_loop_iff)
  show ?thesis
    using fs_walk_resolves [OF i(1) d] fs_read_default [OF _ i(2)] unfolding fs_root_def by blast
qed

theorem vfs_path_agrees_witness:
  "\<exists>ino. fs_walk (\<lambda>_. []) (\<lambda>_. 0) (\<lambda>_. []) vol (fs_root vol :: unit file_id) (path_components [0x2f, 0x61])
        = (Inr (Some (Opaque ino)) :: unit vfs_error + unit file_id option) \<and>
    fs_read_at (\<lambda>_. []) (\<lambda>_. 0) (\<lambda>_. []) (\<lambda>_. []) vol (Opaque ino :: unit file_id) (DefaultStream :: unit stream_id) 1 [0, 0]
      = (Inr (copy_window [7, 8, 9] 1 [0, 0]) :: unit vfs_error + nat \<times> bytes)"
proof -
  obtain d f where i: "read_inode (\<lambda>_. 0) vol_sb vol_image 0 = Inr d" "read_inode (\<lambda>_. 0) vol_sb vol_image 1 = Inr f"
    using vol_parse by blast
  have c: "path_components [0x2f, 0x61] = [[0x61]]" by (simp add: path_components_def)
  have "sb_rootino vol_sb = 0" by (simp add: vol_sb_def)
  then have "read_by_path (\<lambda>_. 0) vol_image vol_sb [0x2f, 0x61] = Inr [7, 8, 9]"
    using i vol_contents(1,2) [OF i] by (simp add: read_by_path_def c)
  then show ?thesis by (intro vfs_path_agrees) (simp add: vol_def)
qed


text \<open>
  C33: A lookup finds the first listed entry of that name, and the kind an entry is listed with is the
  kind its metadata report, or \<open>Other\<close> where its inode cannot be read.
\<close>

theorem vfs_listing_agrees:
  fixes i :: "'i file_id"
  assumes "fs_read_dir dbg crcf dbg_id fs i = (Inr es :: 'e vfs_error + ('e vfs_error + 'i vfs_dir_entry) list)"
  shows "fs_lookup dbg crcf dbg_id fs i name =
      (Inr (map_option vd_id (find (\<lambda>e. vd_name e = name) (map projr es))) :: 'e vfs_error + 'i file_id option) \<and>
    list_all (\<lambda>r. \<exists>e. r = Inr e \<and>
      vd_kind e = (case (fs_meta_of dbg crcf dbg_id fs (vd_id e) :: 'e vfs_error + 's fs_meta) of
        Inl _ \<Rightarrow> NodeOther | Inr m \<Rightarrow> fm_kind m)) es"
proof -
  from assms obtain inode ents where
    inode: "fs_inode dbg crcf dbg_id fs i = (Inr inode :: 'e vfs_error + inode)"
    and ents: "sb_read_dir (fs_sb fs) (fs_image fs) inode = Inr ents"
    and es: "es = map (\<lambda>e. Inr \<lparr>vd_name = de_name e, vd_id = Opaque (de_inode e), vd_kind = entry_kind crcf fs (de_inode e)\<rparr>) ents"
    by (cases "fs_inode dbg crcf dbg_id fs i :: 'e vfs_error + inode"; cases "sb_read_dir (fs_sb fs) (fs_image fs) (projr (fs_inode dbg crcf dbg_id fs i :: 'e vfs_error + inode))")
      (auto simp: fs_read_dir_def)
  have "map_option (\<lambda>e. Opaque (de_inode e)) (find (\<lambda>e. de_name e = name) ents) =
      map_option vd_id (find (\<lambda>e. vd_name e = name) (map projr es))"
    unfolding es by (induction ents) auto
  moreover have "entry_kind crcf fs k = (case (fs_meta_of dbg crcf dbg_id fs (Opaque k) :: 'e vfs_error + 's fs_meta) of
        Inl _ \<Rightarrow> NodeOther | Inr m \<Rightarrow> fm_kind m)" for k
    by (cases "read_inode crcf (fs_sb fs) (fs_image fs) k")
      (simp_all add: entry_kind_def fs_meta_of_def ino_of_def Let_def)
  ultimately show ?thesis
    using inode ents by (simp add: fs_lookup_def es list_all_iff)
qed

theorem vfs_listing_agrees_witness:
  "fs_lookup (\<lambda>_. []) (\<lambda>_. 0) (\<lambda>_. []) vol (Opaque 0 :: unit file_id) [0x61] =
      (Inr (Some (Opaque 1)) :: unit vfs_error + unit file_id option)"
proof -
  obtain d f where i: "read_inode (\<lambda>_. 0) vol_sb vol_image 0 = Inr d" "read_inode (\<lambda>_. 0) vol_sb vol_image 1 = Inr f"
    using vol_parse by blast
  have "fs_read_dir (\<lambda>_. []) (\<lambda>_. 0) (\<lambda>_. []) vol (Opaque 0 :: unit file_id) =
    (Inr [Inr \<lparr>vd_name = [0x61], vd_id = Opaque 1, vd_kind = entry_kind (\<lambda>_. 0) vol 1\<rparr>]
      :: unit vfs_error + (unit vfs_error + unit vfs_dir_entry) list)"
    using i(1) vol_contents(1) [OF i] by (simp add: fs_read_dir_def fs_inode_Opaque vol_def)
  from vfs_listing_agrees [OF this, THEN conjunct1, of "[0x61]"] show ?thesis by simp
qed

lemma read_inode_truncated:
  assumes "length img < USIZE_MAX" and "read_inode crcf sb img ino = Inl (Truncated what need have')"
  shows "have' < need \<and> need < 2 ^ 64 \<and> have' \<le> length img"
proof (cases "get_range img (unat (loc_byte_offset (inode_to_location sb ino)))
    (usat_add (unat (loc_byte_offset (inode_to_location sb ino))) (unat (sb_inodesize sb)))")
  case None
  then have "what = ''inode (image slice)''" "have' = length img"
    "need = usat_add (unat (loc_byte_offset (inode_to_location sb ino))) (unat (sb_inodesize sb))"
    using assms(2) by (auto simp: read_inode_def Let_def)
  with None show ?thesis
    using usat_add_ge [of "unat (loc_byte_offset (inode_to_location sb ino))" "unat (sb_inodesize sb)"]
      usat_add_le [of "unat (loc_byte_offset (inode_to_location sb ino))" "unat (sb_inodesize sb)"]
      unat_u64 [of "loc_byte_offset (inode_to_location sb ino)"]
    by (auto simp: get_range_eq_None_iff USIZE_MAX_def)
next
  case (Some w)
  then have "inode_parse crcf w (has_nrext64 sb) = Inl (Truncated what need have')"
    using assms(2) by (simp add: read_inode_def Let_def)
  then have "need = inode_need w \<and> have' = length w \<and> length w < inode_need w"
    using inode.Truncated_D by blast
  moreover have "length w \<le> length img" using Some by (auto simp: get_range_def split: if_splits)
  ultimately show ?thesis by (auto simp: inode_need_def litino_defs)
qed

lemma assemble_truncated:
  "length img < USIZE_MAX \<Longrightarrow> assemble_extents img sb recs sz = Inl (Truncated what need have') \<Longrightarrow>
     have' < need \<and> need < 2 ^ 64 \<and> have' \<le> length img"
  using unat_u64_less [of sz] by (auto simp: assemble_extents_def size_error_def Let_def split: if_splits)

lemma read_file_truncated:
  assumes "length img < USIZE_MAX" and "read_file sb img i = Inl (Truncated what need have')"
  shows "have' < need \<and> need < 2 ^ 64 \<and> have' \<le> length img"
proof -
  obtain recs where "read_btree_extents img sb (di_data_fork i) = Inr recs"
    by (rule read_btree_extents_Inr)
  then show ?thesis
    using assms(2) assemble_truncated [OF assms(1), where what = what and need = need and have' = have']
    by (auto simp: read_file_def read_file_from_fork_def Let_def split: inode_format.splits)
qed

lemma map_err_OutOfRange:
  "map_err dbg e = OutOfRange w n l b \<longleftrightarrow> w = ''xfs image slice'' \<and> l = 1 \<and>
     (\<exists>what need have'. e = Truncated what need have' \<and> n = word_of_nat need \<and> b = word_of_nat have')"
  by (cases e) (auto simp: map_err_def)

lemma list_xattrs_not_truncated: "list_xattrs img sb i \<noteq> Inl (Truncated what need have')"
  by (auto simp: list_xattrs_def Let_def split: if_splits)

text \<open>
  An out-of-range error of a read names a position past what the image or the structure holds, and
  the bound it names is inside the image.
\<close>

lemma vfs_out_of_range:
  fixes i :: "'i file_id"
  assumes "length (fs_image fs) < USIZE_MAX"
    and "fs_read_at dbg crcf dbg_id dbg_stream fs i stream off buf = (Inl (OutOfRange w n l b) :: 'e vfs_error + nat \<times> bytes)"
  shows "b < n \<and> unat b \<le> length (fs_image fs) \<and> w = ''xfs image slice''"
proof -
  have step: "b < n \<and> unat b \<le> length (fs_image fs) \<and> w = ''xfs image slice''"
    if "(map_err dbg (Truncated what need have') :: 'e vfs_error) = OutOfRange w n l b"
      and "have' < need \<and> need < 2 ^ 64 \<and> have' \<le> length (fs_image fs)" for what need have'
    using that by (auto simp: map_err_def word_less_nat_alt unat_of_nat)
  show ?thesis
    using assms step read_inode_truncated [OF assms(1)] read_file_truncated [OF assms(1)]
      list_xattrs_not_truncated
    by (auto simp: fs_read_at_def fs_inode_def ino_of_def require_default_stream_def and_then_Inl_iff result_map_err_def
        map_err_OutOfRange split: file_id.splits stream_id.splits sum.splits option.splits)
qed

section \<open>The checksum of an opened volume\<close>

text \<open>
  The adapter parses the superblock over the whole source. With a checksum that detects the change
  of a byte, a volume opened with a verified superblock is opened with a failed superblock checksum
  once any byte of the source outside the stored checksum is changed, in a data block as well, as long
  as the change leaves the superblock readable and its version 5.
\<close>

lemma vfs_open_checks_whole_image:
  fixes data :: bytes
  assumes "detects_byte_change crcf" and "length data < 2 ^ 64"
    and "fs_open dbg crcf (word_of_nat (length data)) (\<lambda>off buf. Inr (copy_window data off buf)) = (Inr fs :: 'e vfs_error + xfs_fs)"
    and "sb_crc_valid (fs_sb fs) = Some True"
    and "i < length data" and "i < SB_CRC_OFF \<or> SB_CRC_OFF + 4 \<le> i" and "data ! i \<noteq> b"
    and "sb_magic_ok (data[i := b])" and "sb_bytes_v5 (data[i := b])"
  shows "\<exists>fs'. fs_open dbg crcf (word_of_nat (length data)) (\<lambda>off buf. Inr (copy_window (data[i := b]) off buf))
      = (Inr fs' :: 'e vfs_error + xfs_fs) \<and> sb_crc_valid (fs_sb fs') = Some False"
proof -
  have len: "unat (word_of_nat (length data) :: u64) = length data" using assms(2) by (simp add: unat_of_nat)
  have op: "fs_open dbg crcf (word_of_nat (length data)) (\<lambda>off buf. Inr (copy_window d off buf)) =
      (and_then (result_map_err (map_err dbg) (superblock_parse crcf d)) (\<lambda>sb. Inr \<lparr>fs_image = d, fs_sb = sb\<rparr>)
        :: 'e vfs_error + xfs_fs)" if "length d = length data" for d
    using that by (simp add: fs_open_def Let_def len copy_window_def get_from_def)
  from assms(3) obtain sb where sb: "superblock_parse crcf data = Inr sb" "fs_sb fs = sb"
    by (cases "superblock_parse crcf data") (auto simp: op)
  then have v5: "sb_bytes_v5 data"
    using assms(4) superblock_parse_Inr_D(12) [OF sb(1)] by (auto simp: crc_status_def split: if_splits)
  have "SB_MIN_LEN \<le> length (data[i := b])" using sb.Inr_D [OF sb(1)] by simp
  then obtain sb' where sb': "superblock_parse crcf (data[i := b]) = Inr sb'"
    using superblock_parse_cases(1) assms(8) by blast
  have "sb_crc_valid sb' = Some False"
    using sb.tamper_detected [OF assms(1) sb(1) v5 _ assms(5,6,7) sb' assms(9)] sb(2) assms(4) by simp
  then show ?thesis by (simp add: op sb')
qed

end
