(* ===== verification/Xfs_Volume.thy ===== *)
theory Xfs_Volume
  imports Xfs_Vfs
begin

text \<open>
  The reader as a whole. A tree of named files and directories is the abstract volume; \<open>holds\<close> says how
  an image represents it, down to the bytes of inodes, directories, extents and tree blocks, in terms
  of what a writer of XFS puts where and not in terms of the reader. The lemmas show that the layers of
  the reader undo the representation one after the other, and the properties that reading by path and
  the operations of the adapter are lookup in the tree.

  The file also relates the runs the adapter lists to the data, says for which blocks the flat address
  of the code is the address of XFS, and what the adapter does with files that look like directories.
\<close>

section \<open>Inodes in the image\<close>

text \<open>
  An inode as stored: the fields the reader looks at, and the bytes behind the core. Inode numbers name
  a slot of a block of an allocation group; \<open>slot_number\<close> and \<open>slot_offset\<close> are the two sides of that
  naming, written without the reader.
\<close>

record dinode =
  dn_mode :: u16
  dn_version :: u8
  dn_format :: u8
  dn_size :: u64
  dn_nextents :: nat
  dn_fork :: bytes

definition slot_number :: "superblock \<Rightarrow> nat \<Rightarrow> nat \<Rightarrow> nat \<Rightarrow> nat" where
  "slot_number sb agno blk slot = (agno * 2 ^ unat (sb_agblklog sb) + blk) * 2 ^ unat (sb_inopblog sb) + slot"

definition slot_offset :: "superblock \<Rightarrow> nat \<Rightarrow> nat \<Rightarrow> nat \<Rightarrow> nat" where
  "slot_offset sb agno blk slot =
     (agno * unat (sb_agblocks sb) + blk) * unat (sb_blocksize sb) + slot * unat (sb_inodesize sb)"

definition inode_bytes :: "bool \<Rightarrow> dinode \<Rightarrow> bytes \<Rightarrow> bool" where
  "inode_bytes nrext64 dn w \<longleftrightarrow>
     bytes_at w 0 ([0x49, 0x4e] @ be_bytes 2 (unat (dn_mode dn)) @ [dn_version dn, dn_format dn]) \<and>
     bytes_at w 56 (be_bytes 8 (unat (dn_size dn))) \<and>
     (if nrext64 then dn_nextents dn < 2 ^ 64 \<and> bytes_at w 24 (be_bytes 8 (dn_nextents dn))
      else dn_nextents dn < 2 ^ 32 \<and> bytes_at w 76 (be_bytes 4 (dn_nextents dn))) \<and>
     (\<exists>core. w = core @ dn_fork dn \<and> length core = (if 3 \<le> dn_version dn then 176 else 100))"

definition inode_stored :: "superblock \<Rightarrow> bytes \<Rightarrow> u64 \<Rightarrow> dinode \<Rightarrow> bool" where
  "inode_stored sb img ino dn \<longleftrightarrow>
    (\<exists>agno blk slot w. unat ino = slot_number sb agno blk slot \<and>
       blk < 2 ^ unat (sb_agblklog sb) \<and> slot < 2 ^ unat (sb_inopblog sb) \<and>
       get_range img (slot_offset sb agno blk slot) (slot_offset sb agno blk slot + unat (sb_inodesize sb)) = Some w \<and>
       inode_bytes (has_nrext64 sb) dn w)"

lemma slot_location:
  assumes "unat ino = slot_number sb agno blk slot" and "blk < 2 ^ unat (sb_agblklog sb)"
    and "slot < 2 ^ unat (sb_inopblog sb)" and "slot_offset sb agno blk slot < USIZE_MAX"
    and "0 < unat (sb_blocksize sb)"
  shows "unat (loc_byte_offset (inode_to_location sb ino)) = slot_offset sb agno blk slot"
proof -
  let ?L = "inode_to_location sb ino" and ?a = "2 ^ unat (sb_agblklog sb) :: nat" and ?p = "2 ^ unat (sb_inopblog sb) :: nat"
  have "blk * ?p + slot < (blk + 1) * ?p" using assms(3) by simp
  also have "(blk + 1) * ?p \<le> ?a * ?p" using assms(2) by (intro mult_right_mono) auto
  finally have lt: "blk * ?p + slot < 2 ^ loc_bits sb" by (simp add: loc_bits_def power_add)
  have n: "unat ino = agno * 2 ^ loc_bits sb + (blk * ?p + slot)"
    by (simp add: assms(1) slot_number_def loc_bits_def power_add add_mult_distrib)
  have "unat ino div 2 ^ loc_bits sb = agno" "unat ino mod 2 ^ loc_bits sb = blk * ?p + slot"
    unfolding n by (rule digit_split [OF lt])+
  then have parts: "unat (loc_agno ?L) = agno" "unat (loc_agblock ?L) = blk" "unat (loc_offset ?L) = slot"
    using digit_split [OF assms(3), of blk] by (simp_all add: location_split)
  have "agno * unat (sb_agblocks sb) + blk \<le> (agno * unat (sb_agblocks sb) + blk) * unat (sb_blocksize sb)"
    using assms(5) by simp
  then have "agno * unat (sb_agblocks sb) + blk < USIZE_MAX"
    using assms(4) unfolding slot_offset_def by linarith
  then have "unat (loc_fsblock ?L) = agno * unat (sb_agblocks sb) + blk"
    by (simp add: location_address(1) parts)
  then show ?thesis
    using assms(4) by (simp add: location_address(2) parts slot_offset_def)
qed

lemma inode_bytes_parse:
  assumes "inode_bytes nrext64 dn w"
  shows "\<exists>i. inode_parse crcf w nrext64 = Inr i \<and> di_mode i = dn_mode dn \<and> di_format i = format_from_raw (dn_format dn) \<and>
    di_size i = dn_size dn \<and> unat (di_nextents i) = dn_nextents dn \<and> di_data_fork i = dn_fork dn"
proof -
  have hd: "bytes_at w 0 [0x49, 0x4e]" "bytes_at w 2 (be_bytes 2 (unat (dn_mode dn)))" "bytes_at w 4 [dn_version dn]"
    "bytes_at w 5 [dn_format dn]"
    using assms bytes_at_append [of w 4 "[dn_version dn]" "[dn_format dn]"]
      bytes_at_append [of w 0 "[0x49, 0x4e]" "be_bytes 2 (unat (dn_mode dn)) @ [dn_version dn, dn_format dn]"]
    by (simp_all add: inode_bytes_def bytes_at_append numeral_2_eq_2 [symmetric] del: be_bytes.simps)
  have "be_bytes 2 (unat XFS_DINODE_MAGIC) = [0x49, 0x4e]"
    by (simp add: XFS_DINODE_MAGIC_def be_bytes_numeral)
  then have magic: "inode_magic_ok w"
    using hd(1) bytes_at_be(1) [of w 0 XFS_DINODE_MAGIC] by (simp add: inode_magic_ok_def)
  have v3: "inode_is_v3 w \<longleftrightarrow> 3 \<le> dn_version dn" using bytes_at_u8 [OF hd(3)] by (simp add: inode_is_v3_def)
  obtain core where core: "w = core @ dn_fork dn" "length core = inode_need w"
    using assms v3 by (auto simp: inode_bytes_def inode_need_def litino_defs)
  then obtain i where i: "inode_parse crcf w nrext64 = Inr i"
    using inode_parse_cases(1) [OF magic, of crcf nrext64] by fastforce
  have "be_u64 w 56 = dn_size dn" using assms bytes_at_be(3) by (simp add: inode_bytes_def)
  moreover have "unat (if nrext64 then be_u64 w 24 else ucast (be_u32 w 76) :: u64) = dn_nextents dn"
    using assms bytes_at_be(3) [of w 24 "word_of_nat (dn_nextents dn)"] bytes_at_be_nat(2) [of w 76 "dn_nextents dn"]
    by (auto simp: inode_bytes_def unat_of_nat unat_ucast_widen split: if_splits)
  ultimately show ?thesis
    using i inode_parse_Inr_D [OF i] bytes_at_be(1) [OF hd(2)] bytes_at_u8 [OF hd(4)] core by simp
qed

lemma inode_stored_read:
  assumes "inode_stored sb img ino dn" and "length img < USIZE_MAX" and "0 < unat (sb_blocksize sb)"
  obtains i where "read_inode crcf sb img ino = Inr i" and "di_mode i = dn_mode dn"
    and "di_format i = format_from_raw (dn_format dn)" and "di_size i = dn_size dn"
    and "unat (di_nextents i) = dn_nextents dn" and "di_data_fork i = dn_fork dn"
proof -
  obtain agno blk slot w where *: "unat ino = slot_number sb agno blk slot" "blk < 2 ^ unat (sb_agblklog sb)"
      "slot < 2 ^ unat (sb_inopblog sb)"
    and w: "get_range img (slot_offset sb agno blk slot) (slot_offset sb agno blk slot + unat (sb_inodesize sb)) = Some w"
      "inode_bytes (has_nrext64 sb) dn w"
    using assms(1) by (auto simp: inode_stored_def)
  have lt: "slot_offset sb agno blk slot + unat (sb_inodesize sb) < USIZE_MAX"
    using w(1) assms(2) by (simp add: get_range_Some_iff)
  then have "read_inode crcf sb img ino = inode_parse crcf w (has_nrext64 sb)"
    using slot_location [OF *] assms(3) w(1) by (simp add: read_inode_def Let_def usat_add_exact)
  then show thesis using inode_bytes_parse [OF w(2), of crcf] that by auto
qed

section \<open>Files in the image\<close>

text \<open>
  The extent map of an inode: packed records in the fork, or a bmap B+tree rooted in it. A file is laid
  out when each extent holds the part of the data it maps and the data are zero everywhere else; the
  block of an extent is the flat one, \<open>startblock * blocksize\<close>.
\<close>

definition extent_map :: "superblock \<Rightarrow> bytes \<Rightarrow> dinode \<Rightarrow> bmbt_rec list \<Rightarrow> bool" where
  "extent_map sb img dn recs \<longleftrightarrow> (dn_format dn = 2 \<or> dn_format dn = 3) \<and>
     extents_stored sb img (dn_format dn = 2) (dn_nextents dn) (dn_fork dn) recs"

definition laid_out :: "nat \<Rightarrow> bytes \<Rightarrow> bmbt_rec list \<Rightarrow> bytes \<Rightarrow> bool" where
  "laid_out bs img recs data \<longleftrightarrow> recs_disjoint recs \<and>
    (\<forall>r \<in> set recs. bytes_at img (unat (startblock r) * bs)
       (take (unat (blockcount r) * bs) (drop (unat (startoff r) * bs) data))) \<and>
    (\<forall>p < length data. (\<forall>r \<in> set recs. p < unat (startoff r) * bs \<or> (unat (startoff r) + unat (blockcount r)) * bs \<le> p)
       \<longrightarrow> data ! p = 0)"

definition file_stored :: "superblock \<Rightarrow> bytes \<Rightarrow> dinode \<Rightarrow> bytes \<Rightarrow> bool" where
  "file_stored sb img dn data \<longleftrightarrow> unat (dn_size dn) = length data \<and> length data \<le> length img \<and>
    (\<exists>recs. extent_map sb img dn recs \<and> laid_out (unat (sb_blocksize sb)) img recs data)"

lemma laid_out_byte:
  assumes "laid_out bs img recs data" and "p < length data"
  shows "file_byte img bs (length data) recs p = data ! p"
proof (cases "\<exists>r \<in> set recs. ext_covers (length img) bs (length data) r p")
  case True
  let ?rs = "filter (\<lambda>r. ext_covers (length img) bs (length data) r p) recs"
  have "?rs \<noteq> []" using True by (simp add: filter_empty_conv)
  then have "last ?rs \<in> set ?rs" by (rule last_in_set)
  then obtain r where r: "last ?rs = r" "r \<in> set recs" "ext_covers (length img) bs (length data) r p" by auto
  let ?a = "unat (startoff r) * bs" and ?e = "unat (blockcount r) * bs"
  have a: "?a \<le> p" "p < ?a + ?e" using r(3) by (simp_all add: ext_covers_def Let_def)
  have at: "bytes_at img (unat (startblock r) * bs) (take ?e (drop ?a data))"
    using assms(1) r(2) by (simp add: laid_out_def)
  have "img ! (unat (startblock r) * bs + (p - ?a)) = take ?e (drop ?a data) ! (p - ?a)"
    using at a assms(2) by (auto simp: bytes_at_split nth_append)
  also have "\<dots> = data ! p" using a assms(2) by (subst nth_take) auto
  finally show ?thesis
    using \<open>?rs \<noteq> []\<close> r(1) by (simp add: file_byte_def ext_byte_def Let_def)
next
  case False
  have "p < unat (startoff r) * bs \<or> (unat (startoff r) + unat (blockcount r)) * bs \<le> p" if "r \<in> set recs" for r
  proof -
    let ?a = "unat (startoff r) * bs" and ?e = "unat (blockcount r) * bs"
    have "bytes_at img (unat (startblock r) * bs) (take ?e (drop ?a data))"
      using assms(1) that by (simp add: laid_out_def)
    then have "unat (startblock r) * bs + (min (?a + ?e) (length data) - ?a) \<le> length img"
      by (auto simp: bytes_at_iff min_def split: if_splits)
    then show ?thesis
      using False that by (auto simp: ext_covers_def Let_def add_mult_distrib not_le)
  qed
  then have "data ! p = 0" using assms by (simp add: laid_out_def)
  moreover have "file_byte img bs (length data) recs p = 0" using False by (intro file_byte_hole) blast
  ultimately show ?thesis by simp
qed

lemma extent_map_read:
  assumes "extent_map sb img dn recs" and "di_format i = format_from_raw (dn_format dn)"
    and "unat (di_nextents i) = dn_nextents dn" and "di_data_fork i = dn_fork dn"
  shows "di_format i = Extents \<and> read_extents (di_data_fork i) (di_nextents i) = recs \<or>
    di_format i = Btree \<and> read_btree_extents img sb (di_data_fork i) = Inr recs"
  using assms extents_stored_read(1) [of sb img True "di_nextents i" "di_data_fork i" recs]
    extents_stored_read(2) [of sb img False "di_nextents i" "di_data_fork i" recs]
  by (auto simp: extent_map_def format_from_raw_def)

lemma file_stored_read:
  assumes "file_stored sb img dn data" and "length img < USIZE_MAX" and "di_format i = format_from_raw (dn_format dn)"
    and "di_size i = dn_size dn" and "unat (di_nextents i) = dn_nextents dn" and "di_data_fork i = dn_fork dn"
  shows "read_file sb img i = Inr data"
proof -
  obtain recs where recs: "extent_map sb img dn recs" "laid_out (unat (sb_blocksize sb)) img recs data"
    and sz: "unat (di_size i) = length data" "length data \<le> length img"
    using assms(1,4) by (auto simp: file_stored_def)
  have "read_file sb img i = assemble_extents img sb recs (di_size i)"
    using extent_map_read [OF recs(1) assms(3,5,6)] by (auto simp: read_file_def read_file_from_fork_def)
  also have "\<dots> = Inr (map (file_byte img (unat (sb_blocksize sb)) (length data) recs) [0..<length data])"
    using assemble_ok [of "di_size i" img sb recs] sz assms(2) by simp
  also have "map (file_byte img (unat (sb_blocksize sb)) (length data) recs) [0..<length data] = data"
    using laid_out_byte [OF recs(2)] by (intro nth_equalityI) simp_all
  finally show ?thesis .
qed

section \<open>Directories in the image\<close>

text \<open>The three forms a directory with entries \<open>es\<close> is stored in.\<close>

inductive dir_stored :: "superblock \<Rightarrow> bytes \<Rightarrow> dinode \<Rightarrow> dir_entry list \<Rightarrow> bool" for sb img dn where
  dir_short: "dir_stored sb img dn es"
    if "dn_format dn = 1" and "list_all2 (sf_stored (has_ftype sb) w) es bss" and "length es < 256"
      and "length parent = w" and "w = (if i8count = 0 then 4 else 8)"
      and "dn_fork dn = [word_of_nat (length es), i8count] @ parent @ concat bss @ slack"
| dir_block: "dir_stored sb img dn (used_entries rs)"
    if "dn_format dn = 2" and "unat (dn_size dn) = unat (sb_blocksize sb)"
      and "file_stored sb img dn (hdr @ concat bss @ leaf_array @ be_bytes 4 count @ stale)"
      and "list_all2 (data_stored (has_ftype sb)) rs bss"
      and "be_u32 hdr 0 = XFS_DIR3_BLOCK_MAGIC \<and> length hdr = 64 \<or> be_u32 hdr 0 = XFS_DIR2_BLOCK_MAGIC \<and> length hdr = 16"
      and "length leaf_array = 8 * count" and "count < 2 ^ 32" and "length stale = 4"
| dir_multi: "dir_stored sb img dn (concat (map (\<lambda>n. used_entries (content n)) (dir_data_blocks sb recs)))"
    if "extent_map sb img dn recs" and "dn_format dn = 3 \<or> unat (dn_size dn) \<noteq> unat (sb_blocksize sb)"
      and "\<And>n. n \<in> set (dir_data_blocks sb recs) \<Longrightarrow> dir_data_at sb img n (content n)"

lemma dir_stored_read:
  assumes "dir_stored sb img dn es" and "length img < USIZE_MAX" and "di_format i = format_from_raw (dn_format dn)"
    and "di_size i = dn_size dn" and "unat (di_nextents i) = dn_nextents dn" and "di_data_fork i = dn_fork dn"
    and "0 < unat (sb_blocksize sb)"
  shows "sb_read_dir sb img i = Inr es"
  using assms(1)
proof cases
  case (dir_short w bss parent i8count slack)
  then have "read_shortform_dir (di_data_fork i) (has_ftype sb) = es"
    using shortform_dir_read [of "has_ftype sb" w es bss parent i8count slack] assms(6) by simp
  then show ?thesis using dir_short(1) assms(3) by (simp add: sb_read_dir_def format_from_raw_def)
next
  case (dir_block hdr bss leaf_array count stale rs)
  let ?b = "hdr @ concat bss @ leaf_array @ be_bytes 4 count @ stale"
  have "read_file sb img i = Inr ?b" by (rule file_stored_read [OF dir_block(4) assms(2-6)])
  moreover have "length ?b \<le> USIZE_MAX"
    using dir_block(4) assms(2) by (auto simp: file_stored_def simp del: length_append)
  then have "read_block_dir ?b (has_ftype sb) = Inr es"
    using block_dir_read [OF dir_block(5,6,7,8,9)] dir_block(1) by simp
  moreover have "di_size i = ucast (sb_blocksize sb)"
    using dir_block(3) assms(4) by (simp add: word_unat_eq_iff unat_ucast_widen)
  ultimately show ?thesis using dir_block(2) assms(3) by (simp add: sb_read_dir_def format_from_raw_def)
next
  case (dir_multi recs content)
  have "read_multiblock_dir sb img recs = es"
    using read_multiblock_dir_stored [of recs img sb content] dir_multi assms(2,7)
    by (simp add: extent_map_def extents_stored_def)
  moreover have "di_format i = Btree \<or> di_size i \<noteq> ucast (sb_blocksize sb)"
    using dir_multi(3) assms(3,4) by (auto simp: format_from_raw_def word_unat_eq_iff unat_ucast_widen)
  ultimately show ?thesis
    using extent_map_read [OF dir_multi(2) assms(3,5,6)] by (auto simp: sb_read_dir_def)
qed

section \<open>File trees\<close>

text \<open>
  The abstract volume: files with their data, directories with their children by name. \<open>holds\<close> says that
  an inode of the image represents a node of it. The entries \<open>.\<close> and \<open>..\<close> of the stored form are not
  children.
\<close>

datatype fs_node = FileNode bytes | DirNode "(bytes \<times> fs_node) list"

definition is_dot :: "bytes \<Rightarrow> bool" where
  "is_dot name \<longleftrightarrow> name = [0x2e] \<or> name = [0x2e, 0x2e]"

definition children :: "dir_entry list \<Rightarrow> dir_entry list" where
  "children es = filter (\<lambda>e. \<not> is_dot (de_name e)) es"

inductive holds :: "superblock \<Rightarrow> bytes \<Rightarrow> u64 \<Rightarrow> fs_node \<Rightarrow> bool" for sb img where
  holds_file: "holds sb img ino (FileNode data)"
    if "inode_stored sb img ino dn" and "file_type_from_mode (dn_mode dn) \<noteq> Directory" and "file_stored sb img dn data"
| holds_dir: "holds sb img ino (DirNode ch)"
    if "inode_stored sb img ino dn" and "file_type_from_mode (dn_mode dn) = Directory" and "dir_stored sb img dn es"
      and "map de_name (children es) = map fst ch"
      and "\<And>j. j < length ch \<Longrightarrow> holds sb img (de_inode (children es ! j)) (snd (ch ! j))"

inductive_cases holds_FileE: "holds sb img ino (FileNode data)"
inductive_cases holds_DirE: "holds sb img ino (DirNode ch)"

text \<open>Looking a list of names up: the node, or the name at which the lookup ends.\<close>

fun tree_find :: "(bytes \<times> fs_node) list \<Rightarrow> bytes list \<Rightarrow> bytes + fs_node" where
  "tree_find ch [] = Inl []"
| "tree_find ch (c # cs) =
    (case map_of ch c of
       None \<Rightarrow> Inl c
     | Some t \<Rightarrow> if cs = [] then Inr t
         else case t of FileNode data \<Rightarrow> Inl c | DirNode ch' \<Rightarrow> tree_find ch' cs)"

lemma find_children:
  assumes "map de_name (children es) = map fst ch" and "\<not> is_dot c"
  shows "map_of ch c = None \<Longrightarrow> find (\<lambda>e. de_name e = c) es = None"
    and "map_of ch c = Some t \<Longrightarrow>
      \<exists>j < length ch. find (\<lambda>e. de_name e = c) es = Some (children es ! j) \<and> snd (ch ! j) = t"
proof -
  have skip: "find (\<lambda>e. de_name e = c) es = find (\<lambda>e. de_name e = c) (children es)"
    using assms(2) by (induction es) (auto simp: children_def)
  have "case map_of ch c of
      None \<Rightarrow> find (\<lambda>e. de_name e = c) fs = None
    | Some t \<Rightarrow> \<exists>j < length ch. find (\<lambda>e. de_name e = c) fs = Some (fs ! j) \<and> snd (ch ! j) = t"
    if "map de_name fs = map fst ch" for fs
    using that
  proof (induction ch arbitrary: fs)
    case (Cons x ch)
    then obtain f fs' where fs: "fs = f # fs'" "de_name f = fst x" "map de_name fs' = map fst ch" by auto
    from Cons.IH [OF fs(3)] show ?case
      by (cases x; cases "fst x = c") (auto simp: fs split: option.splits intro: exI [of _ 0] exI [of _ "Suc j" for j])
  qed simp
  from this [OF assms(1)] skip show "map_of ch c = None \<Longrightarrow> find (\<lambda>e. de_name e = c) es = None"
    "map_of ch c = Some t \<Longrightarrow> \<exists>j < length ch. find (\<lambda>e. de_name e = c) es = Some (children es ! j) \<and> snd (ch ! j) = t"
    by auto
qed

text \<open>What reading the inode of a node gives.\<close>

lemma holds_file_read:
  assumes "holds sb img ino (FileNode data)" and "length img < USIZE_MAX" and "0 < unat (sb_blocksize sb)"
  obtains i where "read_inode crcf sb img ino = Inr i" and "\<not> inode_is_dir i" and "read_file sb img i = Inr data"
proof -
  obtain dn where dn: "inode_stored sb img ino dn" "file_type_from_mode (dn_mode dn) \<noteq> Directory" "file_stored sb img dn data"
    using assms(1) by (auto elim: holds_FileE)
  obtain i where i: "read_inode crcf sb img ino = Inr i" "di_mode i = dn_mode dn"
      "di_format i = format_from_raw (dn_format dn)" "di_size i = dn_size dn"
      "unat (di_nextents i) = dn_nextents dn" "di_data_fork i = dn_fork dn"
    using inode_stored_read [OF dn(1) assms(2,3)] by blast
  show thesis
    using that [OF i(1)] file_stored_read [OF dn(3) assms(2) i(3-6)] dn(2) i(2)
    by (simp add: inode_is_dir_def inode_file_type_def)
qed

lemma holds_dir_read:
  assumes "holds sb img ino (DirNode ch)" and "length img < USIZE_MAX" and "0 < unat (sb_blocksize sb)"
  obtains i es where "read_inode crcf sb img ino = Inr i" and "inode_is_dir i" and "sb_read_dir sb img i = Inr es"
    and "map de_name (children es) = map fst ch"
    and "\<And>j. j < length ch \<Longrightarrow> holds sb img (de_inode (children es ! j)) (snd (ch ! j))"
proof -
  obtain dn es where dn: "inode_stored sb img ino dn" "file_type_from_mode (dn_mode dn) = Directory" "dir_stored sb img dn es"
    and ch: "map de_name (children es) = map fst ch"
      "\<And>j. j < length ch \<Longrightarrow> holds sb img (de_inode (children es ! j)) (snd (ch ! j))"
    using assms(1) by (auto elim: holds_DirE)
  obtain i where i: "read_inode crcf sb img ino = Inr i" "di_mode i = dn_mode dn"
      "di_format i = format_from_raw (dn_format dn)" "di_size i = dn_size dn"
      "unat (di_nextents i) = dn_nextents dn" "di_data_fork i = dn_fork dn"
    using inode_stored_read [OF dn(1) assms(2,3)] by blast
  show thesis
    using that [OF i(1) _ dir_stored_read [OF dn(3) assms(2) i(3-6) assms(3)] ch] dn(2) i(2)
    by (simp add: inode_is_dir_def inode_file_type_def)
qed

lemma holds_inode:
  assumes "holds sb img ino t" and "length img < USIZE_MAX" and "0 < unat (sb_blocksize sb)"
  obtains i where "read_inode crcf sb img ino = Inr i" and "inode_is_dir i \<longleftrightarrow> (\<exists>ch. t = DirNode ch)"
proof (cases t)
  case (FileNode data)
  with assms show ?thesis using holds_file_read [of sb img ino data crcf] that by blast
next
  case (DirNode ch)
  with assms show ?thesis using holds_dir_read [of sb img ino ch crcf] that by blast
qed

text \<open>Resolution of names below a directory of the tree, by the loop of the code and as a relation.\<close>

lemma resolve_holds:
  assumes "holds sb img ino (DirNode ch)" and "read_inode crcf sb img ino = Inr d"
    and "\<forall>c \<in> set cs. \<not> is_dot c" and img: "length img < USIZE_MAX" "0 < unat (sb_blocksize sb)"
  shows "case tree_find ch cs of
      Inl c \<Rightarrow> resolve_loop crcf img sb path d cs = Inl (PathNotFound path c)
    | Inr t \<Rightarrow> \<exists>i ino'. resolves crcf img sb d cs i \<and> holds sb img ino' t \<and> read_inode crcf sb img ino' = Inr i"
  using assms(1-3)
proof (induction cs arbitrary: ino ch d)
  case (Cons c cs)
  obtain es where es: "sb_read_dir sb img d = Inr es" "map de_name (children es) = map fst ch"
      "\<And>j. j < length ch \<Longrightarrow> holds sb img (de_inode (children es ! j)) (snd (ch ! j))"
    using holds_dir_read [OF Cons.prems(1) img, of crcf] Cons.prems(2) by (metis sum.inject(2))
  have c: "\<not> is_dot c" using Cons.prems(3) by simp
  show ?case
  proof (cases "map_of ch c")
    case None
    then show ?thesis using es find_children(1) [OF es(2) c] by simp
  next
    case (Some t)
    then obtain j where j: "j < length ch" "find (\<lambda>e. de_name e = c) es = Some (children es ! j)" "snd (ch ! j) = t"
      using find_children(2) [OF es(2) c] by blast
    then have t: "holds sb img (de_inode (children es ! j)) t" using es(3) by blast
    obtain n where n: "read_inode crcf sb img (de_inode (children es ! j)) = Inr n" "inode_is_dir n \<longleftrightarrow> (\<exists>ch. t = DirNode ch)"
      using holds_inode [OF t img] by blast
    note down = resolves_down [OF es(1) j(2) n(1)]
    show ?thesis
    proof (cases "cs = []")
      case True
      then show ?thesis using Some n t down [of cs n] by auto
    next
      case ne: False
      show ?thesis
      proof (cases t)
        case (FileNode data)
        then show ?thesis using ne Some es(1) j(2) n by simp
      next
        case (DirNode ch')
        with Cons.IH [of "de_inode (children es ! j)" ch' n] t n Cons.prems(3) ne Some es(1) j(2) down
        show ?thesis by (auto split: sum.splits)
      qed
    qed
  qed
qed simp

section \<open>Runs\<close>

text \<open>The bytes of an extent in the image, and extents that follow each other without a gap.\<close>

definition rec_bytes :: "nat \<Rightarrow> bytes \<Rightarrow> bmbt_rec \<Rightarrow> bytes" where
  "rec_bytes bs img r = take (unat (blockcount r) * bs) (drop (unat (startblock r) * bs) img)"

fun dense :: "nat \<Rightarrow> bmbt_rec list \<Rightarrow> bool" where
  "dense b [] \<longleftrightarrow> True"
| "dense b (r # rs) \<longleftrightarrow> unat (startoff r) = b \<and> dense (b + unat (blockcount r)) rs"

definition rec_inside :: "nat \<Rightarrow> bytes \<Rightarrow> bmbt_rec \<Rightarrow> bool" where
  "rec_inside bs img r \<longleftrightarrow> (unat (startblock r) + unat (blockcount r)) * bs \<le> length img"

lemma length_rec_bytes: "rec_inside bs img r \<Longrightarrow> length (rec_bytes bs img r) = unat (blockcount r) * bs"
  by (simp add: rec_bytes_def rec_inside_def add_mult_distrib)

lemma dense_ge: "dense b recs \<Longrightarrow> r \<in> set recs \<Longrightarrow> b \<le> unat (startoff r)"
proof (induction recs arbitrary: b)
  case (Cons s recs)
  from Cons.prems(2) consider "r = s" | "r \<in> set recs" by auto
  then show ?case
  proof cases
    case 2
    then have "b + unat (blockcount s) \<le> unat (startoff r)" using Cons by simp
    then show ?thesis by simp
  qed (use Cons.prems(1) in simp)
qed simp

lemma dense_disjoint: "dense b recs \<Longrightarrow> recs_disjoint recs"
proof (induction recs arbitrary: b)
  case (Cons s recs)
  then show ?case
    using dense_ge [of "b + unat (blockcount s)" recs] Cons.IH [of "b + unat (blockcount s)"]
    unfolding recs_disjoint_def by auto
qed (simp add: recs_disjoint_def)

lemma dense_chunk:
  assumes "dense b recs" and "list_all (rec_inside bs img) recs" and "r \<in> set recs"
  shows "\<exists>rest. drop ((unat (startoff r) - b) * bs) (concat (map (rec_bytes bs img) recs)) = rec_bytes bs img r @ rest"
  using assms
proof (induction recs arbitrary: b)
  case (Cons s recs)
  show ?case
  proof (cases "r = s")
    case False
    then have r: "r \<in> set recs" "dense (b + unat (blockcount s)) recs" using Cons.prems by auto
    have "b + unat (blockcount s) \<le> unat (startoff r)" by (rule dense_ge [OF r(2,1)])
    then have "(unat (startoff r) - b) * bs = unat (blockcount s) * bs + (unat (startoff r) - (b + unat (blockcount s))) * bs"
      by (simp add: add_mult_distrib [symmetric])
    then show ?thesis
      using Cons.IH [OF r(2) _ r(1)] Cons.prems(2) length_rec_bytes [of bs img s] by simp
  qed (use Cons.prems in simp)
qed simp

lemma dense_covers:
  assumes "dense b recs" and "b * bs \<le> p" and "p < (b + sum_list (map (\<lambda>r. unat (blockcount r)) recs)) * bs"
  shows "\<exists>r \<in> set recs. unat (startoff r) * bs \<le> p \<and> p < (unat (startoff r) + unat (blockcount r)) * bs"
  using assms
proof (induction recs arbitrary: b)
  case (Cons s recs)
  show ?case
  proof (cases "p < (b + unat (blockcount s)) * bs")
    case False
    then show ?thesis
      using Cons.IH [of "b + unat (blockcount s)"] Cons.prems by (auto simp: add.assoc)
  qed (use Cons.prems in auto)
qed simp

lemma dense_laid_out:
  assumes "dense 0 recs" and "list_all (rec_inside bs img) recs"
    and "sz \<le> sum_list (map (\<lambda>r. unat (blockcount r)) recs) * bs"
  shows "laid_out bs img recs (take sz (concat (map (rec_bytes bs img) recs)))"
  unfolding laid_out_def
proof (intro conjI ballI allI impI)
  let ?all = "concat (map (rec_bytes bs img) recs)"
  show "recs_disjoint recs" by (rule dense_disjoint [OF assms(1)])
  show "bytes_at img (unat (startblock r) * bs) (take (unat (blockcount r) * bs) (drop (unat (startoff r) * bs) (take sz ?all)))"
    if r: "r \<in> set recs" for r
  proof -
    obtain rest where d: "drop (unat (startoff r) * bs) ?all = rec_bytes bs img r @ rest"
      using dense_chunk [OF assms(1,2) r] by auto
    have len: "length (rec_bytes bs img r) = unat (blockcount r) * bs"
      using assms(2) r by (simp add: length_rec_bytes list_all_iff)
    have cut: "take k (take m (x @ rest)) = take m x" if "length x = k" for k m and x :: bytes
      using that by (cases "m \<le> k") simp_all
    have "take (unat (blockcount r) * bs) (drop (unat (startoff r) * bs) (take sz ?all)) =
        take (sz - unat (startoff r) * bs) (rec_bytes bs img r)"
      by (simp only: drop_take d cut [OF len])
    moreover have "(unat (startblock r) + unat (blockcount r)) * bs \<le> length img"
      using assms(2) r by (simp add: rec_inside_def list_all_iff)
    ultimately show ?thesis
      by (simp add: bytes_at_iff rec_bytes_def add_mult_distrib)
  qed
  fix p
  assume p: "p < length (take sz ?all)"
    "\<forall>r \<in> set recs. p < unat (startoff r) * bs \<or> (unat (startoff r) + unat (blockcount r)) * bs \<le> p"
  then have "p < sum_list (map (\<lambda>r. unat (blockcount r)) recs) * bs" using assms(3) by simp
  with dense_covers [OF assms(1), of bs p] p(2) show "take sz ?all ! p = 0" by fastforce
qed

lemma length_dense:
  "list_all (rec_inside bs img) recs \<Longrightarrow>
     length (concat (map (rec_bytes bs img) recs)) = sum_list (map (\<lambda>r. unat (blockcount r)) recs) * bs"
  by (induction recs) (auto simp: length_rec_bytes add_mult_distrib)

lemma assemble_dense:
  assumes "dense 0 recs" and "list_all (rec_inside (unat (sb_blocksize sb)) img) recs"
    and "unat sz \<le> sum_list (map (\<lambda>r. unat (blockcount r)) recs) * unat (sb_blocksize sb)"
    and "unat sz \<le> length img" and "length img < USIZE_MAX"
  shows "assemble_extents img sb recs sz = Inr (take (unat sz) (concat (map (rec_bytes (unat (sb_blocksize sb)) img) recs)))"
proof -
  let ?data = "take (unat sz) (concat (map (rec_bytes (unat (sb_blocksize sb)) img) recs))"
  have len: "length ?data = unat sz" using assms(3) length_dense [OF assms(2)] by simp
  have "map (file_byte img (unat (sb_blocksize sb)) (length ?data) recs) [0..<length ?data] = ?data"
    using laid_out_byte [OF dense_laid_out [OF assms(1-3)]] by (intro nth_equalityI) simp_all
  then show ?thesis using assemble_ok [OF assms(4,5), of sb recs] unfolding len by simp
qed

section \<open>Block addresses\<close>

text \<open>
  The address of file-system block \<open>f\<close> in XFS: its high bits name the group, its low \<open>sb_agblklog\<close> bits
  the block of the group, as for inodes.
\<close>

definition fsblock_address :: "superblock \<Rightarrow> nat \<Rightarrow> nat" where
  "fsblock_address sb f =
     (f div 2 ^ unat (sb_agblklog sb) * unat (sb_agblocks sb) + f mod 2 ^ unat (sb_agblklog sb)) * unat (sb_blocksize sb)"

lemma fsblock_address_flat_iff:
  assumes "0 < unat (sb_blocksize sb)"
  shows "fsblock_address sb f = f * unat (sb_blocksize sb) \<longleftrightarrow>
    f < 2 ^ unat (sb_agblklog sb) \<or> unat (sb_agblocks sb) = 2 ^ unat (sb_agblklog sb)"
proof -
  let ?P = "2 ^ unat (sb_agblklog sb) :: nat"
  have "fsblock_address sb f = f * unat (sb_blocksize sb) \<longleftrightarrow>
      f div ?P * unat (sb_agblocks sb) + f mod ?P = f div ?P * ?P + f mod ?P"
    unfolding fsblock_address_def div_mult_mod_eq using assms by simp
  also have "\<dots> \<longleftrightarrow> f div ?P = 0 \<or> unat (sb_agblocks sb) = ?P"
    by auto
  finally show ?thesis by (simp add: div_eq_0_iff)
qed

lemma windows_differ:
  assumes "a \<noteq> b" and "0 < k" and "a + k \<le> n" and "b + k \<le> n"
  shows "\<exists>xs :: bytes. length xs = n \<and> take k (drop a xs) \<noteq> take k (drop b xs)"
proof -
  let ?xs = "(replicate n 0)[a := 1] :: bytes"
  have "hd (take k (drop a ?xs)) = 1" "hd (take k (drop b ?xs)) = 0"
    using assms by (simp_all add: hd_drop_conv_nth)
  then show ?thesis by (intro exI [of _ ?xs]) auto
qed


section \<open>The small volume as a tree\<close>

definition vol_dir_dn :: dinode where
  "vol_dir_dn = \<lparr>dn_mode = 0x41ed, dn_version = 3, dn_format = 1, dn_size = 0, dn_nextents = 0, dn_fork = drop 176 vol_dir\<rparr>"

definition vol_file_dn :: dinode where
  "vol_file_dn = \<lparr>dn_mode = 0x81a4, dn_version = 3, dn_format = 2, dn_size = 3, dn_nextents = 1, dn_fork = drop 176 vol_file\<rparr>"

definition vol_rec :: bmbt_rec where
  "vol_rec = \<lparr>startoff = 0, startblock = 2, blockcount = 1, unwritten = False\<rparr>"

lemma vol_inode_bytes:
  "inode_bytes False vol_dir_dn vol_dir" "inode_bytes False vol_file_dn vol_file"
proof -
  have core: "\<exists>core. w = core @ drop 176 w \<and> length core = 176" if "length w = 208" for w :: bytes
    using that by (intro exI [of _ "take 176 w"]) simp
  show "inode_bytes False vol_dir_dn vol_dir"
    unfolding inode_bytes_def using core [OF vol_lengths(1)]
    by (simp add: vol_dir_dn_def) (simp add: bytes_at_iff vol_dir_def be_bytes_numeral)
  show "inode_bytes False vol_file_dn vol_file"
    unfolding inode_bytes_def using core [OF vol_lengths(2)]
    by (simp add: vol_file_dn_def) (simp add: bytes_at_iff vol_file_def be_bytes_numeral)
qed

lemma vol_inodes:
  "inode_stored vol_sb vol_image 0 vol_dir_dn" "inode_stored vol_sb vol_image 1 vol_file_dn"
proof -
  have "\<not> has_nrext64 vol_sb" by (simp add: vol_sb_def has_nrext64_def sb_is_v5_def sb_version_def)
  moreover have "get_range vol_image 0 208 = Some vol_dir" "get_range vol_image 208 416 = Some vol_file"
    by (simp_all add: get_range_def vol_image_def vol_lengths)
  moreover have "slot_number vol_sb 0 0 0 = 0" "slot_number vol_sb 0 1 0 = 1" "slot_offset vol_sb 0 0 0 = 0"
    "slot_offset vol_sb 0 1 0 = 208" "unat (sb_inodesize vol_sb) = 208" "unat (sb_agblklog vol_sb) = 2"
    "unat (sb_inopblog vol_sb) = 0"
    by (simp_all add: vol_sb_def slot_number_def slot_offset_def)
  ultimately show "inode_stored vol_sb vol_image 0 vol_dir_dn" "inode_stored vol_sb vol_image 1 vol_file_dn"
    using vol_inode_bytes unfolding inode_stored_def
    by (intro exI [of _ 0] exI [of _ vol_dir], simp, intro exI [of _ 0] exI [of _ "1 :: nat"] exI [of _ vol_file], simp)
qed

lemma pack_vol_rec: "pack vol_rec = [0, 0, 0, 0, 0, 0, 0, 0, 0, 0, 0, 0, 0, 0x40, 0, 1]"
  by (simp add: vol_rec_def pack_def rec_l0_def rec_l1_def be_bytes_numeral)

lemma vol_extent_map: "extent_map vol_sb vol_image vol_file_dn [vol_rec]"
  by (simp add: extent_map_def extents_stored_def vol_file_dn_def pack_vol_rec vol_file_def) (simp add: rec_ok_def vol_rec_def)

lemma vol_file_stored: "file_stored vol_sb vol_image vol_file_dn [7, 8, 9]"
proof -
  have "laid_out (unat (sb_blocksize vol_sb)) vol_image [vol_rec] [7, 8, 9]"
    by (simp add: laid_out_def recs_disjoint_def vol_rec_def vol_sb_def bytes_at_iff vol_lengths)
      (simp add: vol_image_def vol_lengths)
  moreover have "unat (dn_size vol_file_dn) = 3" by (simp add: vol_file_dn_def)
  ultimately show ?thesis using vol_extent_map unfolding file_stored_def by (auto simp: vol_lengths)
qed

lemma vol_dir_short:
  assumes "dn_format dn = 1" and "dn_fork dn = drop 176 vol_dir"
  shows "dir_stored vol_sb img dn [\<lparr>de_name = [0x61], de_inode = 1, de_ftype = None\<rparr>]"
proof -
  have "\<not> has_ftype vol_sb" by (simp add: has_ftype_def vol_sb_def sb_is_v5_def sb_version_def)
  then show ?thesis
    using dir_short [of dn vol_sb 4 "[\<lparr>de_name = [0x61], de_inode = 1, de_ftype = None\<rparr>]" "[[1, 0, 0, 0x61, 0, 0, 0, 1]]"
        "[0, 0, 0, 0]" 0 "replicate 18 0"] assms
    by (simp add: vol_dir_def sf_stored_def be_bytes_numeral)
qed

lemma vol_dir_stored: "dir_stored vol_sb vol_image vol_dir_dn [\<lparr>de_name = [0x61], de_inode = 1, de_ftype = None\<rparr>]"
  by (rule vol_dir_short) (simp_all add: vol_dir_dn_def)

lemma vol_holds: "holds vol_sb vol_image 0 (DirNode [([0x61], FileNode [7, 8, 9])])"
proof (rule holds_dir [OF vol_inodes(1) _ vol_dir_stored])
  let ?c = "children [\<lparr>de_name = [0x61], de_inode = 1, de_ftype = None\<rparr>]"
  have c: "?c = [\<lparr>de_name = [0x61], de_inode = 1, de_ftype = None\<rparr>]" by (simp add: children_def is_dot_def)
  show "map de_name ?c = map fst [([0x61], FileNode [7, 8, 9])]" by (simp add: c)
  have "holds vol_sb vol_image 1 (FileNode [7, 8, 9])"
    by (rule holds_file [OF vol_inodes(2) _ vol_file_stored]) (simp add: vol_file_dn_def file_type_from_mode_def s_if_defs)
  then show "holds vol_sb vol_image (de_inode (?c ! j)) (snd ([([0x61], FileNode [7, 8, 9])] ! j))"
    if "j < length [([0x61 :: u8], FileNode [7, 8, 9])]" for j
    using that by (simp add: c)
qed (simp add: vol_dir_dn_def file_type_from_mode_def s_if_defs)

section \<open>Properties\<close>

text \<open>
  C1: On an image that holds a tree of files and directories (inodes at the place their number names,
  short-form, single-block and multi-block directories, files laid out over extents or a bmap B+tree),
  reading by path is lookup in the tree: it returns the data of the file the path names, and a lookup
  that ends fails with the path and the name at which it ends.
\<close>

theorem volume_read_by_path:
  assumes "holds sb img (sb_rootino sb) (DirNode ch)" and "length img < USIZE_MAX" and "0 < unat (sb_blocksize sb)"
    and "\<forall>c \<in> set (path_components path). \<not> is_dot c"
  shows "case tree_find ch (path_components path) of
      Inl c \<Rightarrow> read_by_path crcf img sb path = Inl (PathNotFound path c)
    | Inr (FileNode data) \<Rightarrow> read_by_path crcf img sb path = Inr data
    | Inr (DirNode ch') \<Rightarrow> True"
proof -
  obtain d where d: "read_inode crcf sb img (sb_rootino sb) = Inr d"
    using holds_inode [OF assms(1-3)] by blast
  then have rb: "read_by_path crcf img sb path = resolve_loop crcf img sb path d (path_components path)"
    by (simp add: read_by_path_def)
  note res = resolve_holds [OF assms(1) d assms(4,2,3), of path]
  show ?thesis
  proof (cases "tree_find ch (path_components path)")
    case (Inr t)
    show ?thesis
    proof (cases t)
      case (FileNode data)
      then obtain i ino where i: "resolves crcf img sb d (path_components path) i" "holds sb img ino (FileNode data)"
        "read_inode crcf sb img ino = Inr i"
        using res Inr by auto
      then have "read_file sb img i = Inr data"
        using holds_file_read [OF i(2) assms(2,3), of crcf] by (metis sum.inject(2))
      moreover have "path_components path \<noteq> []" using Inr by auto
      ultimately show ?thesis using Inr FileNode i(1) rb by (auto simp: resolve_loop_iff)
    qed (simp add: Inr)
  qed (use res rb in simp)
qed

theorem volume_read_by_path_witness:
  "read_by_path (\<lambda>_. 0) vol_image vol_sb [0x2f, 0x61] = Inr [7, 8, 9] \<and>
   read_by_path (\<lambda>_. 0) vol_image vol_sb [0x61, 0x2f, 0x62] = Inl (PathNotFound [0x61, 0x2f, 0x62] [0x61])"
proof
  have c: "path_components [0x2f, 0x61] = [[0x61]]" "path_components [0x61, 0x2f, 0x62] = [[0x61], [0x62]]"
    by (simp_all add: path_components_def)
  have v: "sb_rootino vol_sb = 0" "length vol_image < USIZE_MAX" "0 < unat (sb_blocksize vol_sb)"
    by (simp_all add: vol_sb_def vol_lengths USIZE_MAX_def)
  note t = volume_read_by_path [OF vol_holds [folded v(1)] v(2,3)]
  show "read_by_path (\<lambda>_. 0) vol_image vol_sb [0x2f, 0x61] = Inr [7, 8, 9]"
    using t [of "[0x2f, 0x61]" "\<lambda>_. 0"] by (simp add: c is_dot_def)
  show "read_by_path (\<lambda>_. 0) vol_image vol_sb [0x61, 0x2f, 0x62] = Inl (PathNotFound [0x61, 0x2f, 0x62] [0x61])"
    using t [of "[0x61, 0x2f, 0x62]" "\<lambda>_. 0"] by (simp add: c is_dot_def)
qed

text \<open>
  C13: A client of the adapter that looks names up one at a time from the root of such an image reaches
  the node the names lead to in the tree. It reads every window of a file's data, and lists exactly the
  children of a directory, in order.
\<close>

theorem volume_vfs_reaches:
  fixes fs :: xfs_fs
  assumes "holds (fs_sb fs) (fs_image fs) (sb_rootino (fs_sb fs)) (DirNode ch)" and "length (fs_image fs) < USIZE_MAX"
    and "0 < unat (sb_blocksize (fs_sb fs))" and "\<forall>c \<in> set names. \<not> is_dot c" and "tree_find ch names = Inr t"
  shows "\<exists>ino. fs_walk dbg crcf dbg_id fs (fs_root fs) names = (Inr (Some (Opaque ino)) :: 'e vfs_error + 'i file_id option) \<and>
    (case t of
       FileNode data \<Rightarrow> fs_read_at dbg crcf dbg_id dbg_stream fs (Opaque ino) DefaultStream off buf
         = (Inr (copy_window data off buf) :: 'e vfs_error + nat \<times> bytes)
     | DirNode ch' \<Rightarrow> \<exists>es. fs_read_dir dbg crcf dbg_id fs (Opaque ino)
         = (Inr (map Inr es) :: 'e vfs_error + ('e vfs_error + 'i vfs_dir_entry) list) \<and>
         filter (\<lambda>n. \<not> is_dot n) (map vd_name es) = map fst ch')"
proof -
  obtain d where d: "read_inode crcf (fs_sb fs) (fs_image fs) (sb_rootino (fs_sb fs)) = Inr d"
    using holds_inode [OF assms(1-3)] by blast
  obtain i ino0 where i: "resolves crcf (fs_image fs) (fs_sb fs) d names i" "holds (fs_sb fs) (fs_image fs) ino0 t"
      "read_inode crcf (fs_sb fs) (fs_image fs) ino0 = Inr i"
    using resolve_holds [OF assms(1) d assms(4,2,3), of path] assms(5) by auto
  obtain ino where ino: "fs_walk dbg crcf dbg_id fs (fs_root fs) names = (Inr (Some (Opaque ino)) :: 'e vfs_error + 'i file_id option)"
      "read_inode crcf (fs_sb fs) (fs_image fs) ino = Inr i"
    using fs_walk_resolves [OF i(1) d] unfolding fs_root_def by blast
  show ?thesis
  proof (cases t)
    case (FileNode data)
    then have "read_file (fs_sb fs) (fs_image fs) i = Inr data"
      using holds_file_read [of "fs_sb fs" "fs_image fs" ino0 data crcf] i(2,3) assms(2,3) by (metis sum.inject(2))
    then show ?thesis using ino(1) FileNode by (simp add: fs_read_default [OF ino(2)])
  next
    case (DirNode ch')
    then obtain es where es: "sb_read_dir (fs_sb fs) (fs_image fs) i = Inr es" "map de_name (children es) = map fst ch'"
      using holds_dir_read [of "fs_sb fs" "fs_image fs" ino0 ch' crcf] i(2,3) assms(2,3) by (metis sum.inject(2))
    let ?es = "map (\<lambda>e. \<lparr>vd_name = de_name e, vd_id = Opaque (de_inode e), vd_kind = entry_kind crcf fs (de_inode e)\<rparr>) es"
    have "filter (\<lambda>n. \<not> is_dot n) (map vd_name ?es) = map fst ch'"
      using es(2) by (simp add: children_def filter_map o_def)
    moreover have "fs_read_dir dbg crcf dbg_id fs (Opaque ino)
        = (Inr (map Inr ?es) :: 'e vfs_error + ('e vfs_error + 'i vfs_dir_entry) list)"
      using ino(2) es(1) by (simp add: fs_read_dir_def fs_inode_Opaque)
    ultimately show ?thesis using ino(1) unfolding DirNode fs_node.case by blast
  qed
qed

theorem volume_vfs_reaches_witness:
  "\<exists>ino. fs_walk (\<lambda>_. []) (\<lambda>_. 0) (\<lambda>_. []) vol (fs_root vol) [[0x61]]
      = (Inr (Some (Opaque ino)) :: unit vfs_error + unit file_id option) \<and>
    fs_read_at (\<lambda>_. []) (\<lambda>_. 0) (\<lambda>_. []) (\<lambda>_. []) vol (Opaque ino :: unit file_id) (DefaultStream :: unit stream_id) 1 [0, 0]
      = (Inr (copy_window [7, 8, 9] 1 [0, 0]) :: unit vfs_error + nat \<times> bytes)"
proof -
  have v: "fs_sb vol = vol_sb" "fs_image vol = vol_image" "sb_rootino vol_sb = 0" "length vol_image < USIZE_MAX"
    "0 < unat (sb_blocksize vol_sb)"
    by (simp_all add: vol_def vol_sb_def vol_lengths USIZE_MAX_def)
  have h: "holds (fs_sb vol) (fs_image vol) (sb_rootino (fs_sb vol)) (DirNode [([0x61], FileNode [7, 8, 9])])"
    using vol_holds by (simp add: v)
  have f: "tree_find [([0x61], FileNode [7, 8, 9])] [[0x61]] = Inr (FileNode [7, 8, 9])" by simp
  show ?thesis
    by (rule volume_vfs_reaches [OF h _ _ _ f, simplified fs_node.case]) (simp_all add: v is_dot_def)
qed

text \<open>
  C31: The runs the adapter lists for a file with inline extents and no holes locate its data: the bytes
  of the image at the runs, one after the other and cut at the size, are what reading the file returns.
\<close>

theorem vfs_runs_hold_file:
  assumes "read_inode crcf (fs_sb fs) (fs_image fs) ino = Inr inode" and "di_format inode = Extents"
    and "read_extents (di_data_fork inode) (di_nextents inode) = recs" and "dense 0 recs"
    and "list_all (rec_inside (unat (sb_blocksize (fs_sb fs))) (fs_image fs)) recs"
    and "unat (di_size inode) \<le> sum_list (map (\<lambda>r. unat (blockcount r)) recs) * unat (sb_blocksize (fs_sb fs))"
    and "unat (di_size inode) \<le> length (fs_image fs)" and "length (fs_image fs) < USIZE_MAX"
  shows "\<exists>runs. fs_extents dbg crcf dbg_id dbg_stream fs (Opaque ino) DefaultStream
        = (Inr (map Inr runs) :: 'e vfs_error + ('e vfs_error + run_info) list) \<and>
    fs_read_at dbg crcf dbg_id dbg_stream fs (Opaque ino) DefaultStream off buf
        = (Inr (copy_window (take (unat (di_size inode)) (concat (map (\<lambda>r. take (unat (ri_len r))
            (drop (unat (ri_image_offset r)) (fs_image fs))) runs))) off buf) :: 'e vfs_error + nat \<times> bytes)"
proof -
  let ?bs = "unat (sb_blocksize (fs_sb fs))"
  let ?run = "\<lambda>r. \<lparr>ri_image_offset = wsat_mul (startblock r) (ucast (sb_blocksize (fs_sb fs))),
    ri_len = wsat_mul (blockcount r) (ucast (sb_blocksize (fs_sb fs))), ri_alloc = Allocated\<rparr>"
  have at: "take (unat (ri_len (?run r))) (drop (unat (ri_image_offset (?run r))) (fs_image fs)) = rec_bytes ?bs (fs_image fs) r"
    if "r \<in> set recs" for r
  proof -
    have "(unat (startblock r) + unat (blockcount r)) * ?bs \<le> length (fs_image fs)"
      using assms(5) that by (simp add: list_all_iff rec_inside_def)
    then have "unat (startblock r) * ?bs < USIZE_MAX" "unat (blockcount r) * ?bs < USIZE_MAX"
      using assms(8) by (auto simp: add_mult_distrib)
    then show ?thesis by (simp add: rec_bytes_def unat_wsat_mul unat_ucast_widen USIZE_MAX_def)
  qed
  then have m: "map (\<lambda>r. take (unat (ri_len r)) (drop (unat (ri_image_offset r)) (fs_image fs))) (map ?run recs) =
      map (rec_bytes ?bs (fs_image fs)) recs"
    by (simp add: o_def)
  have rf: "read_file (fs_sb fs) (fs_image fs) inode =
      Inr (take (unat (di_size inode)) (concat (map (rec_bytes ?bs (fs_image fs)) recs)))"
    using assemble_dense [OF assms(4-8)] assms(2,3) by (simp add: read_file_def read_file_from_fork_def)
  have fe: "fs_extents dbg crcf dbg_id dbg_stream fs (Opaque ino) DefaultStream
        = (Inr (map Inr (map ?run recs)) :: 'e vfs_error + ('e vfs_error + run_info) list)"
    using assms(1-3) by (simp add: fs_extents_def fs_inode_Opaque require_default_stream_def Let_def o_def)
  show ?thesis
    by (rule exI [of _ "map ?run recs"], rule conjI, rule fe, unfold m, rule fs_read_default [OF assms(1) rf])
qed

theorem vfs_runs_hold_file_witness:
  "\<exists>runs. fs_extents (\<lambda>_. []) (\<lambda>_. 0) (\<lambda>_. []) (\<lambda>_. []) vol (Opaque 1 :: unit file_id) (DefaultStream :: unit stream_id)
        = (Inr (map Inr runs) :: unit vfs_error + (unit vfs_error + run_info) list) \<and>
    fs_read_at (\<lambda>_. []) (\<lambda>_. 0) (\<lambda>_. []) (\<lambda>_. []) vol (Opaque 1 :: unit file_id) (DefaultStream :: unit stream_id) 0 [0, 0, 0, 0]
        = (Inr (copy_window (take (unat (3 :: u64)) (concat (map (\<lambda>r. take (unat (ri_len r))
            (drop (unat (ri_image_offset r)) (fs_image vol))) runs))) 0 [0, 0, 0, 0]) :: unit vfs_error + nat \<times> bytes)"
proof -
  have v: "fs_sb vol = vol_sb" "fs_image vol = vol_image" by (simp_all add: vol_def)
  have l: "length vol_image < USIZE_MAX" "0 < unat (sb_blocksize vol_sb)" by (simp_all add: vol_sb_def vol_lengths USIZE_MAX_def)
  obtain f where f: "read_inode (\<lambda>_. 0) vol_sb vol_image 1 = Inr f" "di_format f = format_from_raw (dn_format vol_file_dn)"
      "di_size f = dn_size vol_file_dn" "unat (di_nextents f) = dn_nextents vol_file_dn" "di_data_fork f = dn_fork vol_file_dn"
    using inode_stored_read [OF vol_inodes(2) l] by blast
  have sz: "di_size f = 3" "di_format f = Extents"
    using f(2,3) by (simp_all add: vol_file_dn_def format_from_raw_def)
  then have r: "read_extents (di_data_fork f) (di_nextents f) = [vol_rec]"
    using extent_map_read [OF vol_extent_map f(2,4,5)] by simp
  show ?thesis
    using vfs_runs_hold_file [OF f(1) [folded v] sz(2) r] unfolding sz(1)
    by (rule meta_mp) (simp_all add: v vol_lengths vol_sb_def vol_rec_def rec_inside_def USIZE_MAX_def)
qed
text \<open>
  C6: The code reads the blocks of an extent at \<open>startblock * blocksize\<close>. That is the address of the
  block in XFS exactly for blocks of the first allocation group and for volumes whose groups have
  \<open>2 ^ sb_agblklog\<close> blocks: otherwise there are images on which the bytes of another block are returned.
\<close>

theorem extent_address_exact_iff:
  assumes "unat (startoff r) = 0" and "0 < unat (blockcount r)" and "0 < unat sz" and "unat sz \<le> unat (sb_blocksize sb)"
    and "(unat (startblock r) + unat (blockcount r)) * unat (sb_blocksize sb) \<le> n"
    and "fsblock_address sb (unat (startblock r)) + unat sz \<le> n" and "n < USIZE_MAX"
  shows "(\<forall>img. length img = n \<longrightarrow> assemble_extents img sb [r] sz =
        Inr (take (unat sz) (drop (fsblock_address sb (unat (startblock r))) img))) \<longleftrightarrow>
    unat (startblock r) < 2 ^ unat (sb_agblklog sb) \<or> unat (sb_agblocks sb) = 2 ^ unat (sb_agblklog sb)"
proof -
  let ?bs = "unat (sb_blocksize sb)" and ?a = "unat (startblock r) * unat (sb_blocksize sb)"
    and ?b = "fsblock_address sb (unat (startblock r))"
  have "1 * ?bs \<le> unat (blockcount r) * ?bs" using assms(2) by (intro mult_right_mono) auto
  then have bs: "unat sz \<le> unat (blockcount r) * ?bs" using assms(4) by linarith
  then have fit: "?a + unat sz \<le> n" using assms(5) by (simp add: add_mult_distrib)
  have asm: "assemble_extents img sb [r] sz = Inr (take (unat sz) (drop ?a img))" if "length img = n" for img
  proof -
    have "assemble_extents img sb [r] sz = Inr (take (unat sz) (concat (map (rec_bytes ?bs img) [r])))"
      using that assms bs fit by (intro assemble_dense) (auto simp: rec_inside_def)
    then show ?thesis using bs by (simp add: rec_bytes_def min_absorb1)
  qed
  have "(\<forall>img. length img = n \<longrightarrow> assemble_extents img sb [r] sz = Inr (take (unat sz) (drop ?b img))) \<longleftrightarrow> ?a = ?b"
    using asm windows_differ [of ?a ?b "unat sz" n] fit assms(3,6) by auto
  also have "\<dots> \<longleftrightarrow> unat (startblock r) < 2 ^ unat (sb_agblklog sb) \<or> unat (sb_agblocks sb) = 2 ^ unat (sb_agblklog sb)"
    using fsblock_address_flat_iff [of sb "unat (startblock r)"] assms(3,4) by (auto simp: eq_commute)
  finally show ?thesis .
qed

theorem extent_address_exact_iff_witness:
  "\<not> (\<forall>img. length img = 1000 \<longrightarrow> assemble_extents img (two_slots\<lparr>sb_blocksize := 4, sb_agblocks := 60\<rparr>)
       [\<lparr>startoff = 0, startblock = 65, blockcount = 1, unwritten = False\<rparr>] 3 = Inr (take 3 (drop 244 img)))"
  using extent_address_exact_iff [of "\<lparr>startoff = 0, startblock = 65, blockcount = 1, unwritten = False\<rparr>" 3
      "two_slots\<lparr>sb_blocksize := 4, sb_agblocks := 60\<rparr>" 1000]
  by (simp add: two_slots_def fsblock_address_def USIZE_MAX_def)

text \<open>
  The adapter looks names up in any inode whose bytes read as a directory, whatever its type. Through
  a file with such bytes a client reaches the inode named there, where the path reader stops at the
  file.
\<close>

lemma vfs_lookup_through_file:
  fixes fs :: xfs_fs
  assumes "read_inode crcf (fs_sb fs) (fs_image fs) (sb_rootino (fs_sb fs)) = Inr d"
    and "sb_read_dir (fs_sb fs) (fs_image fs) d = Inr es" and "find (\<lambda>e. de_name e = c) es = Some e"
    and "inode_stored (fs_sb fs) (fs_image fs) (de_inode e) dn" and "file_type_from_mode (dn_mode dn) \<noteq> Directory"
    and "dir_stored (fs_sb fs) (fs_image fs) dn es'" and "find (\<lambda>e. de_name e = n) es' = Some e'"
    and "path_components path = [c, n]" and "length (fs_image fs) < USIZE_MAX" and "0 < unat (sb_blocksize (fs_sb fs))"
  shows "fs_walk dbg crcf dbg_id fs (fs_root fs) [c, n] = (Inr (Some (Opaque (de_inode e'))) :: 'e vfs_error + 'i file_id option) \<and>
    read_by_path crcf (fs_image fs) (fs_sb fs) path = Inl (PathNotFound path c)"
proof -
  obtain i where i: "read_inode crcf (fs_sb fs) (fs_image fs) (de_inode e) = Inr i" "di_mode i = dn_mode dn"
      "di_format i = format_from_raw (dn_format dn)" "di_size i = dn_size dn"
      "unat (di_nextents i) = dn_nextents dn" "di_data_fork i = dn_fork dn"
    using inode_stored_read [OF assms(4,9,10)] by blast
  have "sb_read_dir (fs_sb fs) (fs_image fs) i = Inr es'"
    by (rule dir_stored_read [OF assms(6,9) i(3-6) assms(10)])
  moreover have "\<not> inode_is_dir i" using i(2) assms(5) by (simp add: inode_is_dir_def inode_file_type_def)
  ultimately show ?thesis
    using assms(1-3,7,8) i(1) by (simp add: fs_lookup_def fs_root_def fs_inode_Opaque read_by_path_def)
qed

end
