(* ===== verification/Xfs_Undelete.thy ===== *)
theory Xfs_Undelete
  imports Xfs_Recovery Xfs_Volume
begin

text \<open>
  Deletion and recovery, across the reader and the analyzer of \<open>forensic/src/lib.rs\<close>. \<open>inode_freed\<close> says
  what a delete does to the bytes of an image. The lemmas show that the analyzer finds the freed inode
  and the records left in its fork, and that for a file without holes the bytes carved are its blocks;
  the property is that recovery returns the file the reader returned before.
\<close>

section \<open>What a delete leaves\<close>

text \<open>
  A delete frees the inode at \<open>off\<close>: the mode becomes zero, magic and version stay, any other byte of
  the core may change, everything behind the core and outside the inode stays.
\<close>

definition inode_freed :: "bytes \<Rightarrow> bytes \<Rightarrow> nat \<Rightarrow> bool" where
  "inode_freed img img' off \<longleftrightarrow> length img' = length img \<and>
    (\<forall>p < length img. p < off \<or> off + 176 \<le> p \<longrightarrow> img' ! p = img ! p) \<and>
    img' ! off = img ! off \<and> img' ! (off + 1) = img ! (off + 1) \<and> img' ! (off + 4) = img ! (off + 4) \<and>
    img' ! (off + 2) = 0 \<and> img' ! (off + 3) = 0"

text \<open>The records left in a fork, up to what ends them: the end of the fork or an empty record.\<close>

definition records_end :: "bytes \<Rightarrow> bool" where
  "records_end slack \<longleftrightarrow> length slack < 16 \<or> take 16 slack = replicate 16 0"

lemma records_end_residual:
  assumes "list_all rec_ok recs" and "list_all (residual_ok tot) recs" and "records_end slack"
  shows "residual_of tot (concat (map pack recs) @ slack) recs"
proof -
  have "\<not> residual_ok tot r" if "rec_ok r" "slack = pack r @ rest" for r rest
  proof -
    have "pack r = replicate 16 0" using assms(3) that(2) by (auto simp: records_end_def)
    then show ?thesis using unpack_pack [OF that(1)] by (auto simp: residual_ok_def word_unat_eq_iff unpack_fields)
  qed
  then show ?thesis using assms(1,2) by (auto simp: residual_of_def list_all_iff)
qed

lemma inode_freed_bytes:
  assumes "inode_freed img img' off" and "a + n \<le> length img" and "a + n \<le> off \<or> off + 176 \<le> a"
  shows "take n (drop a img') = take n (drop a img)"
  using assms by (intro nth_equalityI) (auto simp: inode_freed_def)

text \<open>The freed inode is one the analyzer recognises, with the fork of the inode before.\<close>

lemma inode_freed_at:
  assumes "inode_freed img img' off" and "get_range img off (off + unat (sb_inodesize sb)) = Some w"
    and "inode_parse crcf w f = Inr i" and "3 \<le> di_version i" and "176 \<le> unat (sb_inodesize sb)"
  obtains i' where "freed_at crcf img' sb off i'" and "di_data_fork i' = di_data_fork i"
proof -
  let ?n = "unat (sb_inodesize sb)"
  have le: "off + ?n \<le> length img" and w: "w = take ?n (drop off img)"
    using assms(2) by (auto simp: get_range_Some_iff)
  define w' where "w' = take ?n (drop off img')"
  have len: "length img' = length img" using assms(1) by (simp add: inode_freed_def)
  have get: "get_range img' off (off + ?n) = Some w'" using le len by (simp add: get_range_def w'_def)
  have same: "w' ! 0 = w ! 0" "w' ! 1 = w ! 1" "w' ! 4 = w ! 4" "w' ! 2 = 0" "w' ! 3 = 0"
    using assms(1,5) le len by (simp_all add: w w'_def inode_freed_def)
  have l: "length w = ?n" "length w' = ?n" using le len by (simp_all add: w w'_def)
  have hd: "take 2 (drop k xs) = [xs ! k, xs ! Suc k]" if "k + 2 \<le> length xs" for k and xs :: bytes
    using that by (simp add: Cons_nth_drop_Suc [symmetric] numeral_2_eq_2)
  have "be_u16 w' 0 = be_u16 w 0"
    using hd [of 0 w] hd [of 0 w'] same(1,2) l assms(5) by (simp add: be_u16_def get_range_def numeral_2_eq_2 [symmetric])
  moreover have v: "u8_at w' 4 = u8_at w 4" using same(3) l assms(5) by (simp add: u8_at_nth)
  moreover have "inode_magic_ok w" using inode.Inr_D [OF assms(3)] by simp
  ultimately have ok: "inode_magic_ok w'" "inode_is_v3 w' = inode_is_v3 w"
    by (simp_all add: inode_magic_ok_def inode_is_v3_def)
  have v3: "inode_is_v3 w" using assms(4) inode_parse_Inr_D(2) [OF assms(3)] by (simp add: inode_is_v3_def)
  have need: "inode_need w' = 176" "inode_need w = 176"
    using ok(2) v3 by (simp_all add: inode_need_def litino_defs)
  obtain i' where i': "inode_parse crcf w' False = Inr i'"
    using inode_parse_cases(1) [OF ok(1), of crcf False] need(1) l(2) assms(5) by auto
  have "be_u16 w' 2 = 0"
    using hd [of 2 w'] same(4,5) l assms(5) by (simp add: be_u16_def get_range_def be_word_def be_nat_def)
  then have "freed_at crcf img' sb off i'"
    using get i' v3 ok(2) inode_parse_Inr_D(1,2) [OF i'] by (auto simp: freed_at_def inode_is_v3_def)
  moreover have "take (?n - 176) (drop (off + 176) img') = take (?n - 176) (drop (off + 176) img)"
    using le assms(5) by (intro inode_freed_bytes [OF assms(1)]) auto
  then have "drop 176 w' = drop 176 w" by (simp add: w w'_def drop_take add.commute)
  then have "di_data_fork i' = di_data_fork i"
    using inode_parse_Inr_D(12) [OF i'] inode_parse_Inr_D(12) [OF assms(3)] need by simp
  ultimately show thesis by (rule that)
qed

section \<open>What is carved\<close>

lemma dense_carved:
  assumes "length img < USIZE_MAX" and "del \<in> set (recover_deleted crcf img sb)" and "del_residual_extents del = recs"
    and "dense 0 recs" and "list_all (rec_inside (unat (sb_blocksize sb)) img) recs"
    and "sum_list (map (\<lambda>r. unat (blockcount r)) recs) * unat (sb_blocksize sb) \<le> length img"
    and "0 < unat (sb_blocksize sb)"
  shows "del_carved del = concat (map (rec_bytes (unat (sb_blocksize sb)) img) recs)"
proof -
  let ?bs = "unat (sb_blocksize sb)" and ?all = "concat (map (rec_bytes (unat (sb_blocksize sb)) img) recs)"
  have est: "blocks_size sb recs = length ?all"
    using length_dense [OF assms(5)] by (simp add: blocks_size_def)
  have le: "length ?all \<le> length img" using length_dense [OF assms(5)] assms(6) by simp
  have "del_carved del = map (file_byte img ?bs (length ?all) recs) [0..<length ?all]"
    using recovered_parts [OF assms(1,2)] assms(3) est le by simp
  also have "\<dots> = ?all"
    using laid_out_byte [OF dense_laid_out [OF assms(4,5) order_refl]] length_dense [OF assms(5)]
    by (intro nth_equalityI) simp_all
  finally show ?thesis .
qed

section \<open>Properties\<close>

text \<open>
  C3: Undelete. When a file of inline extents without holes is deleted, leaving its fork and its blocks,
  the recovery reports its inode number with exactly its extents, and what it carves begins with the
  data the reader returned for the file before the delete.
\<close>

theorem undelete_returns_file:
  assumes img: "length img < USIZE_MAX"
    and ino: "read_inode crcf sb img ino = Inr i" "3 \<le> di_version i" "di_format i = Extents"
      "di_data_fork i = concat (map pack recs) @ slack" "unat (di_nextents i) = length recs" "records_end slack"
    and data: "read_file sb img i = Inr data"
    and recs: "recs \<noteq> []" "list_all rec_ok recs" "dense 0 recs"
      "list_all (\<lambda>r. residual_ok (image_blocks img sb) r) recs"
    and sizes: "length data \<le> sum_list (map (\<lambda>r. unat (blockcount r)) recs) * unat (sb_blocksize sb)"
      "sum_list (map (\<lambda>r. unat (blockcount r)) recs) * unat (sb_blocksize sb) \<le> length img"
    and geo: "176 \<le> unat (sb_inodesize sb)" "unat (sb_inodesize sb) * 2 ^ unat (sb_inopblog sb) = unat (sb_blocksize sb)"
      "ino_in_ag sb ino" "loc_bits sb < 64"
    and freed: "inode_freed img img' (unat (loc_byte_offset (inode_to_location sb ino)))"
      "list_all (\<lambda>r. (unat (startblock r) + unat (blockcount r)) * unat (sb_blocksize sb)
          \<le> unat (loc_byte_offset (inode_to_location sb ino)) \<or>
        unat (loc_byte_offset (inode_to_location sb ino)) + 176 \<le> unat (startblock r) * unat (sb_blocksize sb)) recs"
  shows "\<exists>del \<in> set (recover_deleted crcf img' sb). del_inode_number del = ino \<and>
    del_residual_extents del = recs \<and> take (length data) (del_carved del) = data"
proof -
  let ?bs = "unat (sb_blocksize sb)" and ?off = "unat (loc_byte_offset (inode_to_location sb ino))"
  let ?n = "unat (sb_inodesize sb)"
  have bs: "0 < ?bs" using geo(1) by (simp flip: geo(2))
  have len: "length img' = length img" using freed(1) by (simp add: inode_freed_def)
  obtain w where w: "get_range img ?off (?off + ?n) = Some w" "inode_parse crcf w (has_nrext64 sb) = Inr i"
    using ino(1) by (auto simp: read_inode_def Let_def get_range_usat [OF img] split: option.splits)
  obtain i' where i': "freed_at crcf img' sb ?off i'" "di_data_fork i' = di_data_fork i"
    using inode_freed_at [OF freed(1) w ino(2) geo(1)] by blast
  have "length (di_data_fork i) < USIZE_MAX"
    using w img inode_parse_Inr_D(12) [OF w(2)] by (auto simp: get_range_Some_iff)
  moreover have "residual_of (image_blocks img sb) (di_data_fork i) recs"
    unfolding ino(4) by (rule records_end_residual [OF recs(2,4) ino(6)])
  ultimately have res: "decode_residual (di_data_fork i') (image_len_blocks (length img') (ucast (sb_blocksize sb))) = recs"
    by (simp add: decode_residual_of i'(2) len image_len_blocks_exact [OF img bs])
  obtain del where del: "del \<in> set (recover_deleted crcf img' sb)" "del_inode_number del = ino"
      "del_residual_extents del = recs"
    using freed_recovered [OF _ geo i'(1)] res recs(1) img len by auto
  have ins: "list_all (rec_inside ?bs img) recs"
    using recs(4) bs by (auto simp: list_all_iff residual_ok_def rec_inside_def image_blocks_def less_eq_div_iff_mult_less_eq)
  then have ins': "list_all (rec_inside ?bs img') recs" unfolding rec_inside_def len .
  have same: "rec_bytes ?bs img' r = rec_bytes ?bs img r" if "r \<in> set recs" for r
    unfolding rec_bytes_def using that freed(2) ins
    by (intro inode_freed_bytes [OF freed(1)]) (auto simp: list_all_iff rec_inside_def add_mult_distrib)
  have "read_extents (di_data_fork i) (di_nextents i) = recs"
    using recs.walk_stored [OF packs_stored [OF recs(2)], of "[]" slack] ino(4,5) by (simp add: read_extents_def)
  then have rf: "assemble_extents img sb recs (di_size i) = Inr data"
    using data ino(3) by (simp add: read_file_def read_file_from_fork_def)
  then have sz: "unat (di_size i) = length data" "unat (di_size i) \<le> length img"
    using assemble_ok [OF _ img, of "di_size i" sb recs] assemble_too_big [of img "di_size i" sb recs]
    by (cases "length img < unat (di_size i)"; force)+
  have "data = take (length data) (concat (map (rec_bytes ?bs img) recs))"
    using assemble_dense [OF recs(3) ins _ _ img, of "di_size i"] rf sz sizes by simp
  moreover have "del_carved del = concat (map (rec_bytes ?bs img') recs)"
    using dense_carved [OF _ del(1,3) recs(3) ins' _ bs] sizes(2) img len by simp
  moreover have "map (rec_bytes ?bs img') recs = map (rec_bytes ?bs img) recs" using same by simp
  ultimately show ?thesis using del by metis
qed

text \<open>The volume of the demonstration before its file was deleted.\<close>

definition live_image :: bytes where
  "live_image = ([0x49, 0x4e, 0x81, 0xa4, 3, 2] @ replicate 57 0 @ [3] @ replicate 15 0 @ [1] @ replicate 96 0)
     @ pack (demo_rec 0) @ replicate 192 7"

lemma live_length: "length live_image = 384"
  by (simp add: live_image_def)

lemma live_inode:
  "\<exists>i. read_inode crcf demo_sb live_image 0 = Inr i \<and> di_version i = 3 \<and> di_format i = Extents \<and>
     di_data_fork i = pack (demo_rec 0) \<and> unat (di_nextents i) = 1 \<and> di_size i = 3"
proof -
  let ?core = "[0x49, 0x4e, 0x81, 0xa4, 3, 2] @ replicate 57 0 @ [3] @ replicate 15 0 @ [1] @ replicate 96 0 :: bytes"
  let ?d = "?core @ pack (demo_rec 0)"
  have "\<not> has_nrext64 demo_sb" by (simp add: demo_sb_def has_nrext64_def)
  moreover have w: "get_range live_image 0 192 = Some ?d"
    by (simp add: get_range_def live_image_def)
  ultimately have r: "read_inode crcf demo_sb live_image 0 = inode_parse crcf ?d False"
    using demo_location(1) by (simp add: read_inode_def Let_def usat_add_def USIZE_MAX_def demo_sb_def)
  have m: "inode_magic_ok ?d" "u8_at ?d 4 = 3" "u8_at ?d 5 = 2" "be_u64 ?d 56 = 3" "be_u32 ?d 76 = 1"
    by (simp_all add: inode_magic_ok_def be_u16_def be_u32_def be_u64_def get_range_def be_word_def be_nat_Cons
        XFS_DINODE_MAGIC_def u8_at_def get_at_def be_nat_append)
  have need: "inode_need ?d = 176" using m(2) by (simp add: inode_need_def inode_is_v3_def litino_defs)
  then obtain i where i: "inode_parse crcf ?d False = Inr i"
    using inode_parse_cases(1) [OF m(1), of crcf False] by auto
  have "drop 176 ?d = pack (demo_rec 0)" by simp
  then show ?thesis
    using r i m need inode_parse_Inr_D [OF i] by (simp add: format_from_raw_def)
qed

lemma live_deleted: "inode_freed live_image (demo_image 0) 0"
proof -
  have tail: "drop 176 live_image = drop 176 (demo_image 0)"
    by (simp add: live_image_def demo_image_def demo_length)
  have "demo_image 0 ! p = live_image ! p" if "176 \<le> p" "p < 384" for p
    using arg_cong [OF tail, of "\<lambda>xs. xs ! (p - 176)"] that by (simp add: demo_length live_length)
  moreover have "demo_image 0 ! 0 = live_image ! 0" "demo_image 0 ! 1 = live_image ! 1" "demo_image 0 ! 4 = live_image ! 4"
    "demo_image 0 ! 2 = 0" "demo_image 0 ! 3 = 0"
    by (simp_all add: demo_image_def demo_core_def live_image_def)
  ultimately show ?thesis by (simp add: inode_freed_def demo_length live_length numeral_2_eq_2 [symmetric])
qed

theorem undelete_returns_file_witness:
  "\<exists>del \<in> set (recover_deleted (\<lambda>_. 0) (demo_image 0) demo_sb). del_inode_number del = 0 \<and>
     del_residual_extents del = [demo_rec 0] \<and> take (length [7, 7, 7 :: u8]) (del_carved del) = [7, 7, 7]"
proof -
  obtain i where i: "read_inode (\<lambda>_. 0) demo_sb live_image 0 = Inr i" "di_version i = 3" "di_format i = Extents"
     "di_data_fork i = pack (demo_rec 0)" "unat (di_nextents i) = 1" "di_size i = 3"
    using live_inode by blast
  have ok: "rec_ok (demo_rec 0)" by (simp add: rec_ok_def demo_rec_def)
  have sb: "unat (sb_blocksize demo_sb) = 192" "unat (sb_inodesize demo_sb) = 192" "unat (sb_inopblog demo_sb) = 0"
    by (simp_all add: demo_sb_def)
  have dn: "dense 0 [demo_rec 0]" "list_all (rec_inside 192 live_image) [demo_rec 0]"
    by (simp_all add: demo_rec_def rec_inside_def live_length)
  have "assemble_extents live_image demo_sb [demo_rec 0] 3 = Inr (take 3 (rec_bytes 192 live_image (demo_rec 0)))"
    using assemble_dense [of "[demo_rec 0]" demo_sb live_image 3] dn
    by (simp add: sb live_length USIZE_MAX_def) (simp add: demo_rec_def)
  also have "take 3 (rec_bytes 192 live_image (demo_rec 0)) = [7, 7, 7]"
    by (simp add: rec_bytes_def demo_rec_def live_image_def numeral_3_eq_3)
  moreover have "read_extents (pack (demo_rec 0)) (di_nextents i) = [demo_rec 0]"
    using recs.walk_stored [OF packs_stored [of "[demo_rec 0]"], of "[]" "[]"] ok i(5) by (simp add: read_extents_def)
  ultimately have data: "read_file demo_sb live_image i = Inr [7, 7, 7]"
    using i(3,4,6) by (simp add: read_file_def read_file_from_fork_def)
  show ?thesis
    by (rule undelete_returns_file [OF _ i(1) _ i(3) _ _ _ data, where slack = "[]"])
      (use i(2,4,5) ok live_deleted in \<open>simp_all add: sb demo_location live_length USIZE_MAX_def records_end_def demo_rec_def
        residual_ok_def image_blocks_def\<close>)
qed

end
