(* ===== verification/Xfs_Link.thy ===== *)
theory Xfs_Link
  imports Xfs_Volume
begin

text \<open>
  Symbolic links, across the reader and the adapter of \<open>core/src/vfs.rs\<close>: how an image holds the target of
  a link, inline or in blocks, and what \<open>read_link\<close> and \<open>meta\<close> make of it.
\<close>

section \<open>Links in the image\<close>

text \<open>
  A target is stored inline in the data fork or, on volumes before version 5, as the data of a file.
\<close>

definition link_stored :: "superblock \<Rightarrow> bytes \<Rightarrow> dinode \<Rightarrow> bytes \<Rightarrow> bool" where
  "link_stored sb img dn target \<longleftrightarrow> unat (dn_size dn) = length target \<and>
    (dn_format dn = 1 \<and> (\<exists>slack. dn_fork dn = target @ slack) \<or> \<not> sb_is_v5 sb \<and> file_stored sb img dn target)"

text \<open>
  On version 5 volumes each block begins with a header of 56 bytes: the magic \<open>XSLM\<close>, where in the target its
  piece starts, how long the piece is, and 44 bytes more. The size of the inode is that of the target.
\<close>

fun link_blocks :: "nat \<Rightarrow> (bytes \<times> bytes) list \<Rightarrow> bytes" where
  "link_blocks off [] = []"
| "link_blocks off ((piece, rest) # ps) =
    [0x58, 0x53, 0x4c, 0x4d] @ be_bytes 4 off @ be_bytes 4 (length piece) @ rest @ piece @ link_blocks (off + length piece) ps"

definition link_v5_stored :: "superblock \<Rightarrow> bytes \<Rightarrow> dinode \<Rightarrow> bytes \<Rightarrow> (bytes \<times> bytes) list \<Rightarrow> bool" where
  "link_v5_stored sb img dn target ps \<longleftrightarrow> sb_is_v5 sb \<and> concat (map fst ps) = target \<and>
    (\<forall>p \<in> set ps. length (snd p) = 44 \<and> length (fst p) + 56 \<le> unat (sb_blocksize sb)) \<and>
    (\<forall>p \<in> set (butlast ps). length (fst p) + 56 = unat (sb_blocksize sb)) \<and>
    unat (dn_size dn) = length target \<and> file_stored sb img dn (take (length target) (link_blocks 0 ps))"

lemma length_link_blocks:
  "\<forall>p \<in> set ps. length (snd p) = 44 \<Longrightarrow> length (link_blocks off ps) = length (concat (map fst ps)) + 56 * length ps"
  by (induction off ps rule: link_blocks.induct) auto

text \<open>The fifth byte of the blocks is the first of the start of the first piece, which is zero.\<close>

lemma link_blocks_zero: "ps \<noteq> [] \<Longrightarrow> link_blocks 0 ps ! 4 = 0"
  by (cases ps rule: list.exhaust) (auto simp: be_bytes_numeral)

section \<open>What the adapter returns\<close>

text \<open>
  C40: The adapter returns for a symbolic link the stored target cut at the caller's cap, when the target
  is inline or the volume is older than version 5, and nothing for any other node; the metadata have the kind
  of a link, the length of the target, and tell inline targets from remote ones. For a remote target of a
  version 5 volume it returns the first bytes of the blocks, headers included, which is no target:
  the fifth byte is zero.
\<close>

theorem vfs_symlink_target:
  fixes fs :: xfs_fs
  assumes "inode_stored (fs_sb fs) (fs_image fs) ino dn"
    and "length (fs_image fs) < USIZE_MAX" and "0 < unat (sb_blocksize (fs_sb fs))"
  shows "(link_stored (fs_sb fs) (fs_image fs) dn target \<longrightarrow>
      fs_read_link dbg crcf dbg_id fs (Opaque ino :: 'i file_id) cap =
        (Inr (if file_type_from_mode (dn_mode dn) = Symlink then take cap target else []) :: 'e vfs_error + bytes) \<and>
      (\<exists>m. fs_meta_of dbg crcf dbg_id fs (Opaque ino :: 'i file_id) = (Inr m :: 'e vfs_error + 's fs_meta) \<and>
        (fm_kind m = NodeSymlink \<longleftrightarrow> file_type_from_mode (dn_mode dn) = Symlink) \<and>
        unat (fm_size m) = length target \<and> (fm_residency m = NonResident \<longleftrightarrow> dn_format dn \<noteq> 1))) \<and>
    (link_v5_stored (fs_sb fs) (fs_image fs) dn target ps \<longrightarrow> file_type_from_mode (dn_mode dn) = Symlink \<longrightarrow>
      fs_read_link dbg crcf dbg_id fs (Opaque ino :: 'i file_id) cap =
        (Inr (take cap (take (length target) (link_blocks 0 ps))) :: 'e vfs_error + bytes) \<and>
      (0 \<notin> set target \<longrightarrow> 4 < length target \<longrightarrow> 4 < cap \<longrightarrow>
        take cap (take (length target) (link_blocks 0 ps)) \<noteq> take cap target))"
proof -
  obtain i where i: "read_inode crcf (fs_sb fs) (fs_image fs) ino = Inr i" "di_mode i = dn_mode dn"
      "di_format i = format_from_raw (dn_format dn)" "di_size i = dn_size dn"
      "unat (di_nextents i) = dn_nextents dn" "di_data_fork i = dn_fork dn"
    using inode_stored_read [OF assms] by blast
  have kind: "node_kind_of t = NodeSymlink \<longleftrightarrow> t = Symlink" for t by (cases t) simp_all
  have remote: "read_file (fs_sb fs) (fs_image fs) i = Inr data \<and> di_format i \<noteq> Local \<and> dn_format dn \<noteq> 1"
    if "file_stored (fs_sb fs) (fs_image fs) dn data" for data
    using file_stored_read [OF that assms(2) i(3-6)] that i(3)
    by (auto simp: file_stored_def extent_map_def format_from_raw_def)
  have cut: "unwrap_or [] (get_range xs 0 (min n (length xs))) = take n xs" for n and xs :: bytes
    by (cases "n \<le> length xs") (simp_all add: get_range_def)
  have inline: "fs_read_link dbg crcf dbg_id fs (Opaque ino :: 'i file_id) cap =
      (Inr (if inode_file_type i = Symlink then take cap target else []) :: 'e vfs_error + bytes)"
    if "di_format i = Local" "take (unat (di_size i)) (di_data_fork i) = target"
    using i(1) that by (simp add: fs_read_link_def fs_inode_Opaque Let_def cut)
  have blocks: "fs_read_link dbg crcf dbg_id fs (Opaque ino :: 'i file_id) cap =
      (Inr (if inode_file_type i = Symlink then take cap data else []) :: 'e vfs_error + bytes)"
    if "file_stored (fs_sb fs) (fs_image fs) dn data" for data
    using i(1) remote [OF that] by (simp add: fs_read_link_def fs_inode_Opaque)
  have type: "inode_file_type i = file_type_from_mode (dn_mode dn)" by (simp add: inode_file_type_def i(2))
  show ?thesis
  proof (intro conjI impI)
    assume st: "link_stored (fs_sb fs) (fs_image fs) dn target"
    then show "fs_read_link dbg crcf dbg_id fs (Opaque ino :: 'i file_id) cap =
        (Inr (if file_type_from_mode (dn_mode dn) = Symlink then take cap target else []) :: 'e vfs_error + bytes)"
      using inline blocks [of target] i(3,4,6) unfolding link_stored_def type by (auto simp: format_from_raw_def)
    have "di_format i = Local \<longleftrightarrow> dn_format dn = 1" by (simp add: i(3) format_from_raw_def)
    then show "\<exists>m. fs_meta_of dbg crcf dbg_id fs (Opaque ino :: 'i file_id) = (Inr m :: 'e vfs_error + 's fs_meta) \<and>
        (fm_kind m = NodeSymlink \<longleftrightarrow> file_type_from_mode (dn_mode dn) = Symlink) \<and>
        unat (fm_size m) = length target \<and> (fm_residency m = NonResident \<longleftrightarrow> dn_format dn \<noteq> 1)"
      using i(1,4) st by (auto simp: fs_meta_of_def ino_of_def Let_def kind type link_stored_def)
  next
    assume st: "link_v5_stored (fs_sb fs) (fs_image fs) dn target ps" and sym: "file_type_from_mode (dn_mode dn) = Symlink"
    then show "fs_read_link dbg crcf dbg_id fs (Opaque ino :: 'i file_id) cap =
        (Inr (take cap (take (length target) (link_blocks 0 ps))) :: 'e vfs_error + bytes)"
      using blocks [of "take (length target) (link_blocks 0 ps)"] unfolding type by (simp add: link_v5_stored_def)
    assume nul: "0 \<notin> set target" and long: "4 < length target" "4 < cap"
    have "ps \<noteq> []" "length target \<le> length (link_blocks 0 ps)"
      using st long(1) length_link_blocks [of ps 0] by (auto simp: link_v5_stored_def)
    then have "take cap (take (length target) (link_blocks 0 ps)) ! 4 = 0" using long link_blocks_zero by simp
    moreover have "target ! 4 \<in> set target" using long(1) by simp
    then have "take cap target ! 4 \<noteq> 0" using nul long(2) by (metis nth_take)
    ultimately show "take cap (take (length target) (link_blocks 0 ps)) \<noteq> take cap target" by metis
  qed
qed

text \<open>A link to \<open>/abcd\<close>, the only inode of its volume: once inline, once in a block of a version 5 volume.\<close>

definition link_target :: bytes where
  "link_target = [0x2f, 0x61, 0x62, 0x63, 0x64]"

definition link_inode :: "u8 \<Rightarrow> bytes \<Rightarrow> bytes" where
  "link_inode format fork = [0x49, 0x4e, 0xa1, 0xed, 3, format] @ replicate 57 0 @ [5] @ replicate 15 0 @ [1] @ replicate 96 0 @ fork"

definition link_dn :: "u8 \<Rightarrow> bytes \<Rightarrow> dinode" where
  "link_dn format fork = \<lparr>dn_mode = 0xa1ed, dn_version = 3, dn_format = format, dn_size = 5, dn_nextents = 1, dn_fork = fork\<rparr>"

definition link_rec :: bmbt_rec where
  "link_rec = \<lparr>startoff = 0, startblock = 1, blockcount = 1, unwritten = False\<rparr>"

definition link_sb :: superblock where
  "link_sb = vol_sb\<lparr>sb_versionnum := 5\<rparr>"

definition link_image :: bytes where
  "link_image = link_inode 2 (pack link_rec @ replicate 16 0) @ link_blocks 0 [(link_target, replicate 44 0)] @ replicate 147 0"

lemma link_inode_stored:
  assumes "length fork = 32" and "\<not> has_nrext64 sb" and "unat (sb_inodesize sb) = 208"
  shows "inode_stored sb (link_inode format fork @ rest) 0 (link_dn format fork)"
proof -
  have "\<exists>core. link_inode format fork = core @ fork \<and> length core = 176"
    by (intro exI [of _ "take 176 (link_inode format fork)"]) (simp add: link_inode_def)
  then have "inode_bytes False (link_dn format fork) (link_inode format fork)"
    unfolding inode_bytes_def
    by (simp add: link_dn_def) (simp add: bytes_at_iff link_inode_def be_bytes_numeral)
  moreover have "get_range (link_inode format fork @ rest) 0 208 = Some (link_inode format fork)"
    using assms(1) by (simp add: get_range_def link_inode_def)
  moreover have "slot_number sb 0 0 0 = 0" "slot_offset sb 0 0 0 = 0" by (simp_all add: slot_number_def slot_offset_def)
  ultimately show ?thesis
    using assms(2,3) unfolding inode_stored_def by (intro exI [of _ 0] exI [of _ "link_inode format fork"]) simp
qed

lemma link_remote: "link_v5_stored link_sb link_image (link_dn 2 (pack link_rec @ replicate 16 0)) link_target
    [(link_target, replicate 44 0)]"
proof -
  let ?dn = "link_dn 2 (pack link_rec @ replicate 16 0)" and ?data = "[0x58, 0x53, 0x4c, 0x4d, 0] :: bytes"
  have "extents_stored link_sb link_image True 1 (pack link_rec @ replicate 16 0) [link_rec]"
    by (simp add: extents_stored_def rec_ok_def link_rec_def)
  then have "extent_map link_sb link_image ?dn [link_rec]" by (simp add: extent_map_def link_dn_def)
  moreover have "bytes_at link_image 208 ?data"
    by (simp add: bytes_at_iff link_image_def link_inode_def be_bytes_numeral link_target_def)
  then have "laid_out 208 link_image [link_rec] ?data"
    by (simp add: laid_out_def recs_disjoint_def link_rec_def)
  moreover have "unat (sb_blocksize link_sb) = 208" "length ?data \<le> length link_image" "unat (dn_size ?dn) = length ?data"
    by (simp_all add: link_sb_def vol_sb_def link_image_def link_dn_def)
  ultimately have "file_stored link_sb link_image ?dn ?data" unfolding file_stored_def by metis
  then show ?thesis
    by (simp add: link_v5_stored_def link_target_def link_sb_def vol_sb_def sb_is_v5_def sb_version_def link_dn_def be_bytes_numeral)
qed

theorem vfs_symlink_target_witness:
  "fs_read_link (\<lambda>_. []) (\<lambda>_. 0) (\<lambda>_. []) \<lparr>fs_image = link_inode 1 (link_target @ replicate 27 0), fs_sb = vol_sb\<rparr>
      (Opaque 0 :: unit file_id) 4096 = (Inr [0x2f, 0x61, 0x62, 0x63, 0x64] :: unit vfs_error + bytes) \<and>
    fs_read_link (\<lambda>_. []) (\<lambda>_. 0) (\<lambda>_. []) \<lparr>fs_image = link_image, fs_sb = link_sb\<rparr>
      (Opaque 0 :: unit file_id) 4096 = (Inr [0x58, 0x53, 0x4c, 0x4d, 0] :: unit vfs_error + bytes)"
proof
  let ?img = "link_inode 1 (link_target @ replicate 27 0)"
  have sym: "file_type_from_mode (dn_mode (link_dn f fork)) = Symlink" for f fork
    by (simp add: link_dn_def file_type_from_mode_def s_if_defs S_IFLNK_def)
  have sb: "unat (sb_inodesize sb) = 208" "0 < unat (sb_blocksize sb)" "\<not> has_nrext64 sb" if "sb = vol_sb \<or> sb = link_sb" for sb
    using that by (auto simp: link_sb_def vol_sb_def has_nrext64_def sb_is_v5_def sb_version_def)
  have l: "length ?img < USIZE_MAX" "length link_image < USIZE_MAX" "length link_target = 5"
    by (simp_all add: link_inode_def link_target_def link_image_def USIZE_MAX_def)
  have "inode_stored vol_sb (?img @ []) 0 (link_dn 1 (link_target @ replicate 27 0))"
    using sb [of vol_sb] l by (intro link_inode_stored) simp_all
  moreover have "link_stored vol_sb ?img (link_dn 1 (link_target @ replicate 27 0)) link_target"
    by (simp add: link_stored_def link_dn_def link_target_def)
  ultimately show "fs_read_link (\<lambda>_. []) (\<lambda>_. 0) (\<lambda>_. []) \<lparr>fs_image = ?img, fs_sb = vol_sb\<rparr>
      (Opaque 0 :: unit file_id) 4096 = (Inr [0x2f, 0x61, 0x62, 0x63, 0x64] :: unit vfs_error + bytes)"
    using vfs_symlink_target [where fs = "\<lparr>fs_image = ?img, fs_sb = vol_sb\<rparr>" and ino = 0 and cap = 4096
        and dn = "link_dn 1 (link_target @ replicate 27 0)" and target = link_target and dbg = "\<lambda>_. []" and crcf = "\<lambda>_. 0"
        and dbg_id = "\<lambda>_. []" and ?'e = unit and ?'s = unit and ?'i = unit] sym sb [of vol_sb] l
    by (simp add: link_target_def)
  have "inode_stored link_sb link_image 0 (link_dn 2 (pack link_rec @ replicate 16 0))"
    unfolding link_image_def using sb [of link_sb] by (intro link_inode_stored) simp_all
  then show "fs_read_link (\<lambda>_. []) (\<lambda>_. 0) (\<lambda>_. []) \<lparr>fs_image = link_image, fs_sb = link_sb\<rparr>
      (Opaque 0 :: unit file_id) 4096 = (Inr [0x58, 0x53, 0x4c, 0x4d, 0] :: unit vfs_error + bytes)"
    using vfs_symlink_target [where fs = "\<lparr>fs_image = link_image, fs_sb = link_sb\<rparr>" and ino = 0 and cap = 4096
        and dn = "link_dn 2 (pack link_rec @ replicate 16 0)" and target = link_target and ps = "[(link_target, replicate 44 0)]"
        and dbg = "\<lambda>_. []" and crcf = "\<lambda>_. 0" and dbg_id = "\<lambda>_. []" and ?'e = unit and ?'s = unit and ?'i = unit]
      link_remote sym sb [of link_sb] l
    by (simp add: link_target_def be_bytes_numeral)
qed

end
