(* ===== verification/Xfs_Layout.thy ===== *)
theory Xfs_Layout
  imports Xfs_Superblock Xfs_Agheaders
begin

text \<open>
  The headers on disk. A layout is the list of the fields of an XFS structure with their widths, in the
  order of \<open>fs/xfs/libxfs/xfs_format.h\<close> (\<open>struct xfs_dsb\<close>, \<open>xfs_dinode\<close>, \<open>xfs_agf\<close>, \<open>xfs_agi\<close>), which the
  comments of \<open>superblock.rs\<close>, \<open>inode.rs\<close> and \<open>agheaders.rs\<close> cite field by field. \<open>struct_bytes\<close> is what
  a writer stores: every field in its width, one behind the other; no offset occurs in a layout. The
  properties say that the parsers, which go by fixed offsets, return exactly the stored values, whatever
  follows the structure in the buffer.
\<close>

section \<open>Structures\<close>

type_synonym layout = "(string \<times> nat) list"

fun struct_bytes :: "layout \<Rightarrow> (string \<Rightarrow> nat) \<Rightarrow> bytes" where
  "struct_bytes [] v = []"
| "struct_bytes ((f, w) # l) v = be_bytes w (v f) @ struct_bytes l v"

fun layout_size :: "layout \<Rightarrow> nat" where
  "layout_size [] = 0"
| "layout_size ((f, w) # l) = w + layout_size l"

lemma length_struct_bytes [simp]: "length (struct_bytes l v) = layout_size l"
  by (induction l v rule: struct_bytes.induct) simp_all

lemma struct_bytes_append: "struct_bytes (l @ m) v = struct_bytes l v @ struct_bytes m v"
  by (induction l v rule: struct_bytes.induct) simp_all

lemma bytes_at_struct [simp]:
  "bytes_at data off (struct_bytes ((f, w) # l) v) \<longleftrightarrow>
     bytes_at data off (be_bytes w (v f)) \<and> bytes_at data (off + w) (struct_bytes l v)"
  by (simp add: bytes_at_append)

text \<open>A field is read modulo its width, as it is stored.\<close>

lemma bytes_at_field:
  "bytes_at data off (be_bytes 2 n) \<Longrightarrow> be_u16 data off = word_of_nat n"
  "bytes_at data off (be_bytes 4 n) \<Longrightarrow> be_u32 data off = word_of_nat n"
  "bytes_at data off (be_bytes 8 n) \<Longrightarrow> be_u64 data off = word_of_nat n"
  by (auto simp: bytes_at_iff word_unat_eq_iff unat_be be_at_def be_nat_be_bytes unat_of_nat
      simp del: be_bytes.simps)

lemma bytes_at_byte: "bytes_at data off (be_bytes 1 n) \<Longrightarrow> u8_at data off = word_of_nat n"
  using bytes_at_u8 [of data off "word_of_nat (n mod 256)" "[]"]
  by (simp add: word_unat_eq_iff unat_of_nat)

lemma be_word_magic:
  assumes "bytes_at data 0 (be_bytes 4 n)"
  shows "be_word [u8_at data 0, u8_at data 1, u8_at data 2, u8_at data 3] = (word_of_nat n :: u32)"
  using bytes_at_field(2) [OF assms] magic_be_u32 [of data] assms by (simp add: bytes_at_iff)

declare struct_bytes.simps(2) [simp del] be_bytes.simps [simp del]
  add_2_eq_Suc [simp del] add_2_eq_Suc' [simp del] One_nat_def [simp del]

section \<open>Superblock\<close>

definition xfs_dsb :: layout where
  "xfs_dsb =
    [(''sb_magicnum'', 4), (''sb_blocksize'', 4), (''sb_dblocks'', 8), (''sb_rblocks'', 8), (''sb_rextents'', 8),
     (''sb_uuid'', 16), (''sb_logstart'', 8), (''sb_rootino'', 8), (''sb_rbmino'', 8), (''sb_rsumino'', 8),
     (''sb_rextsize'', 4), (''sb_agblocks'', 4), (''sb_agcount'', 4), (''sb_rbmblocks'', 4), (''sb_logblocks'', 4),
     (''sb_versionnum'', 2), (''sb_sectsize'', 2), (''sb_inodesize'', 2), (''sb_inopblock'', 2), (''sb_fname'', 12),
     (''sb_blocklog'', 1), (''sb_sectlog'', 1), (''sb_inodelog'', 1), (''sb_inopblog'', 1), (''sb_agblklog'', 1),
     (''sb_rextslog'', 1), (''sb_inprogress'', 1), (''sb_imax_pct'', 1), (''sb_icount'', 8), (''sb_ifree'', 8),
     (''sb_fdblocks'', 8), (''sb_frextents'', 8), (''sb_uquotino'', 8), (''sb_gquotino'', 8), (''sb_qflags'', 2),
     (''sb_flags'', 1), (''sb_shared_vn'', 1), (''sb_inoalignmt'', 4), (''sb_unit'', 4), (''sb_width'', 4),
     (''sb_dirblklog'', 1), (''sb_logsectlog'', 1), (''sb_logsectsize'', 2), (''sb_logsunit'', 4),
     (''sb_features2'', 4), (''sb_bad_features2'', 4), (''sb_features_compat'', 4), (''sb_features_ro_compat'', 4),
     (''sb_features_incompat'', 4), (''sb_features_log_incompat'', 4)]"

lemma ucast_5_iff: "(ucast (w AND 0x000f :: u16) :: u8) = 5 \<longleftrightarrow> w AND 0x000f = 5"
proof -
  have "unat (w AND 0x000f) \<le> 15"
    using word_and_le1 [where a = "0x000f :: u16"] by (simp add: word_le_nat_alt)
  then show ?thesis by (simp add: word_unat_eq_iff unsigned_ucast_eq take_bit_nat_eq_self)
qed

lemma word_flag: "(word_of_nat n :: u32) AND 2 ^ k \<noteq> 0 \<longleftrightarrow> bit n k" if "k < 32"
  using that by (simp add: and_exp_eq_0_iff_not_bit bit_simps)

text \<open>
  C19: A stored superblock is parsed field by field: whatever values a writer puts into the fields of
  \<open>struct xfs_dsb\<close>, and whatever follows them, the parse succeeds, the record holds exactly these values,
  and the checksum verdict is given exactly for format version 5.
\<close>

theorem superblock_roundtrip:
  assumes "v ''sb_magicnum'' = 0x58465342"
  shows "\<exists>sb. superblock_parse crcf (struct_bytes xfs_dsb v @ rest) = Inr sb \<and> sb =
    \<lparr>sb_magic = XFS_SB_MAGIC, sb_blocksize = word_of_nat (v ''sb_blocksize''),
     sb_rootino = word_of_nat (v ''sb_rootino''), sb_agblocks = word_of_nat (v ''sb_agblocks''),
     sb_agcount = word_of_nat (v ''sb_agcount''), sb_versionnum = word_of_nat (v ''sb_versionnum''),
     sb_inodesize = word_of_nat (v ''sb_inodesize''), sb_inopblock = word_of_nat (v ''sb_inopblock''),
     sb_blocklog = word_of_nat (v ''sb_blocklog''), sb_inodelog = word_of_nat (v ''sb_inodelog''),
     sb_inopblog = word_of_nat (v ''sb_inopblog''), sb_agblklog = word_of_nat (v ''sb_agblklog''),
     sb_features2 = word_of_nat (v ''sb_features2''),
     sb_features_incompat = word_of_nat (v ''sb_features_incompat''),
     sb_crc_valid = crc_status crcf (v ''sb_versionnum'' mod 16 = 5) (struct_bytes xfs_dsb v @ rest) SB_CRC_OFF\<rparr>
    \<and> (sb_is_v5 sb \<longleftrightarrow> v ''sb_versionnum'' mod 16 = 5)
    \<and> (has_ftype sb \<longleftrightarrow> (if v ''sb_versionnum'' mod 16 = 5 then bit (v ''sb_features_incompat'') 0
                          else bit (v ''sb_features2'') 9))
    \<and> (has_nrext64 sb \<longleftrightarrow> v ''sb_versionnum'' mod 16 = 5 \<and> bit (v ''sb_features_incompat'') 5)"
proof -
  define d where "d = struct_bytes xfs_dsb v @ rest"
  have "bytes_at d 0 (struct_bytes xfs_dsb v)" by (simp add: d_def bytes_at_iff)
  note at = this [unfolded xfs_dsb_def, simplified]
  have len: "SB_MIN_LEN \<le> length d" by (simp add: d_def xfs_dsb_def SB_MIN_LEN_def)
  have "bytes_at d 0 (be_bytes 4 0x58465342)" using at assms by simp
  then have magic: "be_word [u8_at d 0, u8_at d 1, u8_at d 2, u8_at d 3] = XFS_SB_MAGIC"
    using be_word_magic by (fastforce simp: XFS_SB_MAGIC_def)
  have f: "be_u32 d 4 = word_of_nat (v ''sb_blocksize'')" "be_u64 d 56 = word_of_nat (v ''sb_rootino'')"
    "be_u32 d 84 = word_of_nat (v ''sb_agblocks'')" "be_u32 d 88 = word_of_nat (v ''sb_agcount'')"
    "be_u16 d 100 = word_of_nat (v ''sb_versionnum'')" "be_u16 d 104 = word_of_nat (v ''sb_inodesize'')"
    "be_u16 d 106 = word_of_nat (v ''sb_inopblock'')" "u8_at d 120 = word_of_nat (v ''sb_blocklog'')"
    "u8_at d 122 = word_of_nat (v ''sb_inodelog'')" "u8_at d 123 = word_of_nat (v ''sb_inopblog'')"
    "u8_at d 124 = word_of_nat (v ''sb_agblklog'')" "be_u32 d 200 = word_of_nat (v ''sb_features2'')"
    "be_u32 d 216 = word_of_nat (v ''sb_features_incompat'')"
    by (intro bytes_at_field bytes_at_byte; use at in simp)+
  have v5: "sb_is_v5 sb \<longleftrightarrow> v ''sb_versionnum'' mod 16 = 5" if "sb_versionnum sb = word_of_nat (v ''sb_versionnum'')" for sb
    using that low_nibble_5 [of "v ''sb_versionnum''"] by (simp add: sb_is_v5_def sb_version_def ucast_5_iff)
  show ?thesis
    using len magic word_flag [of 9] word_flag [of 0] word_flag [of 5]
    by (simp add: superblock_parse_def Let_def not_less f low_nibble_5 v5 has_ftype_def has_nrext64_def
        XFS_SB_VERSION2_FTYPE_def XFS_SB_FEAT_INCOMPAT_FTYPE_def XFS_SB_FEAT_INCOMPAT_NREXT64_def flip: d_def)
qed

theorem superblock_roundtrip_witness:
  "\<exists>sb. superblock_parse (\<lambda>_. 7) (struct_bytes xfs_dsb (\<lambda>f. if f = ''sb_magicnum'' then 0x58465342 else 5) @ [1, 2]) = Inr sb
    \<and> sb_agblocks sb = 5 \<and> sb_inopblog sb = 5 \<and> has_ftype sb \<and> \<not> has_nrext64 sb"
  using superblock_roundtrip [of "\<lambda>f. if f = ''sb_magicnum'' then 0x58465342 else 5" "\<lambda>_. 7" "[1, 2]"]
  by (auto simp: bit_iff_odd)

section \<open>Inode\<close>

text \<open>
  The core of an inode. The counters of the two forks have two layouts: with 64-bit counters the data
  fork's moves into the padding at the front and the attribute fork's takes its place, widened.
\<close>

definition xfs_dinode_core :: "bool \<Rightarrow> layout" where
  "xfs_dinode_core nrext64 =
    [(''di_magic'', 2), (''di_mode'', 2), (''di_version'', 1), (''di_format'', 1), (''di_onlink'', 2),
     (''di_uid'', 4), (''di_gid'', 4), (''di_nlink'', 4), (''di_projid_lo'', 2), (''di_projid_hi'', 2)] @
    (if nrext64 then [(''di_nextents'', 8)] else [(''di_v2_pad'', 6), (''di_flushiter'', 2)]) @
    [(''di_atime'', 8), (''di_mtime'', 8), (''di_ctime'', 8), (''di_size'', 8), (''di_nblocks'', 8),
     (''di_extsize'', 4)] @
    (if nrext64 then [(''di_anextents'', 4), (''di_nrext64_pad'', 2)] else [(''di_nextents'', 4), (''di_anextents'', 2)]) @
    [(''di_forkoff'', 1), (''di_aformat'', 1), (''di_dmevmask'', 4), (''di_dmstate'', 2), (''di_flags'', 2),
     (''di_gen'', 4), (''di_next_unlinked'', 4)]"

definition xfs_dinode_v3 :: layout where
  "xfs_dinode_v3 =
    [(''di_crc'', 4), (''di_changecount'', 8), (''di_lsn'', 8), (''di_flags2'', 8), (''di_cowextsize'', 4),
     (''di_pad2'', 12), (''di_crtime'', 8), (''di_ino'', 8), (''di_uuid'', 16)]"

lemmas layout_defs = xfs_dsb_def xfs_dinode_core_def xfs_dinode_v3_def

definition dinode_layout :: "bool \<Rightarrow> bool \<Rightarrow> layout" where
  "dinode_layout nrext64 v3 = xfs_dinode_core nrext64 @ (if v3 then xfs_dinode_v3 else [])"

lemma core_fields:
  assumes "bytes_at d 0 (struct_bytes (xfs_dinode_core nrext64) v)"
  shows "bytes_at d 0 (be_bytes 2 (v ''di_magic''))" "bytes_at d 2 (be_bytes 2 (v ''di_mode''))"
    "bytes_at d 4 (be_bytes 1 (v ''di_version''))" "bytes_at d 5 (be_bytes 1 (v ''di_format''))"
    "bytes_at d 32 (be_bytes 8 (v ''di_atime''))" "bytes_at d 40 (be_bytes 8 (v ''di_mtime''))"
    "bytes_at d 48 (be_bytes 8 (v ''di_ctime''))" "bytes_at d 56 (be_bytes 8 (v ''di_size''))"
    "bytes_at d 64 (be_bytes 8 (v ''di_nblocks''))" "bytes_at d 82 (be_bytes 1 (v ''di_forkoff''))"
    "bytes_at d 83 (be_bytes 1 (v ''di_aformat''))"
    "if nrext64 then bytes_at d 24 (be_bytes 8 (v ''di_nextents'')) \<and> bytes_at d 76 (be_bytes 4 (v ''di_anextents''))
     else bytes_at d 76 (be_bytes 4 (v ''di_nextents'')) \<and> bytes_at d 80 (be_bytes 2 (v ''di_anextents''))"
proof -
  have t: "bytes_at d 0 (struct_bytes (xfs_dinode_core True) v)" if nrext64 using that assms by simp
  note t' = t [unfolded xfs_dinode_core_def, simplified]
  have f: "bytes_at d 0 (struct_bytes (xfs_dinode_core False) v)" if "\<not> nrext64" using that assms by simp
  note f' = f [unfolded xfs_dinode_core_def, simplified]
  show "bytes_at d 0 (be_bytes 2 (v ''di_magic''))" "bytes_at d 2 (be_bytes 2 (v ''di_mode''))"
    "bytes_at d 4 (be_bytes 1 (v ''di_version''))" "bytes_at d 5 (be_bytes 1 (v ''di_format''))"
    "bytes_at d 32 (be_bytes 8 (v ''di_atime''))" "bytes_at d 40 (be_bytes 8 (v ''di_mtime''))"
    "bytes_at d 48 (be_bytes 8 (v ''di_ctime''))" "bytes_at d 56 (be_bytes 8 (v ''di_size''))"
    "bytes_at d 64 (be_bytes 8 (v ''di_nblocks''))" "bytes_at d 82 (be_bytes 1 (v ''di_forkoff''))"
    "bytes_at d 83 (be_bytes 1 (v ''di_aformat''))"
    "if nrext64 then bytes_at d 24 (be_bytes 8 (v ''di_nextents'')) \<and> bytes_at d 76 (be_bytes 4 (v ''di_anextents''))
     else bytes_at d 76 (be_bytes 4 (v ''di_nextents'')) \<and> bytes_at d 80 (be_bytes 2 (v ''di_anextents''))"
    using t' f' by auto
qed

lemma v3_fields:
  assumes "bytes_at d 100 (struct_bytes xfs_dinode_v3 v)"
  shows "bytes_at d 120 (be_bytes 8 (v ''di_flags2''))" "bytes_at d 128 (be_bytes 4 (v ''di_cowextsize''))"
    "bytes_at d 144 (be_bytes 8 (v ''di_crtime''))" "bytes_at d 152 (be_bytes 8 (v ''di_ino''))"
    "bytes_at d 160 (be_bytes 16 (v ''di_uuid''))"
  using assms by (simp_all add: xfs_dinode_v3_def)

text \<open>
  C20: A stored inode is parsed field by field, for version 2 and version 3 and for both layouts of the extent
  counters: the values of the record are those a writer put into \<open>struct xfs_dinode\<close>, the counters
  included, the times are decoded in the encoding the inode's own flag selects, and the data fork is
  every byte behind the core.
\<close>

theorem inode_roundtrip:
  assumes "v ''di_magic'' = 0x494e" and "v ''di_version'' < 256"
  shows "\<exists>i. inode_parse crcf (struct_bytes (dinode_layout nrext64 (3 \<le> v ''di_version'')) v @ fork) nrext64 = Inr i
    \<and> di_mode i = word_of_nat (v ''di_mode'') \<and> unat (di_version i) = v ''di_version''
    \<and> di_format i = format_from_raw (word_of_nat (v ''di_format''))
    \<and> di_aformat i = word_of_nat (v ''di_aformat'') \<and> di_forkoff i = word_of_nat (v ''di_forkoff'')
    \<and> di_size i = word_of_nat (v ''di_size'') \<and> di_nblocks i = word_of_nat (v ''di_nblocks'')
    \<and> unat (di_nextents i) = v ''di_nextents'' mod (if nrext64 then 2 ^ 64 else 2 ^ 32)
    \<and> unat (di_aextents i) = v ''di_anextents'' mod (if nrext64 then 2 ^ 32 else 2 ^ 16)
    \<and> (let bigtime = (3 \<le> v ''di_version'' \<and> bit (v ''di_flags2'') 3) in
        di_atime i = timestamp_decode (word_of_nat (v ''di_atime'')) bigtime
      \<and> di_mtime i = timestamp_decode (word_of_nat (v ''di_mtime'')) bigtime
      \<and> di_ctime i = timestamp_decode (word_of_nat (v ''di_ctime'')) bigtime
      \<and> di_crtime i = (if 3 \<le> v ''di_version'' then Some (timestamp_decode (word_of_nat (v ''di_crtime'')) bigtime) else None))
    \<and> di_flags2 i = (if 3 \<le> v ''di_version'' then Some (word_of_nat (v ''di_flags2'')) else None)
    \<and> di_cowextsize i = (if 3 \<le> v ''di_version'' then Some (word_of_nat (v ''di_cowextsize'')) else None)
    \<and> di_ino i = (if 3 \<le> v ''di_version'' then Some (word_of_nat (v ''di_ino'')) else None)
    \<and> di_uuid i = (if 3 \<le> v ''di_version'' then Some (be_bytes 16 (v ''di_uuid'')) else None)
    \<and> di_data_fork i = fork"
proof -
  define d where "d = struct_bytes (dinode_layout nrext64 (3 \<le> v ''di_version'')) v @ fork"
  let ?v3 = "3 \<le> v ''di_version''"
  have size: "layout_size (xfs_dinode_core nrext64) = 100" "layout_size xfs_dinode_v3 = 76"
    by (simp_all add: xfs_dinode_core_def xfs_dinode_v3_def)
  have parts: "d = struct_bytes (xfs_dinode_core nrext64) v @ (if ?v3 then struct_bytes xfs_dinode_v3 v else []) @ fork"
    by (simp add: d_def dinode_layout_def struct_bytes_append)
  have core: "bytes_at d 0 (struct_bytes (xfs_dinode_core nrext64) v)"
    by (simp add: parts bytes_at_iff)
  note at = core_fields [OF core]
  note f = at(1,2) [THEN bytes_at_field(1)] at(5-9) [THEN bytes_at_field(3)] at(3,4,10,11) [THEN bytes_at_byte]
  have v3: "bytes_at d 100 (struct_bytes xfs_dinode_v3 v)" if ?v3
    using that bytes_at_shift [of "struct_bytes (xfs_dinode_core nrext64) v" _ 0]
    by (simp add: parts size bytes_at_iff)
  note g = v3_fields [OF v3]
  have f3: "be_u64 d 120 = word_of_nat (v ''di_flags2'')" "be_u32 d 128 = word_of_nat (v ''di_cowextsize'')"
    "be_u64 d 144 = word_of_nat (v ''di_crtime'')" "be_u64 d 152 = word_of_nat (v ''di_ino'')"
    "get_range d 160 176 = Some (be_bytes 16 (v ''di_uuid''))" if ?v3
    using g(1,3,4) [OF that, THEN bytes_at_field(3)] g(2) [OF that, THEN bytes_at_field(2)] g(5) [OF that]
    by (simp_all add: bytes_at_range)
  have ver: "3 \<le> (word_of_nat (v ''di_version'') :: u8) \<longleftrightarrow> ?v3"
    using assms(2) by (simp add: word_le_nat_alt unat_of_nat)
  have big: "(word_of_nat n :: u64) AND XFS_DIFLAG2_BIGTIME \<noteq> 0 \<longleftrightarrow> bit n 3" for n
    using and_exp_eq_0_iff_not_bit [of "word_of_nat n :: u64" 3]
    by (simp add: XFS_DIFLAG2_BIGTIME_def push_bit_eq_mult bit_simps)
  have len: "length d = (if ?v3 then 176 else 100) + length fork"
    by (simp add: parts size)
  have tail: "get_from d (if ?v3 then V3_LITINO_OFFSET else V2_LITINO_OFFSET) = Some fork"
    by (simp add: parts size get_from_def litino_defs)
  have counts: "nrext64 \<Longrightarrow> be_u64 d 24 = word_of_nat (v ''di_nextents'')" "nrext64 \<Longrightarrow> be_u32 d 76 = word_of_nat (v ''di_anextents'')"
    "\<not> nrext64 \<Longrightarrow> be_u32 d 76 = word_of_nat (v ''di_nextents'')" "\<not> nrext64 \<Longrightarrow> be_u16 d 80 = word_of_nat (v ''di_anextents'')"
    using at(12) by (simp_all add: bytes_at_field)
  have bt: "is_some_and (\<lambda>f. f AND XFS_DIFLAG2_BIGTIME \<noteq> 0) (if ?v3 then Some (be_u64 d 120) else None) \<longleftrightarrow> ?v3 \<and> bit (v ''di_flags2'') 3"
    using f3(1) big by simp
  show ?thesis
    unfolding d_def [symmetric] inode_parse_def Let_def f ver bt
    using len tail f3 counts assms
    by (cases ?v3; cases nrext64; simp add: unat_of_nat unat_ucast_widen litino_defs XFS_DINODE_MAGIC_def)
qed

theorem inode_roundtrip_witness:
  "\<exists>i. inode_parse (\<lambda>_. 7) (struct_bytes (dinode_layout True True)
        (\<lambda>f. if f = ''di_magic'' then 0x494e else if f = ''di_nextents'' then 2 ^ 40 else 12) @ [1, 2]) True = Inr i
    \<and> di_mode i = 12 \<and> unat (di_nextents i) = 2 ^ 40 \<and> unat (di_aextents i) = 12 \<and> di_ino i = Some 12 \<and> di_data_fork i = [1, 2]"
  using inode_roundtrip [of "\<lambda>f. if f = ''di_magic'' then 0x494e else if f = ''di_nextents'' then 2 ^ 40 else 12" "\<lambda>_. 7" True "[1, 2]"]
  by auto


section \<open>Allocation-group headers\<close>

definition xfs_agf :: layout where
  "xfs_agf =
    [(''agf_magicnum'', 4), (''agf_versionnum'', 4), (''agf_seqno'', 4), (''agf_length'', 4),
     (''agf_bno_root'', 4), (''agf_cnt_root'', 4), (''agf_rmap_root'', 4),
     (''agf_bno_level'', 4), (''agf_cnt_level'', 4), (''agf_rmap_level'', 4),
     (''agf_flfirst'', 4), (''agf_fllast'', 4), (''agf_flcount'', 4), (''agf_freeblks'', 4),
     (''agf_longest'', 4), (''agf_btreeblks'', 4), (''agf_uuid'', 16), (''agf_rmap_blocks'', 4),
     (''agf_refcount_blocks'', 4), (''agf_refcount_root'', 4), (''agf_refcount_level'', 4)]"

definition xfs_agi_head :: layout where
  "xfs_agi_head =
    [(''agi_magicnum'', 4), (''agi_versionnum'', 4), (''agi_seqno'', 4), (''agi_length'', 4), (''agi_count'', 4),
     (''agi_root'', 4), (''agi_level'', 4), (''agi_freecount'', 4), (''agi_newino'', 4), (''agi_dirino'', 4)]"

text \<open>Behind the head the 64 buckets of the unlinked list, then the fields of later versions.\<close>

definition xfs_agi_tail :: layout where
  "xfs_agi_tail =
    [(''agi_uuid'', 16), (''agi_crc'', 4), (''agi_pad32'', 4), (''agi_lsn'', 8), (''agi_free_root'', 4),
     (''agi_free_level'', 4), (''agi_iblocks'', 4), (''agi_fblocks'', 4)]"

lemma check_magic_stored:
  "bytes_at d 0 (be_bytes 4 n) \<Longrightarrow> check_magic d (word_of_nat n) = Inr (word_of_nat n)"
  using be_word_magic [of d n] by (simp add: check_magic_def)

lemma bytes_at_ring:
  "bytes_at d off (ring_bytes vs) \<Longrightarrow> i < length vs \<Longrightarrow> be_u32 d (off + i * 4) = vs ! i"
proof (induction vs arbitrary: off i)
  case (Cons a vs)
  then have "be_u32 d off = a" "bytes_at d (off + 4) (ring_bytes vs)"
    using bytes_at_be(2) by (simp_all add: bytes_at_append)
  then show ?case
    using Cons.IH [of "off + 4" "i - 1"] Cons.prems(2) by (cases i) (simp_all add: algebra_simps)
qed simp

lemma agf_fields:
  assumes "bytes_at d 0 (struct_bytes xfs_agf v)" and "v ''agf_magicnum'' = 0x58414746"
  shows "agf_parse_inner crcf d verify = Inr
    \<lparr>agf_magicnum = XFS_AGF_MAGIC, agf_versionnum = word_of_nat (v ''agf_versionnum''),
     agf_seqno = word_of_nat (v ''agf_seqno''), agf_length = word_of_nat (v ''agf_length''),
     agf_bno_root = word_of_nat (v ''agf_bno_root''), agf_cnt_root = word_of_nat (v ''agf_cnt_root''),
     agf_rmap_root = word_of_nat (v ''agf_rmap_root''), agf_bno_level = word_of_nat (v ''agf_bno_level''),
     agf_cnt_level = word_of_nat (v ''agf_cnt_level''), agf_rmap_level = word_of_nat (v ''agf_rmap_level''),
     agf_flfirst = word_of_nat (v ''agf_flfirst''), agf_fllast = word_of_nat (v ''agf_fllast''),
     agf_flcount = word_of_nat (v ''agf_flcount''), agf_freeblks = word_of_nat (v ''agf_freeblks''),
     agf_longest = word_of_nat (v ''agf_longest''), agf_btreeblks = word_of_nat (v ''agf_btreeblks''),
     agf_rmap_blocks = word_of_nat (v ''agf_rmap_blocks''),
     agf_refcount_blocks = word_of_nat (v ''agf_refcount_blocks''),
     agf_refcount_root = word_of_nat (v ''agf_refcount_root''),
     agf_refcount_level = word_of_nat (v ''agf_refcount_level''),
     agf_crc_valid = Option.bind verify (\<lambda>is_v5. crc_status crcf is_v5 d AGF_CRC_OFF)\<rparr>"
proof -
  note at = assms(1) [unfolded xfs_agf_def, simplified]
  have len: "AGF_MIN_LEN \<le> length d"
    using assms(1) by (simp add: bytes_at_iff xfs_agf_def AGF_MIN_LEN_def)
  have magic: "check_magic d XFS_AGF_MAGIC = Inr XFS_AGF_MAGIC"
    using check_magic_stored [of d "0x58414746"] at assms(2) by (simp add: XFS_AGF_MAGIC_def)
  have "be_u32 d 4 = word_of_nat (v ''agf_versionnum'')" "be_u32 d 8 = word_of_nat (v ''agf_seqno'')"
    "be_u32 d 12 = word_of_nat (v ''agf_length'')" "be_u32 d 16 = word_of_nat (v ''agf_bno_root'')"
    "be_u32 d 20 = word_of_nat (v ''agf_cnt_root'')" "be_u32 d 24 = word_of_nat (v ''agf_rmap_root'')"
    "be_u32 d 28 = word_of_nat (v ''agf_bno_level'')" "be_u32 d 32 = word_of_nat (v ''agf_cnt_level'')"
    "be_u32 d 36 = word_of_nat (v ''agf_rmap_level'')" "be_u32 d 40 = word_of_nat (v ''agf_flfirst'')"
    "be_u32 d 44 = word_of_nat (v ''agf_fllast'')" "be_u32 d 48 = word_of_nat (v ''agf_flcount'')"
    "be_u32 d 52 = word_of_nat (v ''agf_freeblks'')" "be_u32 d 56 = word_of_nat (v ''agf_longest'')"
    "be_u32 d 60 = word_of_nat (v ''agf_btreeblks'')" "be_u32 d 80 = word_of_nat (v ''agf_rmap_blocks'')"
    "be_u32 d 84 = word_of_nat (v ''agf_refcount_blocks'')" "be_u32 d 88 = word_of_nat (v ''agf_refcount_root'')"
    "be_u32 d 92 = word_of_nat (v ''agf_refcount_level'')"
    by (intro bytes_at_field; use at in simp)+
  then show ?thesis
    using len by (simp add: agf_parse_inner_def magic not_less)
qed

lemma agi_fields:
  assumes "bytes_at d 0 (struct_bytes xfs_agi_head v)" and "v ''agi_magicnum'' = 0x58414749"
    and "bytes_at d 40 (ring_bytes buckets)" and "length buckets = 64"
    and "bytes_at d 296 (struct_bytes xfs_agi_tail v)"
  shows "agi_parse_inner crcf d verify = Inr
    \<lparr>agi_magicnum = XFS_AGI_MAGIC, agi_versionnum = word_of_nat (v ''agi_versionnum''),
     agi_seqno = word_of_nat (v ''agi_seqno''), agi_length = word_of_nat (v ''agi_length''),
     agi_count = word_of_nat (v ''agi_count''), agi_root = word_of_nat (v ''agi_root''),
     agi_level = word_of_nat (v ''agi_level''), agi_freecount = word_of_nat (v ''agi_freecount''),
     agi_newino = word_of_nat (v ''agi_newino''), agi_dirino = word_of_nat (v ''agi_dirino''),
     agi_unlinked = buckets, agi_free_root = word_of_nat (v ''agi_free_root''),
     agi_free_level = word_of_nat (v ''agi_free_level''), agi_ino_blocks = word_of_nat (v ''agi_iblocks''),
     agi_fino_blocks = word_of_nat (v ''agi_fblocks''),
     agi_crc_valid = Option.bind verify (\<lambda>is_v5. crc_status crcf is_v5 d AGI_CRC_OFF)\<rparr>"
proof -
  note at = assms(1) [unfolded xfs_agi_head_def, simplified] assms(5) [unfolded xfs_agi_tail_def, simplified]
  have len: "AGI_MIN_LEN \<le> length d"
    using assms(3,4) by (simp add: bytes_at_iff ag_len_defs)
  have magic: "check_magic d XFS_AGI_MAGIC = Inr XFS_AGI_MAGIC"
    using check_magic_stored [of d "0x58414749"] at assms(2) by (simp add: XFS_AGI_MAGIC_def)
  have ring: "map (\<lambda>i. be_u32 d (AGI_UNLINKED_OFF + i * 4)) [0..<XFS_AGI_UNLINKED_BUCKETS] = buckets"
    using bytes_at_ring [OF assms(3)] assms(4) by (auto intro: nth_equalityI simp: ag_len_defs)
  have "be_u32 d 4 = word_of_nat (v ''agi_versionnum'')" "be_u32 d 8 = word_of_nat (v ''agi_seqno'')"
    "be_u32 d 12 = word_of_nat (v ''agi_length'')" "be_u32 d 16 = word_of_nat (v ''agi_count'')"
    "be_u32 d 20 = word_of_nat (v ''agi_root'')" "be_u32 d 24 = word_of_nat (v ''agi_level'')"
    "be_u32 d 28 = word_of_nat (v ''agi_freecount'')" "be_u32 d 32 = word_of_nat (v ''agi_newino'')"
    "be_u32 d 36 = word_of_nat (v ''agi_dirino'')" "be_u32 d 328 = word_of_nat (v ''agi_free_root'')"
    "be_u32 d 332 = word_of_nat (v ''agi_free_level'')" "be_u32 d 336 = word_of_nat (v ''agi_iblocks'')"
    "be_u32 d 340 = word_of_nat (v ''agi_fblocks'')"
    by (intro bytes_at_field; use at in simp)+
  then show ?thesis
    using len by (simp add: agi_parse_inner_def magic ring not_less)
qed


text \<open>
  C21: Stored allocation-group headers are parsed field by field: the free-space header and the inode
  header with its 64 unlinked buckets, whatever follows them, with the verdict of the stored checksum
  when the volume has one. Neither record mixes up two roots, levels or counters.
\<close>

theorem ag_headers_roundtrip:
  assumes "v ''agf_magicnum'' = 0x58414746" and "v ''agi_magicnum'' = 0x58414749" and "length buckets = 64"
    and "agf_sector = struct_bytes xfs_agf v @ rest"
    and "agi_sector = struct_bytes xfs_agi_head v @ ring_bytes buckets @ struct_bytes xfs_agi_tail v @ rest"
  shows "(\<exists>h. agf_parse_verified crcf agf_sector is_v5 = Inr h
      \<and> map (\<lambda>field. field h) [agf_versionnum, agf_seqno, agf_length, agf_bno_root, agf_cnt_root, agf_rmap_root,
            agf_bno_level, agf_cnt_level, agf_rmap_level, agf_flfirst, agf_fllast, agf_flcount, agf_freeblks,
            agf_longest, agf_btreeblks, agf_rmap_blocks, agf_refcount_blocks, agf_refcount_root, agf_refcount_level]
        = map (\<lambda>name. word_of_nat (v name)) [''agf_versionnum'', ''agf_seqno'', ''agf_length'', ''agf_bno_root'',
            ''agf_cnt_root'', ''agf_rmap_root'', ''agf_bno_level'', ''agf_cnt_level'', ''agf_rmap_level'',
            ''agf_flfirst'', ''agf_fllast'', ''agf_flcount'', ''agf_freeblks'', ''agf_longest'', ''agf_btreeblks'',
            ''agf_rmap_blocks'', ''agf_refcount_blocks'', ''agf_refcount_root'', ''agf_refcount_level'']
      \<and> agf_crc_valid h = crc_status crcf is_v5 agf_sector AGF_CRC_OFF)
    \<and> (\<exists>h. agi_parse_verified crcf agi_sector is_v5 = Inr h
      \<and> map (\<lambda>field. field h) [agi_versionnum, agi_seqno, agi_length, agi_count, agi_root, agi_level, agi_freecount,
            agi_newino, agi_dirino, agi_free_root, agi_free_level, agi_ino_blocks, agi_fino_blocks]
        = map (\<lambda>name. word_of_nat (v name)) [''agi_versionnum'', ''agi_seqno'', ''agi_length'', ''agi_count'',
            ''agi_root'', ''agi_level'', ''agi_freecount'', ''agi_newino'', ''agi_dirino'', ''agi_free_root'',
            ''agi_free_level'', ''agi_iblocks'', ''agi_fblocks'']
      \<and> agi_unlinked h = buckets \<and> agi_crc_valid h = crc_status crcf is_v5 agi_sector AGI_CRC_OFF)"
proof -
  have agf: "bytes_at agf_sector 0 (struct_bytes xfs_agf v)"
    by (simp add: assms(4) bytes_at_iff)
  have agi: "bytes_at agi_sector 0 (struct_bytes xfs_agi_head v)" "bytes_at agi_sector 40 (ring_bytes buckets)"
    "bytes_at agi_sector 296 (struct_bytes xfs_agi_tail v)"
    by (simp_all add: assms(3,5) bytes_at_iff xfs_agi_head_def)
  show ?thesis
    by (simp add: agf_parse_verified_def agi_parse_verified_def agf_fields [OF agf assms(1)]
        agi_fields [OF agi(1) assms(2) agi(2) assms(3) agi(3)])
qed

theorem ag_headers_roundtrip_witness:
  "(\<exists>h. agf_parse_verified (\<lambda>_. 7) (struct_bytes xfs_agf (\<lambda>f. if f = ''agf_magicnum'' then 0x58414746
        else if f = ''agi_magicnum'' then 0x58414749 else length f) @ []) False = Inr h \<and> agf_rmap_root h = 13)
   \<and> (\<exists>h. agi_parse_verified (\<lambda>_. 7) (struct_bytes xfs_agi_head (\<lambda>f. if f = ''agf_magicnum'' then 0x58414746
        else if f = ''agi_magicnum'' then 0x58414749 else length f) @ ring_bytes (replicate 64 9) @
        struct_bytes xfs_agi_tail (\<lambda>f. if f = ''agf_magicnum'' then 0x58414746
        else if f = ''agi_magicnum'' then 0x58414749 else length f) @ []) False = Inr h
      \<and> agi_freecount h = 13 \<and> agi_unlinked h = replicate 64 9)"
  using ag_headers_roundtrip [of "\<lambda>f. if f = ''agf_magicnum'' then 0x58414746
        else if f = ''agi_magicnum'' then 0x58414749 else length f" "replicate 64 9", OF _ _ _ refl refl, of "\<lambda>_. 7" "[]" False]
  by auto

end
