(* ===== verification/Xfs_Overflow.thy ===== *)
theory Xfs_Overflow
  imports Xfs_Dir Xfs_Xattr Xfs_Recovery "HOL-Library.Monad_Syntax"
begin

text \<open>
  Unchecked \<open>usize\<close> arithmetic. The loops over records add and multiply offsets read from the image
  without \<open>saturating_\<close> or \<open>checked_\<close>. A build with overflow checks panics where such an operation
  leaves 64 bits, a release build wraps. The definitions below are the same loops with every unchecked
  operation checked, \<open>None\<close> standing for the panic (for the two functions that use fuel, for running out of
  fuel as well). The property is that on every slice of the program they return, and return what the
  models of the loops return: no input makes a build panic here, and the natural numbers of the models
  never differ from the machine's.
\<close>

section \<open>Checked readers\<close>

definition be_u16_chk :: "bytes \<Rightarrow> nat \<Rightarrow> u16 option" where
  "be_u16_chk data off = do { uchecked_add off 2; Some (be_u16 data off) }"

definition be_u32_chk :: "bytes \<Rightarrow> nat \<Rightarrow> u32 option" where
  "be_u32_chk data off = do { uchecked_add off 4; Some (be_u32 data off) }"

definition be_u64_chk :: "bytes \<Rightarrow> nat \<Rightarrow> u64 option" where
  "be_u64_chk data off = do { uchecked_add off 8; Some (be_u64 data off) }"

named_theorems overflow_simps \<open>checked operations that stay in range\<close>

lemma uchecked_ok [overflow_simps]:
  "a + b \<le> USIZE_MAX \<Longrightarrow> uchecked_add a b = Some (a + b)"
  "a * b \<le> USIZE_MAX \<Longrightarrow> uchecked_mul a b = Some (a * b)"
  by (simp_all add: uchecked_add_def uchecked_mul_def)

lemma be_chk_ok [overflow_simps]:
  "off + 2 \<le> USIZE_MAX \<Longrightarrow> be_u16_chk data off = Some (be_u16 data off)"
  "off + 4 \<le> USIZE_MAX \<Longrightarrow> be_u32_chk data off = Some (be_u32 data off)"
  "off + 8 \<le> USIZE_MAX \<Longrightarrow> be_u64_chk data off = Some (be_u64 data off)"
  by (simp_all add: be_u16_chk_def be_u32_chk_def be_u64_chk_def overflow_simps)

text \<open>An offset near the data is far from the bound.\<close>

definition near :: "nat \<Rightarrow> nat \<Rightarrow> bool" where
  "near n off \<longleftrightarrow> n \<le> ISIZE_MAX \<and> off \<le> n + 2 ^ 33"

lemma near_room [overflow_simps]: "near n off \<Longrightarrow> k \<le> 2 ^ 34 \<Longrightarrow> off + k \<le> USIZE_MAX"
  by (simp add: near_def ISIZE_MAX_def USIZE_MAX_def)

section \<open>Extents and tree pointers\<close>

fun recs_chk :: "nat \<Rightarrow> bytes \<Rightarrow> nat \<Rightarrow> nat \<Rightarrow> bmbt_rec list option" where
  "recs_chk base data i 0 = Some []"
| "recs_chk base data i (Suc k) = do {
     m \<leftarrow> uchecked_mul i 16;
     start \<leftarrow> uchecked_add base m;
     end' \<leftarrow> uchecked_add start 16;
     case get_range data start end' of
       None \<Rightarrow> Some []
     | Some chunk \<Rightarrow> do { rest \<leftarrow> recs_chk base data (Suc i) k; Some (unpack chunk # rest) } }"

lemma recs_chk_ok:
  assumes "length data \<le> ISIZE_MAX" and "base \<le> 72" and "base + i * 16 \<le> length data + 72"
  shows "recs_chk base data i k = Some (recs_loop base data i k)"
  using assms
proof (induction k arbitrary: i)
  case (Suc k)
  have n: "near (length data) (base + i * 16)" "near (length data) (i * 16)"
    using Suc.prems by (simp_all add: near_def)
  then have ok: "uchecked_mul i 16 = Some (i * 16)" "uchecked_add base (i * 16) = Some (base + i * 16)"
    "uchecked_add (base + i * 16) 16 = Some (base + i * 16 + 16)"
    using near_room [OF n(1), of 0] near_room [OF n(1), of 16] near_room [OF n(2), of 0]
    by (simp_all add: uchecked_ok)
  show ?case
    using Suc by (auto simp: ok Let_def get_range_def)
qed simp

fun root_ptrs_chk :: "bytes \<Rightarrow> nat \<Rightarrow> nat \<Rightarrow> nat \<Rightarrow> u64 list option" where
  "root_ptrs_chk fork ptr_area i 0 = Some []"
| "root_ptrs_chk fork ptr_area i (Suc k) = do {
     m \<leftarrow> uchecked_mul i PTR_LEN;
     off \<leftarrow> uchecked_add ptr_area m;
     end' \<leftarrow> uchecked_add off PTR_LEN;
     if length fork < end' then Some []
     else do {
       p \<leftarrow> be_u64_chk fork off;
       rest \<leftarrow> root_ptrs_chk fork ptr_area (Suc i) k;
       Some (p # rest) } }"

definition read_root_ptrs_chk :: "bytes \<Rightarrow> nat \<Rightarrow> nat \<Rightarrow> u64 list option" where
  "read_root_ptrs_chk fork numrecs dmaxrecs = do {
     m \<leftarrow> uchecked_mul dmaxrecs KEY_LEN;
     ptr_area \<leftarrow> uchecked_add BMDR_HDR_LEN m;
     root_ptrs_chk fork ptr_area 0 (min numrecs dmaxrecs) }"

lemma root_ptrs_chk_ok:
  assumes "length fork \<le> ISIZE_MAX" and "pa + i * 8 \<le> length fork + 8"
  shows "root_ptrs_chk fork pa i k = Some (root_ptrs_loop fork pa i k)"
  using assms
proof (induction k arbitrary: i)
  case (Suc k)
  have n: "near (length fork) (pa + i * 8)" "near (length fork) (i * 8)"
    using Suc.prems by (simp_all add: near_def)
  then have ok: "uchecked_mul i 8 = Some (i * 8)" "uchecked_add pa (i * 8) = Some (pa + i * 8)"
    "uchecked_add (pa + i * 8) 8 = Some (pa + i * 8 + 8)" "be_u64_chk fork (pa + i * 8) = Some (be_u64 fork (pa + i * 8))"
    using near_room [OF n(1), of 0] near_room [OF n(1), of 8] near_room [OF n(2), of 0]
    by (simp_all add: uchecked_ok be_chk_ok)
  show ?case
    using Suc by (auto simp: ok Let_def PTR_LEN_def)
qed simp

lemma read_root_ptrs_chk_ok:
  assumes "length fork \<le> ISIZE_MAX" and "dmaxrecs * 16 \<le> length fork"
  shows "read_root_ptrs_chk fork numrecs dmaxrecs = Some (read_root_ptrs fork numrecs dmaxrecs)"
proof -
  have "near (length fork) (dmaxrecs * 8)" "near (length fork) (4 + dmaxrecs * 8)"
    using assms by (simp_all add: near_def)
  then have "uchecked_mul dmaxrecs 8 = Some (dmaxrecs * 8)" "uchecked_add 4 (dmaxrecs * 8) = Some (4 + dmaxrecs * 8)"
    using near_room [of _ _ 0] by (simp_all add: uchecked_ok)
  then show ?thesis
    using root_ptrs_chk_ok [of fork "4 + dmaxrecs * 8" 0] assms
    by (simp add: read_root_ptrs_chk_def read_root_ptrs_def KEY_LEN_def BMDR_HDR_LEN_def Let_def)
qed

text \<open>The tree walk: a panic would show as \<open>None\<close>, as running out of stack frames does.\<close>

function (sequential) walk_block_chk :: "nat \<Rightarrow> bytes \<Rightarrow> superblock \<Rightarrow> u64 \<Rightarrow> u16 \<Rightarrow> walk_state \<Rightarrow> walk_state option"
and walk_children_chk :: "nat \<Rightarrow> bytes \<Rightarrow> superblock \<Rightarrow> bytes \<Rightarrow> u16 \<Rightarrow> nat \<Rightarrow> nat \<Rightarrow> nat \<Rightarrow> walk_state
  \<Rightarrow> walk_state option" where
  "walk_block_chk 0 img sb fsblock expected_level s = None"
| "walk_block_chk (Suc frames) img sb fsblock expected_level (out, budget) =
    (if MAX_BMBT_LEVELS \<le> expected_level then Some (out, budget)
     else
       let blocksize = unat (sb_blocksize sb) in
       case block_slice img fsblock blocksize of
         None \<Rightarrow> Some (out, budget)
       | Some block \<Rightarrow>
         (case bmbt_hdr (be_u32 block 0) of
            None \<Rightarrow> Some (out, budget)
          | Some hdr \<Rightarrow>
            let level = be_u16 block 4;
                numrecs = unat (be_u16 block 6)
            in if level = 0 then
                 (case recs_chk hdr block 0 numrecs of None \<Rightarrow> None | Some rs \<Rightarrow> Some (out @ rs, budget))
               else
                 let maxrecs = (blocksize - hdr) div (KEY_LEN + PTR_LEN) in
                 case Option.bind (uchecked_mul maxrecs KEY_LEN) (uchecked_add hdr) of
                   None \<Rightarrow> None
                 | Some ptr_area \<Rightarrow>
                   walk_children_chk frames img sb block level ptr_area 0 (min numrecs maxrecs) (out, budget)))"
| "walk_children_chk frames img sb block level ptr_area i 0 s = Some s"
| "walk_children_chk frames img sb block level ptr_area i (Suc k) (out, budget) =
    (if budget = 0 then Some (out, budget)
     else
       case Option.bind (uchecked_mul i PTR_LEN) (uchecked_add ptr_area) of
         None \<Rightarrow> None
       | Some off \<Rightarrow>
         (case uchecked_add off PTR_LEN of
            None \<Rightarrow> None
          | Some end' \<Rightarrow>
            if length block < end' then Some (out, budget)
            else
              case be_u64_chk block off of
                None \<Rightarrow> None
              | Some child \<Rightarrow>
                (case walk_block_chk frames img sb child (wsat_sub level 1) (out, budget - 1) of
                   None \<Rightarrow> None
                 | Some s' \<Rightarrow> walk_children_chk frames img sb block level ptr_area (Suc i) k s')))"
  by pat_completeness auto

termination
  by (relation "measures [case_sum (\<lambda>x. fst x) (\<lambda>x. fst x),
      case_sum (\<lambda>x. 0) (\<lambda>(_, _, _, _, _, _, _, k, _). k)]") auto

lemma walk_children_chk_ok:
  assumes "\<And>f e s. walk_block_chk n img sb f e s = walk_block n img sb f e s"
    and "length blk \<le> ISIZE_MAX" and "pa + i * 8 \<le> length blk + 72"
  shows "walk_children_chk n img sb blk level pa i k s = walk_children n img sb blk level pa i k s"
  using assms(3)
proof (induction k arbitrary: i s)
  case (Suc k)
  obtain out b where s: "s = (out, b)" by (cases s)
  have nr: "near (length blk) (pa + i * 8)" "near (length blk) (i * 8)"
    using Suc.prems assms(2) by (simp_all add: near_def)
  then have ok: "uchecked_mul i 8 = Some (i * 8)" "uchecked_add pa (i * 8) = Some (pa + i * 8)"
    "uchecked_add (pa + i * 8) 8 = Some (pa + i * 8 + 8)" "be_u64_chk blk (pa + i * 8) = Some (be_u64 blk (pa + i * 8))"
    using near_room [OF nr(1), of 0] near_room [OF nr(1), of 8] near_room [OF nr(2), of 0]
    by (simp_all add: uchecked_ok be_chk_ok)
  have "pa + Suc i * 8 \<le> length blk + 72" if "pa + i * 8 + 8 \<le> length blk" using that by simp
  then show ?case
    using Suc.IH [of "Suc i"] assms(1) by (auto simp: s ok PTR_LEN_def Let_def not_less walk_children.simps split: option.split)
qed (simp add: walk_children.simps)

lemma walk_block_chk_ok:
  assumes "length img \<le> ISIZE_MAX"
  shows "walk_block_chk n img sb f e s = walk_block n img sb f e s"
proof (induction n arbitrary: f e s)
  case (Suc n)
  obtain out b where s: "s = (out, b)" by (cases s)
  have "(case recs_chk hdr blk 0 m of None \<Rightarrow> None | Some rs \<Rightarrow> Some (out @ rs, b)) = Some (collect_leaf_recs blk hdr m out, b) \<and>
      Option.bind (uchecked_mul ((unat (sb_blocksize sb) - hdr) div 16) 8) (uchecked_add hdr) =
        Some (hdr + (unat (sb_blocksize sb) - hdr) div 16 * 8) \<and>
      walk_children_chk n img sb blk level (hdr + (unat (sb_blocksize sb) - hdr) div 16 * 8) 0 k (out, b) =
        walk_children n img sb blk level (hdr + (unat (sb_blocksize sb) - hdr) div 16 * 8) 0 k (out, b)"
    if blk: "block_slice img f (unat (sb_blocksize sb)) = Some blk" "bmbt_hdr (be_u32 blk 0) = Some hdr" for blk hdr m level k
  proof -
    have len: "length blk = unat (sb_blocksize sb)" "length blk \<le> ISIZE_MAX"
      using blk(1) assms by (auto simp: block_slice_def bind_eq_Some_conv get_range_Some_iff uchecked_mul_def uchecked_add_def split: if_splits)
    have hdr: "hdr \<le> 72" using blk(2) by (auto simp: bmbt_hdr_def bmbt_len_defs split: if_splits)
    have room: "hdr + (unat (sb_blocksize sb) - hdr) div 16 * 8 + 0 * 8 \<le> length blk + 72"
      using len hdr by linarith
    have pa: "hdr + (unat (sb_blocksize sb) - hdr) div 16 * 8 \<le> length blk + 72" using room by simp
    have "near (length blk) ((unat (sb_blocksize sb) - hdr) div 16 * 8)" "near (length blk) (hdr + (unat (sb_blocksize sb) - hdr) div 16 * 8)"
      using len pa by (simp_all add: near_def)
    note ok = this [THEN near_room, of 0]
    show ?thesis
      using recs_chk_ok [of blk hdr 0 m] len hdr ok walk_children_chk_ok [of n img sb blk, OF Suc]
      pa by (auto simp: collect_leaf_recs_def uchecked_ok)
  qed
  then show ?case
    by (auto simp: s Let_def KEY_LEN_def PTR_LEN_def walk_block.simps split: option.split)
qed (simp add: walk_block.simps)

section \<open>Directories\<close>

fun shortform_chk :: "bytes \<Rightarrow> bool \<Rightarrow> nat \<Rightarrow> nat \<Rightarrow> nat \<Rightarrow> dir_entry list option" where
  "shortform_chk fork has_ft inum_width off 0 = Some []"
| "shortform_chk fork has_ft inum_width off (Suc k) = do {
     let namelen = unat (u8_at fork off);
     name_start \<leftarrow> uchecked_add off 3;
     name_end \<leftarrow> uchecked_add name_start namelen;
     case get_range fork name_start name_end of
       None \<Rightarrow> Some []
     | Some name \<Rightarrow> do {
         inum_off \<leftarrow> (if has_ft then uchecked_add name_end 1 else Some name_end);
         inum_end \<leftarrow> uchecked_add inum_off inum_width;
         case get_range fork inum_off inum_end of
           None \<Rightarrow> Some []
         | Some inum_bytes \<Rightarrow> do {
             rest \<leftarrow> shortform_chk fork has_ft inum_width inum_end k;
             Some (\<lparr>de_name = name, de_inode = read_inum inum_bytes,
                    de_ftype = (if has_ft then Some (u8_at fork name_end) else None)\<rparr> # rest) } } }"

definition read_shortform_dir_chk :: "bytes \<Rightarrow> bool \<Rightarrow> dir_entry list option" where
  "read_shortform_dir_chk fork has_ft = do {
     let count = unat (u8_at fork 0);
     let inum_width = (if u8_at fork 1 = 0 then 4 else 8);
     off \<leftarrow> uchecked_add 2 inum_width;
     shortform_chk fork has_ft inum_width off count }"

lemma shortform_chk_ok:
  assumes "length fork \<le> ISIZE_MAX" and "w \<le> 8" and "off \<le> length fork + 10"
  shows "shortform_chk fork has_ft w off k = Some (shortform_loop fork has_ft w off k)"
  using assms(3)
proof (induction k arbitrary: off)
  case (Suc k)
  define e where "e = off + 3 + unat (u8_at fork off)"
  define i where "i = (if has_ft then e + 1 else e)"
  have l: "unat (u8_at fork off) \<le> 255" by (rule unat_u8)
  then have nr: "near (length fork) e" using Suc.prems assms(1) by (simp add: near_def e_def)
  have b: "uchecked_add off 3 = Some (off + 3)" "uchecked_add (off + 3) (unat (u8_at fork off)) = Some e"
    "(if has_ft then uchecked_add e 1 else Some e) = Some i" "uchecked_add i w = Some (i + w)"
    using near_room [OF nr, of 0] near_room [OF nr, of 1] near_room [OF nr, of w] near_room [OF nr, of "1 + w"] assms(2)
    by (simp_all add: uchecked_add_def e_def i_def)
  have IH: "shortform_chk fork has_ft w (i + w) k = Some (shortform_loop fork has_ft w (i + w) k)"
    if "get_range fork i (i + w) \<noteq> None"
    using that by (intro Suc.IH) (auto simp: get_range_Some_iff)
  have pair: "(if has_ft then (Some v, e + 1) else (None, e)) = (if has_ft then Some v else None, i)" for v :: u8
    by (simp add: i_def)
  show ?case
    by (simp only: shortform_chk.simps shortform_loop.simps Let_def b Option.bind_lunit e_def [symmetric] pair prod.case)
      (cases has_ft; use IH in \<open>simp split: option.split\<close>)
qed simp

lemma read_shortform_dir_chk_ok:
  "length fork \<le> ISIZE_MAX \<Longrightarrow> read_shortform_dir_chk fork has_ft = Some (read_shortform_dir fork has_ft)"
  by (simp add: read_shortform_dir_chk_def read_shortform_dir_def Let_def shortform_chk_ok uchecked_add_def USIZE_MAX_def)

function walk_data_chk :: "bytes \<Rightarrow> nat \<Rightarrow> nat \<Rightarrow> bool \<Rightarrow> dir_entry list option" where
  "walk_data_chk block off end' has_ft =
    (case uchecked_add off 3 of
       None \<Rightarrow> None
     | Some lim \<Rightarrow>
       if lim \<le> end' then
         case be_u16_chk block off of
           None \<Rightarrow> None
         | Some tag \<Rightarrow>
           if tag = DATA_FREE_TAG then
             case Option.bind (uchecked_add off 2) (be_u16_chk block) of
               None \<Rightarrow> None
             | Some free_len \<Rightarrow> walk_data_chk block (usat_add off (max (unat free_len) (align8 1))) end' has_ft
           else
             case (be_u64_chk block off, uchecked_add off 8, uchecked_add off 9) of
               (Some ino, Some len_off, Some name_start) \<Rightarrow>
                 let namelen = unat (u8_at block len_off) in
                 if namelen = 0 then Some []
                 else
                   (case uchecked_add name_start namelen of
                      None \<Rightarrow> None
                    | Some name_end \<Rightarrow>
                      (case get_range block name_start name_end of
                         None \<Rightarrow> Some []
                       | Some name \<Rightarrow>
                         let raw = 8 + 1 + namelen + (if has_ft then 1 else 0) + 2 in
                         map_option (\<lambda>rest. \<lparr>de_name = name, de_inode = ino,
                             de_ftype = (if has_ft then Some (u8_at block name_end) else None)\<rparr> # rest)
                           (walk_data_chk block (usat_add off (align8 raw)) end' has_ft)))
             | _ \<Rightarrow> None
       else Some [])"
  by pat_completeness auto

lemma chk_forward: "uchecked_add off 3 = Some lim \<Longrightarrow> lim \<le> e \<Longrightarrow> 0 < k \<Longrightarrow> e - usat_add off k < e - off"
  by (auto simp: uchecked_add_def usat_add_def min_def split: if_splits)

termination walk_data_chk
proof (relation "measure (\<lambda>(block, off, end', has_ft). end' - off)", goal_cases)
  case (3 block off end' has_ft lim tag x y z ino w len_off name_start namelen name_end name raw)
  have "0 < align8 raw"
    unfolding 3 using record_len [of "u8_at block len_off" has_ft] by simp
  then show ?case using chk_forward 3 by simp
qed (auto intro: chk_forward)

declare walk_data_chk.simps [simp del]

lemma walk_data_chk_ok:
  assumes "length block \<le> ISIZE_MAX" and "end' \<le> length block" and "off \<le> length block + 2 ^ 17"
  shows "walk_data_chk block off end' has_ft = Some (walk_data_entries block off end' has_ft)"
  using assms(3)
proof (induction "end' - off" arbitrary: off rule: less_induct)
  case less
  have nr: "near (length block) off" using less.prems assms(1) by (simp add: near_def)
  have room: "off + k \<le> USIZE_MAX" if "k \<le> 2 ^ 20" for k
    using near_room [OF nr, of k] that by simp
  have nl: "unat (u8_at block (off + 8)) \<le> 255" by (rule unat_u8)
  have eqs: "uchecked_add off 3 = Some (off + 3)" "uchecked_add off 8 = Some (off + 8)"
    "uchecked_add off 9 = Some (off + 9)" "be_u16_chk block off = Some (be_u16 block off)"
    "be_u64_chk block off = Some (be_u64 block off)"
    "Option.bind (uchecked_add off 2) (be_u16_chk block) = Some (be_u16 block (off + 2))"
    "uchecked_add (off + 9) (unat (u8_at block (off + 8))) = Some (off + 9 + unat (u8_at block (off + 8)))"
    using room [of 2] room [of 3] room [of 4] room [of 8] room [of 9] room [of "9 + unat (u8_at block (off + 8))"] nl
    by (simp_all add: uchecked_ok be_chk_ok)
  have IH: "walk_data_chk block (usat_add off k) end' has_ft = Some (walk_data_entries block (usat_add off k) end' has_ft)"
    if "off + 3 \<le> end'" "0 < k" "k \<le> 2 ^ 17" for k
  proof (rule less.hyps)
    show "end' - usat_add off k < end' - off"
      using usat_add_forward [of off end' k] that assms by (simp add: ISIZE_MAX_def USIZE_MAX_def)
    show "usat_add off k \<le> length block + 2 ^ 17"
      using that assms by (simp add: usat_add_def)
  qed
  have e: "end' \<le> USIZE_MAX" using assms by (simp add: ISIZE_MAX_def USIZE_MAX_def)
  define raw where "raw = 8 + 1 + unat (u8_at block (off + 8)) + (if has_ft then 1 else 0) + 2"
  have raw: "0 < raw" "raw \<le> 300" using nl by (simp_all add: raw_def)
  then have "raw + 7 \<le> USIZE_MAX" by (simp add: USIZE_MAX_def)
  note al = align8_bounds [OF this]
  have r: "0 < align8 raw" "align8 raw \<le> 2 ^ 17" using al(1,2) raw by simp_all
  have f: "max (unat (be_u16 block (off + 2))) (align8 1) \<le> 2 ^ 17"
    using unat_u16 [of "be_u16 block (off + 2)"] by simp
  show ?case
    unfolding walk_data_chk.simps [of block off] walk_data_entries.simps [of block off] Let_def eqs option.case prod.case
      raw_def [symmetric]
    using IH [of "max (unat (be_u16 block (off + 2))) (align8 1)", OF _ _ f] IH [of "align8 raw", OF _ r] e
    by (cases has_ft; simp split: option.split)
qed

section \<open>Attributes\<close>

fun xattr_sf_chk :: "bytes \<Rightarrow> nat \<Rightarrow> nat \<Rightarrow> xattr list option" where
  "xattr_sf_chk fork off 0 = Some []"
| "xattr_sf_chk fork off (Suc k) = do {
     name_start \<leftarrow> uchecked_add off 3;
     case get_range fork off name_start of
       None \<Rightarrow> Some []
     | Some hdr \<Rightarrow> do {
         value_start \<leftarrow> uchecked_add name_start (unat (hdr ! 0));
         case get_range fork name_start value_start of
           None \<Rightarrow> Some []
         | Some name \<Rightarrow> do {
             next' \<leftarrow> uchecked_add value_start (unat (hdr ! 1));
             case get_range fork value_start next' of
               None \<Rightarrow> Some []
             | Some val \<Rightarrow> do {
                 rest \<leftarrow> xattr_sf_chk fork next' k;
                 Some (\<lparr>xa_name = name, xa_namespace = namespace_from_flags (hdr ! 2), xa_value = val,
                        xa_storage = Shortform, xa_incomplete = (hdr ! 2 AND ATTR_INCOMPLETE \<noteq> 0)\<rparr> # rest) } } } }"

definition parse_shortform_chk :: "bytes \<Rightarrow> xattr list option" where
  "parse_shortform_chk fork =
     (if length fork < 4 then Some []
      else let count = unat (u8_at fork 2) in xattr_sf_chk fork 4 count)"

lemma xattr_sf_chk_ok:
  assumes "length fork \<le> ISIZE_MAX" and "off \<le> length fork"
  shows "xattr_sf_chk fork off k = Some (xattr_sf_loop fork off k)"
  using assms(2)
proof (induction k arbitrary: off)
  case (Suc k)
  have nr: "near (length fork) off" using Suc.prems assms(1) by (simp add: near_def)
  have ok: "uchecked_add off 3 = Some (off + 3)"
    "uchecked_add (off + 3) (unat a) = Some (off + 3 + unat a)"
    "uchecked_add (off + 3 + unat a) (unat b) = Some (off + 3 + unat a + unat b)" for a b :: u8
    using near_room [OF nr, of 3] near_room [OF nr, of "3 + unat a"] near_room [OF nr, of "3 + unat a + unat b"]
      unat_u8 [of a] unat_u8 [of b]
    by (simp_all add: uchecked_ok)
  have IH: "xattr_sf_chk fork x k = Some (xattr_sf_loop fork x k)" if "get_range fork y x = Some v" for x y v
    using that by (intro Suc.IH) (simp add: get_range_Some_iff)
  show ?case
    by (auto simp: ok Let_def split: option.split dest!: IH)
qed simp

function remote_chk :: "nat \<Rightarrow> bytes \<Rightarrow> nat \<Rightarrow> bmbt_rec list \<Rightarrow> nat \<Rightarrow> bool \<Rightarrow> u64 \<Rightarrow> bytes \<Rightarrow> bytes option" where
  "remote_chk fuel img bs recs valuelen v5 logical out =
    (if length out < valuelen then
       case map_logical recs logical of
         None \<Rightarrow> Some out
       | Some fsb \<Rightarrow>
         (case block_bytes img bs fsb of
            None \<Rightarrow> Some out
          | Some block \<Rightarrow>
            if v5 \<and> be_u32 block 0 \<noteq> RMT_MAGIC then Some out
            else
              let body = (if v5 then unwrap_or [] (get_from block RMT_HDR_LEN) else block);
                  want = min (valuelen - length out) (length body)
              in if logical = - 1 then None
                 else case fuel of
                   0 \<Rightarrow> None
                 | Suc n \<Rightarrow>
                   remote_chk n img bs recs valuelen v5 (logical + 1) (out @ take want body))
     else Some out)"
  by pat_completeness auto

termination by (relation "measure fst") auto

declare remote_chk.simps [simp del]

definition read_remote_value_chk ::
  "bytes \<Rightarrow> superblock \<Rightarrow> bmbt_rec list \<Rightarrow> u32 \<Rightarrow> nat \<Rightarrow> bool \<Rightarrow> bytes option" where
  "read_remote_value_chk img sb recs valueblk valuelen v5 =
    (if MAX_VALUE_LEN < valuelen then Some []
     else
       let bs = unat (sb_blocksize sb);
           payload = (if v5 then bs - RMT_HDR_LEN else bs)
       in if payload = 0 then Some []
          else remote_chk valuelen img bs recs valuelen v5 (ucast valueblk) [])"

lemma remote_chk_ok:
  assumes "unat logical + fuel < 2 ^ 64 - 1"
  shows "remote_chk fuel img bs recs valuelen v5 logical out = remote_loop fuel img bs recs valuelen v5 logical out"
  using assms
proof (induction fuel arbitrary: logical out)
  case 0
  have "logical \<noteq> - 1" using 0 by (auto simp: unsigned_minus_1_eq_mask mask_eq_exp_minus_1)
  then show ?case by (subst remote_chk.simps, subst remote_loop.simps) (simp add: Let_def split: option.split)
next
  case (Suc n)
  have l: "logical \<noteq> - 1" using Suc.prems by (auto simp: unsigned_minus_1_eq_mask mask_eq_exp_minus_1)
  have "unat (logical + 1) = unat logical + 1"
    using Suc.prems by (simp add: unat_add_lem [symmetric] unat_word_ariths)
  then have IH: "remote_chk n img bs recs valuelen v5 (logical + 1) o' = remote_loop n img bs recs valuelen v5 (logical + 1) o'" for o'
    using Suc.prems by (intro Suc.IH) simp
  show ?case
    using l by (subst remote_chk.simps, subst remote_loop.simps) (simp add: Let_def IH split: option.split)
qed

lemma read_remote_value_chk_ok:
  "read_remote_value_chk img sb recs vb valuelen v5 = Some (read_remote_value img sb recs vb valuelen v5)"
proof (cases "MAX_VALUE_LEN < valuelen")
  case False
  have "unat (ucast vb :: u64) \<le> 4294967295"
    using unat_u32 [of vb] by (simp add: unat_ucast_widen)
  then have "unat (ucast vb :: u64) + valuelen < 2 ^ 64 - 1"
    using False by (simp add: MAX_VALUE_LEN_def)
  then show ?thesis
    using False remote_loop_total [of v5 "unat (sb_blocksize sb)" valuelen "[]" valuelen img recs "ucast vb"]
    by (auto simp: read_remote_value_chk_def read_remote_value_def Let_def remote_chk_ok rmt_payload_def RMT_HDR_LEN_def)
qed (simp add: read_remote_value_chk_def read_remote_value_def)

definition leaf_entry_chk ::
  "bytes \<Rightarrow> superblock \<Rightarrow> bytes \<Rightarrow> bmbt_rec list \<Rightarrow> bool \<Rightarrow> nat \<Rightarrow> nat \<Rightarrow> xattr option option" where
  "leaf_entry_chk img sb block recs v5 hdr_len i = do {
     m \<leftarrow> uchecked_mul i ATTR_LEAF_ENTRY_LEN;
     eo \<leftarrow> uchecked_add hdr_len m;
     nameidx \<leftarrow> map_option unat (Option.bind (uchecked_add eo 4) (be_u16_chk block));
     flags \<leftarrow> map_option (u8_at block) (uchecked_add eo 6);
     let namespace = namespace_from_flags flags;
         incomplete = (flags AND ATTR_INCOMPLETE \<noteq> 0)
     in if flags AND ATTR_LOCAL \<noteq> 0 then do {
          valuelen \<leftarrow> map_option unat (be_u16_chk block nameidx);
          namelen \<leftarrow> map_option (\<lambda>o'. unat (u8_at block o')) (uchecked_add nameidx 2);
          ns \<leftarrow> uchecked_add nameidx 3;
          name_end \<leftarrow> uchecked_add ns namelen;
          value_end \<leftarrow> uchecked_add name_end valuelen;
          Some (case (get_range block ns name_end, get_range block name_end value_end) of
              (Some name, Some val) \<Rightarrow>
                Some \<lparr>xa_name = name, xa_namespace = namespace, xa_value = val,
                      xa_storage = LeafLocal, xa_incomplete = incomplete\<rparr>
            | _ \<Rightarrow> None) }
        else do {
          valueblk \<leftarrow> be_u32_chk block nameidx;
          valuelen \<leftarrow> map_option unat (Option.bind (uchecked_add nameidx 4) (be_u32_chk block));
          namelen \<leftarrow> map_option (\<lambda>o'. unat (u8_at block o')) (uchecked_add nameidx 8);
          ns \<leftarrow> uchecked_add nameidx 9;
          name_end \<leftarrow> uchecked_add ns namelen;
          case get_range block ns name_end of
            None \<Rightarrow> Some None
          | Some name \<Rightarrow> do {
              val \<leftarrow> read_remote_value_chk img sb recs valueblk valuelen v5;
              Some (Some \<lparr>xa_name = name, xa_namespace = namespace, xa_value = val,
                          xa_storage = LeafRemote valueblk, xa_incomplete = incomplete\<rparr>) } } }"

definition parse_leaf_block_chk ::
  "bytes \<Rightarrow> superblock \<Rightarrow> bytes \<Rightarrow> bmbt_rec list \<Rightarrow> bool \<Rightarrow> xattr list \<Rightarrow> xattr list option" where
  "parse_leaf_block_chk img sb block recs v5 out =
    (let (hdr_len, count_off) = (if v5 then (LEAF_HDR_LEN, LEAF_COUNT_OFF)
                                 else (LEAF_HDR_LEN_V4, LEAF_COUNT_OFF_V4))
     in do {
          count \<leftarrow> map_option unat (be_u16_chk block count_off);
          let max' = (length block - hdr_len) div ATTR_LEAF_ENTRY_LEN;
          xs \<leftarrow> those (map (leaf_entry_chk img sb block recs v5 hdr_len) [0..<min count max']);
          Some (out @ List.map_filter id xs) })"

lemma those_all_Some: "(\<And>x. x \<in> set xs \<Longrightarrow> f x = Some (g x)) \<Longrightarrow> those (map f xs) = Some (map g xs)"
  by (induction xs) simp_all

lemma leaf_entry_chk_ok:
  assumes "length block \<le> ISIZE_MAX" and "h \<le> 80" and "h + i * 8 \<le> length block"
  shows "leaf_entry_chk img sb block recs v5 h i = Some (leaf_entry img sb block recs v5 h i)"
proof -
  define eo where "eo = h + i * 8"
  define ni where "ni = unat (be_u16 block (eo + 4))"
  have far: "near (length block) eo" "near (length block) ni" "near (length block) (i * 8)"
    using assms unat_u16 [of "be_u16 block (eo + 4)"] by (simp_all add: near_def eo_def ni_def)
  have eo: "uchecked_mul i ATTR_LEAF_ENTRY_LEN = Some (i * 8)" "uchecked_add h (i * 8) = Some eo"
    "Option.bind (uchecked_add eo 4) (be_u16_chk block) = Some (be_u16 block (eo + 4))"
    "uchecked_add eo 6 = Some (eo + 6)"
    using near_room [OF far(3), of 0] near_room [OF far(1), of 0] near_room [OF far(1), of 4]
      near_room [OF far(1), of 6]
    by (simp_all add: uchecked_ok be_chk_ok eo_def ATTR_LEAF_ENTRY_LEN_def)
  have ni: "be_u16_chk block ni = Some (be_u16 block ni)" "be_u32_chk block ni = Some (be_u32 block ni)"
    "uchecked_add ni 2 = Some (ni + 2)" "uchecked_add ni 3 = Some (ni + 3)" "uchecked_add ni 8 = Some (ni + 8)"
    "uchecked_add ni 9 = Some (ni + 9)"
    "Option.bind (uchecked_add ni 4) (be_u32_chk block) = Some (be_u32 block (ni + 4))"
    using near_room [OF far(2), of 2] near_room [OF far(2), of 3] near_room [OF far(2), of 4]
      near_room [OF far(2), of 8] near_room [OF far(2), of 9]
    by (simp_all add: uchecked_ok be_chk_ok)
  have ends: "uchecked_add (ni + 3) (unat a) = Some (ni + 3 + unat a)"
    "uchecked_add (ni + 9) (unat a) = Some (ni + 9 + unat a)"
    "uchecked_add (ni + 3 + unat a) (unat b) = Some (ni + 3 + unat a + unat b)" for a :: u8 and b :: u16
    using near_room [OF far(2), of "9 + unat a"] near_room [OF far(2), of "3 + unat a + unat b"]
      unat_u8 [of a] unat_u16 [of b]
    by (simp_all add: uchecked_ok)
  show ?thesis
    unfolding leaf_entry_chk_def leaf_entry_def Let_def eo Option.bind_lunit option.map ni_def [symmetric]
      ni ends read_remote_value_chk_ok
    by (simp add: ATTR_LEAF_ENTRY_LEN_def eo_def [symmetric] ni_def [symmetric] ni ends read_remote_value_chk_ok
        split: option.split)
qed

lemma parse_leaf_block_chk_ok:
  assumes "length block \<le> ISIZE_MAX"
  shows "parse_leaf_block_chk img sb block recs v5 out = Some (parse_leaf_block img sb block recs v5 out)"
proof -
  have entry: "leaf_entry_chk img sb block recs v5 h i = Some (leaf_entry img sb block recs v5 h i)"
    if "h \<le> 80" "i < (length block - h) div 8" for h i
    using that assms by (intro leaf_entry_chk_ok) auto
  have those_ok: "those (map (leaf_entry_chk img sb block recs v5 h) [0..<min n ((length block - h) div 8)]) =
      Some (map (leaf_entry img sb block recs v5 h) [0..<min n ((length block - h) div 8)])" if "h \<le> 80" for h n
    using that by (intro those_all_Some entry) auto
  have count: "be_u16_chk block 56 = Some (be_u16 block 56)" "be_u16_chk block 12 = Some (be_u16 block 12)"
    by (simp_all add: be_u16_chk_def uchecked_add_def USIZE_MAX_def)
  have compact: "List.map_filter id (map f xs) = List.map_filter f xs" for f :: "nat \<Rightarrow> 'b option" and xs
    by (simp add: List.map_filter_def comp_def filter_map)
  show ?thesis
    using those_ok
    by (cases v5) (simp_all add: parse_leaf_block_chk_def parse_leaf_block_def count compact
        LEAF_HDR_LEN_def LEAF_COUNT_OFF_def LEAF_HDR_LEN_V4_def LEAF_COUNT_OFF_V4_def ATTR_LEAF_ENTRY_LEN_def)
qed

section \<open>Free-list ring\<close>

definition read_bno_ring_chk :: "bytes \<Rightarrow> nat \<Rightarrow> nat \<Rightarrow> u32 list option" where
  "read_bno_ring_chk data off slots =
    those (map (\<lambda>i. do {
      m \<leftarrow> uchecked_mul i 4;
      at \<leftarrow> uchecked_add off m;
      end' \<leftarrow> uchecked_add at 4;
      if end' \<le> length data then be_u32_chk data at else Some XFS_NULL_AGBLOCK }) [0..<slots])"

lemma read_bno_ring_chk_ok:
  assumes "off \<le> 36" and "slots < 2 ^ 32"
  shows "read_bno_ring_chk data off slots = Some (read_bno_ring data off slots)"
  unfolding read_bno_ring_chk_def read_bno_ring_def Let_def
  using assms by (intro those_all_Some) (simp add: uchecked_add_def uchecked_mul_def be_u32_chk_def USIZE_MAX_def)

section \<open>Block counts of a freed inode\<close>

text \<open>The iterator sum over the residual extents, in \<open>u64\<close>.\<close>

fun sum_blocks_chk :: "u64 \<Rightarrow> bmbt_rec list \<Rightarrow> u64 option" where
  "sum_blocks_chk acc [] = Some acc"
| "sum_blocks_chk acc (r # rs) =
    (if unat acc + unat (blockcount r) < 2 ^ 64 then sum_blocks_chk (acc + blockcount r) rs else None)"

lemma sum_blocks_chk_ok:
  "\<forall>r \<in> set rs. unat (blockcount r) < 2 ^ 21 \<Longrightarrow> unat acc + length rs * 2 ^ 21 < 2 ^ 64 \<Longrightarrow>
     sum_blocks_chk acc rs = Some (acc + sum_list (map blockcount rs))"
proof (induction rs arbitrary: acc)
  case (Cons r rs)
  have "unat (blockcount r) < 2 ^ 21" using Cons.prems(1) by simp
  moreover from this Cons.prems(2) have lt: "unat acc + unat (blockcount r) < 2 ^ 64" by simp
  moreover have "unat (acc + blockcount r) = unat acc + unat (blockcount r)"
    using lt by (simp add: unat_add_exact)
  ultimately show ?case
    using Cons.IH [of "acc + blockcount r"] Cons.prems by (simp add: add.assoc)
qed simp

lemma length_recs_loop: "length (recs_loop base data i k) \<le> k"
  by (induction base data i k rule: recs_loop.induct) (simp_all add: Let_def split: option.split)

lemma residual_sum_ok:
  assumes "length fork < 2 ^ 16"
  shows "sum_blocks_chk 0 (decode_residual fork tot) = Some (sum_list (map blockcount (decode_residual fork tot)))"
proof -
  have len: "length fork < USIZE_MAX" using assms by (simp add: USIZE_MAX_def)
  have "decode_residual fork tot = takeWhile (residual_ok (unat tot)) (recs_loop 0 fork 0 (length fork div 16 + 1))"
    unfolding decode_residual_def using len by (rule residual_loop_takeWhile) simp
  then have "length (decode_residual fork tot) \<le> length (recs_loop 0 fork 0 (length fork div 16 + 1))"
    by (simp only: length_takeWhile_le)
  also have "\<dots> \<le> length fork div 16 + 1" by (rule length_recs_loop)
  finally have "length (decode_residual fork tot) \<le> 2 ^ 16" using assms by simp
  then have "length (decode_residual fork tot) * 2 ^ 21 \<le> 2 ^ 16 * 2 ^ 21"
    by (rule mult_right_mono) simp
  then show ?thesis
    using residual_set(1) [OF len, of _ tot] by (subst sum_blocks_chk_ok) (auto simp: rec_ok_def)
qed

section \<open>No panic, no wrap\<close>

text \<open>
  C16: No offset computed while reading overflows. On every slice no longer than \<open>isize::MAX\<close> bytes (which
  every slice of a Rust program is) the readers of extents, tree pointers, tree blocks, short-form and
  block directories, short-form and leaf attributes and the free-list ring return with every unchecked
  addition and multiplication checked, and return what the unchecked ones do; nor does the sum of the
  block counts left in the fork of an inode, which is shorter than 64 KiB. No image makes a build with
  overflow checks panic there, nor a release build wrap.
\<close>

theorem readers_never_overflow:
  assumes "length data \<le> ISIZE_MAX"
  shows "recs_chk 0 data 0 (unat nextents) = Some (read_extents data nextents)
    \<and> read_root_ptrs_chk data numrecs ((length data - BMDR_HDR_LEN) div (KEY_LEN + PTR_LEN))
        = Some (read_root_ptrs data numrecs ((length data - BMDR_HDR_LEN) div (KEY_LEN + PTR_LEN)))
    \<and> walk_block_chk MAX_BMBT_PTRS data sb fsblock level (out, budget)
        = walk_block MAX_BMBT_PTRS data sb fsblock level (out, budget)
    \<and> read_shortform_dir_chk data has_ft = Some (read_shortform_dir data has_ft)
    \<and> (\<forall>start \<le> 64. \<forall>end' \<le> length data.
        walk_data_chk data start end' has_ft = Some (walk_data_entries data start end' has_ft))
    \<and> parse_shortform_chk data = Some (parse_shortform data)
    \<and> parse_leaf_block_chk img sb data recs v5 attrs = Some (parse_leaf_block img sb data recs v5 attrs)
    \<and> (length data < 2 ^ 16 \<longrightarrow> sum_blocks_chk 0 (decode_residual data total_blocks)
        = Some (sum_list (map blockcount (decode_residual data total_blocks))))
    \<and> read_bno_ring_chk data AGFL_V5_HEADER_LEN ((unat (sectorsize :: u32) - AGFL_V5_HEADER_LEN) div 4)
        = Some (read_bno_ring data AGFL_V5_HEADER_LEN ((unat sectorsize - AGFL_V5_HEADER_LEN) div 4))"
proof (intro conjI allI impI)
  have "unat sectorsize < 2 ^ 32" using unat_u32 [of sectorsize] by simp
  then show "read_bno_ring_chk data AGFL_V5_HEADER_LEN ((unat sectorsize - AGFL_V5_HEADER_LEN) div 4)
      = Some (read_bno_ring data AGFL_V5_HEADER_LEN ((unat sectorsize - AGFL_V5_HEADER_LEN) div 4))"
    by (intro read_bno_ring_chk_ok) (simp_all add: AGFL_V5_HEADER_LEN_def)
  show "parse_shortform_chk data = Some (parse_shortform data)"
    using assms by (simp add: parse_shortform_chk_def parse_shortform_def Let_def xattr_sf_chk_ok)
qed (use assms in \<open>simp_all add: read_extents_def recs_chk_ok read_root_ptrs_chk_ok walk_block_chk_ok
    read_shortform_dir_chk_ok walk_data_chk_ok parse_leaf_block_chk_ok residual_sum_ok BMDR_HDR_LEN_def KEY_LEN_def PTR_LEN_def\<close>)

theorem readers_never_overflow_witness:
  "recs_chk 0 (replicate 40 0xff) 0 (unat (- 1 :: u64)) = Some (read_extents (replicate 40 0xff) (- 1))
    \<and> walk_block_chk MAX_BMBT_PTRS (replicate 40 0xff) xattr_demo_sb 0 1 ([], 5)
        = walk_block MAX_BMBT_PTRS (replicate 40 0xff) xattr_demo_sb 0 1 ([], 5)
    \<and> read_shortform_dir_chk (replicate 40 0xff) True = Some (read_shortform_dir (replicate 40 0xff) True)
    \<and> walk_data_chk (replicate 40 0xff) 16 40 True = Some (walk_data_entries (replicate 40 0xff) 16 40 True)
    \<and> parse_shortform_chk (replicate 40 0xff) = Some (parse_shortform (replicate 40 0xff))
    \<and> parse_leaf_block_chk [] xattr_demo_sb (replicate 40 0xff) [] True []
        = Some (parse_leaf_block [] xattr_demo_sb (replicate 40 0xff) [] True [])"
  using readers_never_overflow [of "replicate 40 0xff" "- 1" 0 xattr_demo_sb 0 1 "[]" 5 True "[]" "[]" True "[]"]
  by (simp add: ISIZE_MAX_def)

end
