(* ===== verification/Spec2Isabelle.thy ===== *)
theory Spec2Isabelle
  imports Xfs_Tamper Xfs_Undelete Xfs_Link Xfs_Layout Xfs_Overflow
begin

text \<open>
  Verification of the XFS reader and auditor of this repository (crates \<open>xfs-core\<close> and \<open>xfs-forensic\<close>).

  \<^bold>\<open>The program.\<close> \<open>core/src\<close> reads an XFS volume held in memory as a byte slice: superblock and inode
  numbers (\<open>superblock.rs\<close>), allocation-group headers (\<open>agheaders.rs\<close>), inodes (\<open>inode.rs\<close>), the extents
  of a file as an array (\<open>extent.rs\<close>) or a B+tree (\<open>btree.rs\<close>), directories and paths (\<open>dir.rs\<close>), extended
  attributes (\<open>xattr.rs\<close>); \<open>bytes.rs\<close>, \<open>error.rs\<close> and \<open>crc.rs\<close> serve them all, and \<open>vfs.rs\<close> offers the
  whole as a mounted file system. \<open>forensic/src/lib.rs\<close> audits an image and recovers deleted inodes on
  top of the reader. There is no state beyond the image: every operation is a function of the bytes,
  its loops threading a position, an output and, in the B+tree, a budget.

  \<^bold>\<open>The theories\<close>, in the order of their imports:
  \<^item> \<open>Prelude\<close>: \<open>usize\<close> and fixed-width arithmetic as the code uses it (saturating, checked, wrapping),
    slicing, results.
  \<^item> \<open>Xfs_Bytes\<close>, \<open>Xfs_Error\<close>, \<open>Xfs_Crc\<close>: the readers, the error type, checksum verification. Locale
    \<open>header_parser\<close> is the contract of a parser that checks an identity and a length, \<open>checked_header\<close>
    extends it with a checksum verdict.
  \<^item> \<open>Xfs_Inode\<close>, \<open>Xfs_Superblock\<close>, \<open>Xfs_Agheaders\<close>: the parsers, each an interpretation of
    \<open>checked_header\<close>; timestamps; the split of an inode number and its address.
  \<^item> \<open>Xfs_Walk\<close>: locale \<open>packed_walk\<close>, the contract of the three counted loops over packed records
    (extents, short-form directories, short-form attributes), and \<open>block_reader\<close>, that of the two
    functions that cut a block out of the image.
  \<^item> \<open>Xfs_Extent\<close>, \<open>Xfs_Btree\<close>: extent records bit by bit, assembly of a file, the tree walk. Locale
    \<open>walk_relation\<close> is the contract of an observation on the walk; its interpretations are the invariants.
  \<^item> \<open>Xfs_Dir\<close>, \<open>Xfs_Xattr\<close>: the directory and attribute formats and the resolution of a path.
  \<^item> \<open>Xfs_Forensic\<close>: the definitions of the auditor: anomalies and the findings made of them, the audit,
    residual extents and recovery, offsets back to inode numbers.
  \<^item> \<open>Xfs_Crc32c\<close>: the CRC-32C of the standard, an instance of the checksum the model leaves open.
  \<^item> \<open>Xfs_Audit\<close>, \<open>Xfs_Tamper\<close>: what an audit reports, and what it reports of an image after damage.
  \<^item> \<open>Xfs_Recovery\<close>: which deleted inodes are recovered, and what is carved.
  \<^item> \<open>Xfs_Vfs\<close>: the mount adapter. Locale \<open>window_reader\<close> is the contract of a positional read.
  \<^item> \<open>Xfs_Layout\<close>: the headers on disk as lists of fields, and that the parsers undo them.
  \<^item> \<open>Xfs_Overflow\<close>: the loops over records with every unchecked operation on offsets checked.
  \<^item> \<open>Xfs_Volume\<close>: the abstract volume, a tree of named files and directories; how an image holds it, byte
    by byte; the reader and the adapter as lookup in it.
  \<^item> \<open>Xfs_Link\<close>: symbolic links as an image holds them, and what the adapter makes of them.
  \<^item> \<open>Xfs_Undelete\<close>: what recovery finds of a file that a volume held before its inode was freed.

  Definitions carry the names of the code, with a prefix where a name occurs twice or is taken. A
  struct is a record, an enum a datatype, \<open>Result\<close> is a sum with the error on the left, \<open>Option\<close> is
  \<open>option\<close>; \<open>u8\<close> to \<open>u64\<close> are words, \<open>usize\<close> is a natural number with its saturation written out, \<open>i64\<close>
  and \<open>i128\<close> are integers where every value fits. A loop is a recursive function, named after its
  function with \<open>_loop\<close> or after what it does.

  \<^bold>\<open>What is shown.\<close>
  \<^item> Every stored form is read back: superblocks, inodes and allocation-group headers field by field,
    extents, short-form, single-block and multi-block directories, short-form and leaf attributes with
    local and remote values, inline targets of symbolic links, free lists, inode offsets. The records
    are laid out by writers defined next to the lemma, in the widths of the disk format.
  \<^item> The reader as a whole refines its specification: on an image that holds a tree of files and
    directories, \<open>read_by_path\<close> is lookup in the tree, and so are the operations of the adapter; after a
    file's inode is freed, recovery returns the file.
  \<^item> The parts refine their specifications: an assembled file is, byte by byte, what the last extent that
    covers a position holds; the B+tree walk returns the leaves of the abstract tree; \<open>read_by_path\<close>
    returns the file of the inode that the relation \<open>resolves\<close> reaches, and a client of the adapter that
    looks names up one at a time reads the same.
  \<^item> Hostile counts are harmless: results are bounded by the bytes present, the tree walk returns for
    every image, with an invariant that every visited block keeps.
  \<^item> The audit is exact: a checksum mismatch, a divergent superblock field or an orphaned inode is
    reported if and only if a structure the audit recognises has it, and an audit is silent if and only
    if none of these and no impossible geometry is there. A changed byte of a structure whose checksum
    verified is reported, unless the audit recognises the structure by that byte. Recovery is sound and
    complete for freed version 3 inodes, with their residual extents those of the records left in the
    fork, and the bytes carved those of the file they map, as far as the number of recovered blocks
    reaches.
  \<^item> Errors: which inputs are refused, with which error and which numbers in it; a failed path lookup
    reports exactly the first component that does not resolve. No input makes the offsets of the loops
    overflow.
  \<^item> Where the code leaves the format: an extent is read at the XFS address of its blocks exactly in the
    first group or in groups of a power of two of blocks; the adapter looks names up in files; root
    pointers are misplaced by attribute forks; a sparse deleted file is carved as zeros; the remote
    target of a link of a version 5 volume is returned with block headers; a directory block outside the
    image is read as zeros.

  \<^bold>\<open>Frames and fuel.\<close> The recursive walk of the B+tree takes its number of stack frames as an argument
  and returns \<open>None\<close> when they do not suffice. \<open>MAX_BMBT_PTRS\<close> frames always suffice (each frame below the
  first is paid from the pointer budget), which is the number \<open>read_btree_extents\<close> supplies; the property
  on self-referencing blocks shows that a crafted image needs that many. The loops of the inode
  scans, of data blocks and of residual extents recurse on the distance to the end of the buffer; their
  guards on a zero step and on a buffer as long as \<open>usize::MAX\<close> are never false in the code and only
  make the recursion terminate.

  \<^bold>\<open>Parameters.\<close> The CRC32c of the \<open>crc\<close> crate is the argument \<open>crcf\<close>; the property on damage assumes of it
  that changing one byte changes the sum. \<open>Xfs_Crc32c\<close> proves this of the published CRC-32C and checks its
  definition at the standard's check value. Debug texts (\<open>{:?}\<close>) of byte strings and of foreign identities
  are arguments, and so are the byte source and the sniff window of the \<open>forensic_vfs\<close> crate and
  \<open>to_finding\<close> of the report crate. \<open>usize\<close> has 64 bits. Hypotheses on an image's length say that a slice
  is shorter than the address space.

  \<^bold>\<open>Not modelled.\<close> The re-exports of \<open>lib.rs\<close>, fuzz targets and tests. The allocation of output buffers does
  not fail in the model. Builds with overflow checks panic where an unchecked addition of offsets
  overflows: \<open>Xfs_Overflow\<close> shows that the loops of the reader never do, and \<open>be_read_strict\<close> says at which
  offsets a caller from outside can make a byte reader panic.

  The one theorem below relates the auditor's view of an inode slot to the reader's.
\<close>

text \<open>
  The auditor always decodes the classic extent counters. Where the volume has no 64-bit counters, the
  freed inode it sees in a slot is the one the reader reads under the slot's number.
\<close>

lemma freed_at_read_inode:
  assumes "length img < USIZE_MAX" and "\<not> has_nrext64 sb"
  shows "freed_at crcf img sb (unat (loc_byte_offset (inode_to_location sb ino))) i \<longleftrightarrow>
    read_inode crcf sb img ino = Inr i \<and> 3 \<le> di_version i \<and> di_mode i = 0"
  using assms(2)
  by (auto simp: freed_at_def read_inode_def Let_def get_range_usat [OF assms(1)] split: option.splits)

end
